(* ===== verification/Prelude.thy ===== *)
theory Prelude
  imports Complex_Main "HOL-Library.Word"
begin

text \<open>
  Shared vocabulary: the machine types of the C++ sources, the collections of lemmas the
  components extend, and generic facts on words, lists and powers of two.
\<close>

unbundle bit_operations_syntax

type_synonym u8 = "8 word"
type_synonym u16 = "16 word"
type_synonym u32 = "32 word"
type_synonym u64 = "64 word"

named_theorems queue_simps \<open>characteristic equations of the queue operations\<close>
named_theorems mod_defs \<open>definitions of the modulators' operations\<close>

section \<open>Powers of two\<close>

lemma of_int_less_two_powi: "of_int k < (2 powi k :: rat)"
proof (cases "0 \<le> k")
  case True
  have "of_nat (nat k) < (2 ^ nat k :: rat)" by simp
  with True show ?thesis by (simp add: power_int_def)
next
  case False
  then have "of_int k < (0 :: rat)" by simp
  also have "0 < (2 powi k :: rat)" by simp
  finally show ?thesis .
qed

section \<open>Words\<close>

lemma unat_and_mask: "unat (w AND (2 ^ n - 1) :: 'a::len word) = unat w mod 2 ^ n"
  by (simp flip: mask_eq_exp_minus_1 take_bit_eq_mask take_bit_eq_mod add: unsigned_take_bit_eq)

lemma word_eq_of_nat: "unat w = n \<Longrightarrow> w = of_nat n"
  by auto

lemma mod_wrap: "(a::nat) < 2 * n \<Longrightarrow> a mod n = (if a < n then a else a - n)"
  by (simp add: le_mod_geq)

section \<open>Characters as bytes\<close>

lemma unat_of_char: "unat (of_char c :: u8) = of_char c"
proof -
  have "(of_char c :: u8) = of_nat (of_char c)" by (simp add: of_nat_of_char)
  then show ?thesis by (simp add: unat_of_nat)
qed

lemma inj_of_char_u8: "inj (of_char :: char \<Rightarrow> u8)"
proof (rule injI)
  fix c d :: char assume "(of_char c :: u8) = of_char d"
  then have "(of_char c :: nat) = of_char d" using unat_of_char by metis
  then show "c = d" by (metis char_of_char)
qed

section \<open>Big-endian bytes\<close>

definition u32_be :: "u32 \<Rightarrow> u8 list" where
  "u32_be v = [ucast (drop_bit 24 v AND 0xFF), ucast (drop_bit 16 v AND 0xFF),
               ucast (drop_bit 8 v AND 0xFF), ucast (v AND 0xFF)]"

fun be32 :: "u8 list \<Rightarrow> u32" where
  "be32 (a # b # c # d # _) =
     push_bit 24 (ucast a) OR push_bit 16 (ucast b) OR push_bit 8 (ucast c) OR ucast d"
| "be32 _ = 0"

lemma ucast_low_byte: "ucast (ucast (x AND 0xFF :: u32) :: u8) = (take_bit 8 x :: u32)"
proof -
  have m: "(0xFF::u32) = mask 8" by (simp add: mask_eq_exp_minus_1)
  show ?thesis unfolding m by (rule bit_word_eqI) (auto simp: bit_simps)
qed

lemma join_bytes:
  fixes v :: u32
  shows "push_bit 24 (take_bit 8 (drop_bit 24 v)) OR push_bit 16 (take_bit 8 (drop_bit 16 v)) OR
    push_bit 8 (take_bit 8 (drop_bit 8 v)) OR take_bit 8 v = v" (is "?l = v")
proof (rule bit_word_eqI)
  fix n :: nat assume n: "n < LENGTH(32)"
  consider "n < 8" | "8 \<le> n" "n < 16" | "16 \<le> n" "n < 24" | "24 \<le> n" by linarith
  then show "bit ?l n \<longleftrightarrow> bit v n" using n by cases (auto simp: bit_simps)
qed

lemma be32_u32_be [simp]: "be32 (u32_be v @ xs) = v"
  using join_bytes [of v] by (simp add: u32_be_def ucast_low_byte)

lemma length_u32_be [simp]: "length (u32_be v) = 4"
  by (simp add: u32_be_def)

lemma low_byte_be32:
  fixes a b c d :: u8
  shows "u32_be (be32 [a, b, c, d]) = [a, b, c, d]"
proof -
  have m: "(0xFF::u32) = mask 8" by (simp add: mask_eq_exp_minus_1)
  have byte_bit: "\<not> bit x n" if "8 \<le> n" for x :: u8 and n using that bit_imp_le_length [of x n] by auto
  have "(ucast (drop_bit 24 (be32 [a, b, c, d]) AND 0xFF) :: u8) = a"
    "(ucast (drop_bit 16 (be32 [a, b, c, d]) AND 0xFF) :: u8) = b"
    "(ucast (drop_bit 8 (be32 [a, b, c, d]) AND 0xFF) :: u8) = c"
    "(ucast (be32 [a, b, c, d] AND 0xFF) :: u8) = d"
    unfolding m by (rule bit_word_eqI; auto simp: bit_simps byte_bit)+
  then show ?thesis by (simp add: u32_be_def)
qed

end
