(* ===== verification/Rcu.thy ===== *)
theory Rcu
  imports Prelude
begin

text \<open>
  Publication of a heap object to lock-free readers (\<open>rcu.hpp\<close>): \<open>rcu_managed<T>\<close>, through which the
  modulator engine hands its table to the event thread. One step is one access to memory that
  other threads see, or one call of the RCU library. The library is outside the sources; what its
  documentation promises is the rule for callbacks: one registered by \<open>call_rcu\<close> runs after every
  read-side critical section that had begun by then has ended.
\<close>

text \<open>
  A thread that reads is outside a guard, has taken the read lock (\<open>R_locked\<close>), or has loaded the
  pointer (\<open>R_holding\<close>; \<open>None\<close> is null). A thread that writes has, after its exchange, an outgoing
  object to retire.
\<close>

datatype reader = R_idle | R_locked | R_holding "nat option"

datatype writer = W_idle | W_retire nat

text \<open>
  Objects are numbered in the order of their allocation; \<open>rc_heap\<close> holds those not yet deleted.
  \<open>rc_pending\<close> are the callbacks registered and not yet run, each with its object and the readers it
  still waits for.
\<close>

record 'a rcu =
  rc_ptr :: "nat option"
  rc_heap :: "nat \<rightharpoonup> 'a"
  rc_next :: nat
  rc_readers :: "nat \<Rightarrow> reader"
  rc_writers :: "nat \<Rightarrow> writer"
  rc_pending :: "(nat \<times> nat set) list"
  rc_alive :: bool

definition rcu_new :: "'a option \<Rightarrow> 'a rcu" where
  "rcu_new initial = \<lparr>rc_ptr = (case initial of None \<Rightarrow> None | Some v \<Rightarrow> Some 0),
     rc_heap = (case initial of None \<Rightarrow> Map.empty | Some v \<Rightarrow> [0 \<mapsto> v]), rc_next = 1,
     rc_readers = \<lambda>_. R_idle, rc_writers = \<lambda>_. W_idle, rc_pending = [], rc_alive = True\<rparr>"

definition in_section :: "'a rcu \<Rightarrow> nat \<Rightarrow> bool" where
  "in_section s r = (rc_readers s r \<noteq> R_idle)"

definition sections :: "'a rcu \<Rightarrow> nat set" where
  "sections s = {r. in_section s r}"

text \<open>\<open>reader_guard\<close>: the constructor's two accesses, the destructor.\<close>

definition guard_lock :: "nat \<Rightarrow> 'a rcu \<Rightarrow> 'a rcu" where
  "guard_lock r s = s\<lparr>rc_readers := (rc_readers s)(r := R_locked)\<rparr>"

definition guard_load :: "nat \<Rightarrow> 'a rcu \<Rightarrow> 'a rcu" where
  "guard_load r s = s\<lparr>rc_readers := (rc_readers s)(r := R_holding (rc_ptr s))\<rparr>"

definition guard_unlock :: "nat \<Rightarrow> 'a rcu \<Rightarrow> 'a rcu" where
  "guard_unlock r s = s\<lparr>rc_readers := (rc_readers s)(r := R_idle), rc_pending := map (\<lambda>(p, ws). (p, ws - {r})) (rc_pending s)\<rparr>"

text \<open>\<open>pre_warm_rcu_reader\<close>: an empty critical section.\<close>

definition pre_warm :: "nat \<Rightarrow> 'a rcu \<Rightarrow> 'a rcu" where
  "pre_warm r s = guard_unlock r (guard_lock r s)"

text \<open>\<open>store\<close>: the exchange, then the registration of the callback for a non-null outgoing object.\<close>

definition store_exchange :: "nat \<Rightarrow> 'a option \<Rightarrow> 'a rcu \<Rightarrow> 'a rcu" where
  "store_exchange w incoming s =
     (let s' = (case incoming of
          None \<Rightarrow> s\<lparr>rc_ptr := None\<rparr>
        | Some v \<Rightarrow> s\<lparr>rc_ptr := Some (rc_next s), rc_heap := (rc_heap s)(rc_next s \<mapsto> v), rc_next := rc_next s + 1\<rparr>) in
      case rc_ptr s of
        None \<Rightarrow> s'
      | Some old \<Rightarrow> s'\<lparr>rc_writers := (rc_writers s)(w := W_retire old)\<rparr>)"

definition store_call :: "nat \<Rightarrow> nat \<Rightarrow> 'a rcu \<Rightarrow> 'a rcu" where
  "store_call w old s = s\<lparr>rc_writers := (rc_writers s)(w := W_idle), rc_pending := rc_pending s @ [(old, sections s)]\<rparr>"

definition retire_cb :: "nat \<Rightarrow> 'a rcu \<Rightarrow> 'a rcu" where
  "retire_cb p s = s\<lparr>rc_heap := (rc_heap s)(p := None), rc_pending := filter (\<lambda>e. fst e \<noteq> p) (rc_pending s)\<rparr>"

text \<open>The destructor: \<open>synchronize\<close> returns when no reader is inside a guard, then the object is deleted.\<close>

definition rcu_destroy :: "'a rcu \<Rightarrow> 'a rcu" where
  "rcu_destroy s = s\<lparr>rc_alive := False, rc_ptr := None,
     rc_heap := (case rc_ptr s of None \<Rightarrow> rc_heap s | Some p \<Rightarrow> (rc_heap s)(p := None))\<rparr>"

inductive rcu_step :: "'a rcu \<Rightarrow> 'a rcu \<Rightarrow> bool" where
  lock: "rc_alive s \<Longrightarrow> rc_readers s r = R_idle \<Longrightarrow> rcu_step s (guard_lock r s)"
| load: "rc_readers s r = R_locked \<Longrightarrow> rcu_step s (guard_load r s)"
| unlock: "in_section s r \<Longrightarrow> rcu_step s (guard_unlock r s)"
| exchange: "rc_alive s \<Longrightarrow> rc_writers s w = W_idle \<Longrightarrow> rcu_step s (store_exchange w incoming s)"
| call: "rc_writers s w = W_retire old \<Longrightarrow> rcu_step s (store_call w old s)"
| callback: "(p, {}) \<in> set (rc_pending s) \<Longrightarrow> rcu_step s (retire_cb p s)"
| destroy: "rc_alive s \<Longrightarrow> sections s = {} \<Longrightarrow> \<forall>w. rc_writers s w = W_idle \<Longrightarrow> rcu_step s (rcu_destroy s)"

inductive rcu_reach :: "'a option \<Rightarrow> 'a rcu \<Rightarrow> bool" for initial :: "'a option" where
  init: "rcu_reach initial (rcu_new initial)"
| step: "rcu_reach initial s \<Longrightarrow> rcu_step s s' \<Longrightarrow> rcu_reach initial s'"

section \<open>Invariant\<close>

text \<open>Where a live object is: current, about to be retired by one writer, or waiting for its callback.\<close>

definition retiring :: "'a rcu \<Rightarrow> nat \<Rightarrow> bool" where
  "retiring s p = (\<exists>w. rc_writers s w = W_retire p)"

definition waiting :: "'a rcu \<Rightarrow> nat set" where
  "waiting s = fst ` set (rc_pending s)"

definition guarded :: "'a rcu \<Rightarrow> nat \<Rightarrow> nat \<Rightarrow> bool" where
  "guarded s r p = (\<exists>ws. (p, ws) \<in> set (rc_pending s) \<and> r \<in> ws)"

definition rcu_invar :: "'a rcu \<Rightarrow> bool" where
  "rcu_invar s =
     (distinct (map fst (rc_pending s)) \<and>
      (\<forall>p. p \<in> dom (rc_heap s) \<longleftrightarrow> rc_ptr s = Some p \<or> retiring s p \<or> p \<in> waiting s) \<and>
      (\<forall>p. rc_ptr s = Some p \<longrightarrow> \<not> retiring s p \<and> p \<notin> waiting s) \<and>
      (\<forall>p. retiring s p \<longrightarrow> p \<notin> waiting s) \<and>
      (\<forall>w w' p. rc_writers s w = W_retire p \<longrightarrow> rc_writers s w' = W_retire p \<longrightarrow> w = w') \<and>
      (\<forall>p \<in> dom (rc_heap s). p < rc_next s) \<and>
      (\<forall>r p. guarded s r p \<longrightarrow> in_section s r) \<and>
      (\<forall>r p. rc_readers s r = R_holding (Some p) \<longrightarrow> rc_ptr s = Some p \<or> retiring s p \<or> guarded s r p))"

lemma rcu_invarD:
  assumes "rcu_invar s"
  shows "distinct (map fst (rc_pending s))"
    "p \<in> dom (rc_heap s) \<longleftrightarrow> rc_ptr s = Some p \<or> retiring s p \<or> p \<in> waiting s"
    "rc_ptr s = Some p \<Longrightarrow> \<not> retiring s p \<and> p \<notin> waiting s"
    "retiring s p \<Longrightarrow> p \<notin> waiting s"
    "rc_writers s w = W_retire p \<Longrightarrow> rc_writers s w' = W_retire p \<Longrightarrow> w = w'"
    "p \<in> dom (rc_heap s) \<Longrightarrow> p < rc_next s"
    "guarded s r p \<Longrightarrow> in_section s r"
    "rc_readers s r = R_holding (Some p) \<Longrightarrow> rc_ptr s = Some p \<or> retiring s p \<or> guarded s r p"
  using assms by (simp_all add: rcu_invar_def) blast+

lemmas rcu_preds = retiring_def waiting_def guarded_def in_section_def

lemma rcu_new_invar: "rcu_invar (rcu_new initial)"
  by (simp add: rcu_invar_def rcu_new_def rcu_preds split: option.splits)

lemma guard_lock_invar: "rcu_invar s \<Longrightarrow> rc_readers s r = R_idle \<Longrightarrow> rcu_invar (guard_lock r s)"
  by (auto simp: rcu_invar_def rcu_preds guard_lock_def)

lemma guard_load_invar: "rcu_invar s \<Longrightarrow> rc_readers s r = R_locked \<Longrightarrow> rcu_invar (guard_load r s)"
  by (auto simp: rcu_invar_def rcu_preds guard_load_def)

lemma guarded_unlock: "guarded (guard_unlock r s) r' p \<longleftrightarrow> guarded s r' p \<and> r' \<noteq> r"
proof -
  have "(p, ws) \<in> set (rc_pending (guard_unlock r s)) \<longleftrightarrow> (\<exists>ws'. (p, ws') \<in> set (rc_pending s) \<and> ws = ws' - {r})" for ws
    by (auto simp: guard_unlock_def)
  then show ?thesis by (auto simp: guarded_def)
qed

lemma guard_unlock_invar:
  assumes "rcu_invar s"
  shows "rcu_invar (guard_unlock r s)"
proof -
  have w: "map fst (rc_pending (guard_unlock r s)) = map fst (rc_pending s)" by (auto simp: guard_unlock_def)
  then have w': "waiting (guard_unlock r s) = waiting s" by (metis waiting_def set_map)
  show ?thesis using assms unfolding rcu_invar_def w w' guarded_unlock
    by (auto simp: guard_unlock_def retiring_def in_section_def)
qed

lemma guarded_call: "guarded (store_call w old s) r p \<longleftrightarrow> guarded s r p \<or> p = old \<and> in_section s r"
  by (auto simp: guarded_def store_call_def sections_def)

lemma store_call_invar:
  assumes inv: "rcu_invar s" and w: "rc_writers s w = W_retire old"
  shows "rcu_invar (store_call w old s)"
proof -
  have u: "rc_writers s w' = W_retire old \<Longrightarrow> w' = w" for w' using inv w by (simp add: rcu_invar_def)
  have wr: "rc_writers (store_call w old s) = (rc_writers s)(w := W_idle)" by (simp add: store_call_def)
  have rt: "retiring (store_call w old s) p \<longleftrightarrow> retiring s p \<and> p \<noteq> old" for p
    unfolding retiring_def wr using w u by (metis fun_upd_apply writer.distinct(1) writer.inject)
  have wt: "waiting (store_call w old s) = insert old (waiting s)" by (auto simp: waiting_def store_call_def)
  have old: "old \<notin> waiting s" "retiring s old" "rc_ptr s \<noteq> Some old"
    using inv w by (auto simp: rcu_invar_def retiring_def)
  have f: "rc_ptr (store_call w old s) = rc_ptr s" "rc_heap (store_call w old s) = rc_heap s" "rc_next (store_call w old s) = rc_next s"
    "rc_readers (store_call w old s) = rc_readers s" "rc_writers (store_call w old s) = (rc_writers s)(w := W_idle)"
    "map fst (rc_pending (store_call w old s)) = map fst (rc_pending s) @ [old]"
    by (simp_all add: store_call_def)
  have i: "in_section (store_call w old s) = in_section s" by (simp add: fun_eq_iff in_section_def f)
  note D = rcu_invarD [OF inv]
  have "distinct (map fst (rc_pending s) @ [old])" using D(1) old(1) by (auto simp: waiting_def)
  moreover have "\<forall>p. p \<in> dom (rc_heap s) \<longleftrightarrow> rc_ptr s = Some p \<or> (retiring s p \<and> p \<noteq> old) \<or> p \<in> insert old (waiting s)"
    using D(2) old(2) by blast
  moreover have "\<forall>p. rc_ptr s = Some p \<longrightarrow> \<not> (retiring s p \<and> p \<noteq> old) \<and> p \<notin> insert old (waiting s)" using D(3) old(3) by blast
  moreover have "\<forall>p. retiring s p \<and> p \<noteq> old \<longrightarrow> p \<notin> insert old (waiting s)" using D(4) by blast
  moreover have "\<forall>w1 w2 p. ((rc_writers s)(w := W_idle)) w1 = W_retire p \<longrightarrow> ((rc_writers s)(w := W_idle)) w2 = W_retire p \<longrightarrow> w1 = w2"
    using D(5) by (metis fun_upd_apply writer.distinct(1))
  moreover have "\<forall>r p. guarded s r p \<or> p = old \<and> in_section s r \<longrightarrow> in_section s r" using D(7) by blast
  moreover have "\<forall>r p. rc_readers s r = R_holding (Some p) \<longrightarrow>
      rc_ptr s = Some p \<or> (retiring s p \<and> p \<noteq> old) \<or> guarded s r p \<or> p = old \<and> in_section s r"
    using D(8) by (auto simp: in_section_def)
  moreover have "\<forall>p \<in> dom (rc_heap s). p < rc_next s" using D(6) by blast
  ultimately show ?thesis unfolding rcu_invar_def rt wt f guarded_call i by (intro conjI) assumption+
qed

lemma retire_cb_invar:
  assumes inv: "rcu_invar s" and e: "(p, {}) \<in> set (rc_pending s)"
  shows "rcu_invar (retire_cb p s)"
proof -
  have p: "p \<in> waiting s" using e by (force simp: waiting_def)
  then have ptr: "rc_ptr s \<noteq> Some p" "\<not> retiring s p" using inv by (auto simp: rcu_invar_def)
  have ng: "\<not> guarded s r p" for r
    using inv e by (auto simp: rcu_invar_def guarded_def dest: eq_key_imp_eq_value)
  have w: "waiting (retire_cb p s) = waiting s - {p}" by (auto simp: waiting_def retire_cb_def)
  have g: "guarded (retire_cb p s) r p' \<longleftrightarrow> guarded s r p'" for r p' using ng by (auto simp: guarded_def retire_cb_def)
  have d: "distinct (map fst (rc_pending (retire_cb p s)))" using inv by (auto simp: rcu_invar_def retire_cb_def distinct_map_filter)
  have f: "rc_ptr (retire_cb p s) = rc_ptr s" "rc_heap (retire_cb p s) = (rc_heap s)(p := None)" "rc_next (retire_cb p s) = rc_next s"
    "rc_readers (retire_cb p s) = rc_readers s" "rc_writers (retire_cb p s) = rc_writers s"
    by (simp_all add: retire_cb_def)
  show ?thesis using inv d ptr unfolding rcu_invar_def w g f retiring_def in_section_def by auto
qed

lemma ex_retire_upd:
  assumes "f w = W_idle"
  shows "(\<exists>v. (f(w := W_retire q)) v = W_retire p) \<longleftrightarrow> q = p \<or> (\<exists>v. f v = W_retire p)"
proof -
  have "v \<noteq> w" if "f v = W_retire p" for v using that assms by auto
  then show ?thesis by (cases "q = p") (auto intro: exI [of _ w])
qed

lemma store_exchange_invar:
  assumes inv: "rcu_invar s" and w: "rc_writers s w = W_idle"
  shows "rcu_invar (store_exchange w incoming s)"
proof -
  let ?t = "store_exchange w incoming s"
  have f: "rc_readers ?t = rc_readers s" "rc_pending ?t = rc_pending s"
    by (auto simp: store_exchange_def Let_def split: option.splits)
  have pre: "waiting ?t = waiting s" "guarded ?t = guarded s" "in_section ?t = in_section s"
    by (auto simp: fun_eq_iff waiting_def guarded_def in_section_def f)
  have fresh: "rc_next s \<notin> dom (rc_heap s)" using rcu_invarD(6) [OF inv, of "rc_next s"] by auto
  then have fresh': "rc_ptr s \<noteq> Some (rc_next s)" "\<not> retiring s (rc_next s)" "rc_next s \<notin> waiting s"
    using rcu_invarD(2) [OF inv, of "rc_next s"] by blast+
  have ws: "rc_writers ?t = (case rc_ptr s of None \<Rightarrow> rc_writers s | Some old \<Rightarrow> (rc_writers s)(w := W_retire old))"
    by (auto simp: store_exchange_def Let_def split: option.splits)
  have rt: "retiring ?t p \<longleftrightarrow> retiring s p \<or> rc_ptr s = Some p" for p
  proof (cases "rc_ptr s")
    case (Some old)
    show ?thesis unfolding retiring_def ws Some option.case ex_retire_upd [where f = "rc_writers s", OF w] by auto
  qed (simp add: retiring_def ws)
  have uniq: "w1 = w2" if "rc_writers ?t w1 = W_retire p" "rc_writers ?t w2 = W_retire p" for w1 w2 p
  proof (cases "rc_ptr s")
    case None
    show ?thesis using that unfolding ws None option.case by (rule rcu_invarD(5) [OF inv])
  next
    case (Some old)
    then have "rc_writers s w' \<noteq> W_retire old" for w' using rcu_invarD(3) [OF inv Some] by (auto simp: retiring_def)
    then show ?thesis using that rcu_invarD(5) [OF inv] unfolding ws Some option.case by (metis fun_upd_apply writer.inject)
  qed
  have hp: "rc_ptr ?t = (case incoming of None \<Rightarrow> None | Some v \<Rightarrow> Some (rc_next s))"
    "dom (rc_heap ?t) = (case incoming of None \<Rightarrow> dom (rc_heap s) | Some v \<Rightarrow> insert (rc_next s) (dom (rc_heap s)))"
    "rc_next ?t = (case incoming of None \<Rightarrow> rc_next s | Some v \<Rightarrow> rc_next s + 1)"
    by (auto simp: store_exchange_def Let_def split: option.splits if_splits)
  show ?thesis using inv uniq fresh' unfolding rcu_invar_def pre rt hp f
    by (cases incoming) (auto simp: less_Suc_eq)
qed

lemma rcu_destroy_invar:
  assumes inv: "rcu_invar s" and quiet: "sections s = {}"
  shows "rcu_invar (rcu_destroy s)"
proof -
  have f: "rc_ptr (rcu_destroy s) = None" "rc_next (rcu_destroy s) = rc_next s" "rc_readers (rcu_destroy s) = rc_readers s"
    "rc_writers (rcu_destroy s) = rc_writers s" "rc_pending (rcu_destroy s) = rc_pending s"
    "dom (rc_heap (rcu_destroy s)) = dom (rc_heap s) - set_option (rc_ptr s)"
    by (auto simp: rcu_destroy_def split: option.splits if_splits)
  have pre: "waiting (rcu_destroy s) = waiting s" "guarded (rcu_destroy s) = guarded s" "in_section (rcu_destroy s) = in_section s"
    "retiring (rcu_destroy s) = retiring s"
    by (auto simp: fun_eq_iff rcu_preds f)
  have "rc_readers s r \<noteq> R_holding (Some p)" for r p using quiet by (auto simp: sections_def in_section_def)
  then show ?thesis using inv unfolding rcu_invar_def pre f by auto
qed

lemma rcu_step_invar: "rcu_step s s' \<Longrightarrow> rcu_invar s \<Longrightarrow> rcu_invar s'"
  by (induction rule: rcu_step.induct)
    (simp_all add: guard_lock_invar guard_load_invar guard_unlock_invar store_exchange_invar store_call_invar retire_cb_invar rcu_destroy_invar)

lemma rcu_reach_invar: "rcu_reach initial s \<Longrightarrow> rcu_invar s"
  by (induction rule: rcu_reach.induct) (auto intro: rcu_new_invar rcu_step_invar)

text \<open>An object keeps its value until it is deleted.\<close>

lemma heap_stable:
  assumes "rcu_step s s'" "rcu_invar s" "p \<in> dom (rc_heap s)" "p \<in> dom (rc_heap s')"
  shows "rc_heap s' p = rc_heap s p"
  using assms
proof (cases rule: rcu_step.cases)
  case (exchange w incoming)
  have "p \<noteq> rc_next s" using rcu_invarD(6) [OF assms(2,3)] by simp
  with exchange show ?thesis by (auto simp: store_exchange_def Let_def split: option.splits)
qed (auto simp: guard_lock_def guard_load_def guard_unlock_def store_call_def retire_cb_def rcu_destroy_def split: option.splits if_splits)

lemma guarded_waiting: "guarded s r p \<Longrightarrow> p \<in> waiting s"
  by (force simp: guarded_def waiting_def)

lemma held_live:
  assumes "rcu_invar s" "rc_readers s r = R_holding (Some p)"
  shows "p \<in> dom (rc_heap s)"
  using rcu_invarD(8) [OF assms] unfolding rcu_invarD(2) [OF assms(1)] by (blast dest: guarded_waiting)

lemma callback_ready:
  assumes "rcu_invar s" "(p, {}) \<in> set (rc_pending s)"
  shows "p \<in> dom (rc_heap s)" "rc_readers s r \<noteq> R_holding (Some p)"
proof -
  have w: "p \<in> waiting s" using assms(2) by (force simp: waiting_def)
  then show "p \<in> dom (rc_heap s)" using rcu_invarD(2) [OF assms(1)] by blast
  have "rc_ptr s \<noteq> Some p" "\<not> retiring s p" using rcu_invarD(3,4) [OF assms(1)] w by blast+
  moreover have "\<not> guarded s r p"
    using rcu_invarD(1) [OF assms(1)] assms(2) by (auto simp: guarded_def dest: eq_key_imp_eq_value)
  ultimately show "rc_readers s r \<noteq> R_holding (Some p)" using rcu_invarD(8) [OF assms(1)] by blast
qed

lemma quiet_callbacks:
  assumes "rcu_invar s" "sections s = {}" "(p, ws) \<in> set (rc_pending s)"
  shows "ws = {}"
proof (rule ccontr)
  assume "ws \<noteq> {}"
  then obtain r where "guarded s r p" using assms(3) by (auto simp: guarded_def)
  with rcu_invarD(7) [OF assms(1)] assms(2) show False by (auto simp: sections_def)
qed

lemma pre_warm_invar: "rcu_invar s \<Longrightarrow> rc_readers s r = R_idle \<Longrightarrow> rcu_invar (pre_warm r s)"
  by (simp add: pre_warm_def guard_lock_invar guard_unlock_invar)

section \<open>Properties\<close>

text \<open>C30: in every interleaving of readers, writers and callbacks, an object a reader's guard holds has not
  been deleted and does not change while it is held; a callback deletes an object that is still
  there (never twice) and that no reader holds.\<close>

theorem rcu_reader_safe:
  assumes "rcu_reach initial s"
  shows "(rc_readers s r = R_holding (Some p) \<longrightarrow> p \<in> dom (rc_heap s)) \<and>
    (rc_readers s r = R_holding (Some p) \<and> rcu_step s s' \<and> rc_readers s' r = R_holding (Some p) \<longrightarrow> rc_heap s' p = rc_heap s p) \<and>
    ((p, {}) \<in> set (rc_pending s) \<longrightarrow> p \<in> dom (rc_heap s) \<and> rc_readers s r \<noteq> R_holding (Some p))"
proof -
  have inv: "rcu_invar s" using rcu_reach_invar [OF assms] .
  have "rc_heap s' p = rc_heap s p" if "rc_readers s r = R_holding (Some p)" "rcu_step s s'" "rc_readers s' r = R_holding (Some p)"
    using heap_stable [OF that(2) inv held_live [OF inv that(1)] held_live [OF rcu_step_invar [OF that(2) inv] that(3)]] .
  then show ?thesis using held_live [OF inv, of r p] callback_ready [OF inv, of p] by blast
qed

theorem rcu_reader_safe_witness:
  "\<exists>s. rcu_reach (Some (5::int)) s \<and> rc_readers s 0 = R_holding (Some 0) \<and> rc_ptr s = Some 1 \<and> rc_pending s = [(0, {0})] \<and>
    0 \<in> dom (rc_heap s)"
proof -
  let ?s0 = "rcu_new (Some (5::int))"
  let ?s1 = "guard_lock 0 ?s0" let ?s2 = "guard_load 0 ?s1" let ?s3 = "store_exchange 0 (Some 6) ?s2" let ?s4 = "store_call 0 0 ?s3"
  have "rcu_reach (Some 5) ?s1" by (rule rcu_reach.step [OF rcu_reach.init rcu_step.lock]) (simp_all add: rcu_new_def)
  then have "rcu_reach (Some 5) ?s2" by (rule rcu_reach.step [OF _ rcu_step.load]) (simp add: guard_lock_def)
  then have "rcu_reach (Some 5) ?s3" by (rule rcu_reach.step [OF _ rcu_step.exchange]) (simp_all add: guard_lock_def guard_load_def rcu_new_def)
  then have r: "rcu_reach (Some 5) ?s4"
    by (rule rcu_reach.step [OF _ rcu_step.call]) (simp add: guard_lock_def guard_load_def rcu_new_def store_exchange_def)
  have h: "rc_readers ?s4 0 = R_holding (Some 0)" "rc_ptr ?s4 = Some 1"
    by (simp_all add: guard_lock_def guard_load_def rcu_new_def store_exchange_def store_call_def)
  have "sections ?s3 = {0}" by (auto simp: sections_def in_section_def guard_lock_def guard_load_def rcu_new_def store_exchange_def)
  then have "rc_pending ?s4 = [(0, {0})]"
    by (simp add: store_call_def) (simp add: guard_lock_def guard_load_def rcu_new_def store_exchange_def)
  with rcu_reader_safe [OF r, of 0 0] r h show ?thesis by blast
qed

text \<open>C31: nothing is leaked: once no reader is inside a guard and no writer inside \<open>store\<close>, the objects that
  have not been deleted are the current one and those whose callbacks are all ready to run.\<close>

theorem rcu_no_leak:
  assumes "rcu_reach initial s" "sections s = {}" "\<forall>w. rc_writers s w = W_idle"
  shows "dom (rc_heap s) = set_option (rc_ptr s) \<union> fst ` set (rc_pending s) \<and> (\<forall>e \<in> set (rc_pending s). snd e = {})"
proof -
  have inv: "rcu_invar s" using rcu_reach_invar [OF assms(1)] .
  have "dom (rc_heap s) = set_option (rc_ptr s) \<union> waiting s"
    using rcu_invarD(2) [OF inv] assms(3) by (auto simp: retiring_def)
  moreover have "snd e = {}" if "e \<in> set (rc_pending s)" for e
    using quiet_callbacks [OF inv assms(2), of "fst e" "snd e"] that by simp
  ultimately show ?thesis by (simp add: waiting_def)
qed

theorem rcu_no_leak_witness: "dom (rc_heap (rcu_new (Some True))) = {0}"
proof -
  have "sections (rcu_new (Some True)) = {}" "\<forall>w. rc_writers (rcu_new (Some True)) w = W_idle"
    by (simp_all add: sections_def in_section_def rcu_new_def)
  from rcu_no_leak [OF rcu_reach.init this] show ?thesis by (simp add: rcu_new_def)
qed

text \<open>The destructor does not run the callbacks that are still pending: it can end with one registered.\<close>

theorem destroy_leaves_callbacks: "\<exists>s. rcu_reach (Some True) s \<and> \<not> rc_alive s \<and> rc_pending s = [(0, {})]"
proof -
  let ?s0 = "rcu_new (Some True)" let ?s1 = "store_exchange 0 None ?s0" let ?s2 = "store_call 0 0 ?s1" let ?s3 = "rcu_destroy ?s2"
  have "rcu_reach (Some True) ?s1" by (rule rcu_reach.step [OF rcu_reach.init rcu_step.exchange]) (simp_all add: rcu_new_def)
  then have "rcu_reach (Some True) ?s2" by (rule rcu_reach.step [OF _ rcu_step.call]) (simp add: rcu_new_def store_exchange_def)
  then have r: "rcu_reach (Some True) ?s3"
    by (rule rcu_reach.step [OF _ rcu_step.destroy])
      (simp_all add: rcu_new_def store_exchange_def store_call_def sections_def in_section_def)
  have "rc_pending ?s3 = [(0, {})]" "\<not> rc_alive ?s3"
    by (simp_all add: rcu_new_def store_exchange_def store_call_def rcu_destroy_def sections_def in_section_def)
  with r show ?thesis by blast
qed

end
