(* ===== verification/Floats.thy ===== *)
theory Floats
  imports Prelude
begin

text \<open>
  IEEE-754 binary floating point, as the C++ sources use it for \<open>float\<close> (binary32) and
  \<open>double\<close> (binary64): round to nearest, ties to even; one operation is one rounding.
\<close>

section \<open>Values\<close>

text \<open>
  A finite value is its exact rational; the negative zero is kept apart because it is
  observable in the bit pattern an OSC message carries. NaN payloads are not distinguished.
\<close>

datatype fp = Fin rat | NegZero | PInf | NInf | NaN

record fmt =
  prec :: nat
  emin :: int
  emax :: int

definition F32 :: fmt where
  "F32 = \<lparr>prec = 24, emin = -149, emax = 128\<rparr>"

definition F64 :: fmt where
  "F64 = \<lparr>prec = 53, emin = -1074, emax = 1024\<rparr>"

fun fin_val :: "fp \<Rightarrow> rat option" where
  "fin_val (Fin r) = Some r"
| "fin_val NegZero = Some 0"
| "fin_val _ = None"

fun sign_bit :: "fp \<Rightarrow> bool" where
  "sign_bit (Fin r) = (r < 0)"
| "sign_bit NegZero = True"
| "sign_bit NInf = True"
| "sign_bit _ = False"

section \<open>Rounding\<close>

text \<open>The binary exponent of a magnitude: the least \<open>k \<ge> lo\<close> with \<open>a < 2 powi k\<close>.\<close>

function exp_up :: "rat \<Rightarrow> int \<Rightarrow> int" where
  "exp_up a k = (if a < 2 powi k then k else exp_up a (k + 1))"
  by pat_completeness auto
termination
proof (relation "measure (\<lambda>(a, k). nat (\<lceil>a\<rceil> - k))", goal_cases)
  case 1 show ?case by simp
next
  case (2 a k)
  have "of_int k < a" using 2 of_int_less_two_powi [of k] by simp
  then have "k < \<lceil>a\<rceil>" by (simp add: less_ceiling_iff)
  then show ?case by simp
qed

function exp_down :: "int \<Rightarrow> rat \<Rightarrow> int \<Rightarrow> int" where
  "exp_down lo a k = (if lo < k \<and> a < 2 powi (k - 1) then exp_down lo a (k - 1) else k)"
  by pat_completeness auto
termination by (relation "measure (\<lambda>(lo, a, k). nat (k - lo))") auto

declare exp_up.simps [simp del] exp_down.simps [simp del]

definition binexp :: "int \<Rightarrow> rat \<Rightarrow> int" where
  "binexp lo a = (if a < 1 then exp_down lo a 0 else exp_up a 1)"

definition rne :: "rat \<Rightarrow> int" where
  "rne x = (let f = \<lfloor>x\<rfloor>; d = x - of_int f in
     if d < 1/2 then f else if 1/2 < d then f + 1 else if even f then f else f + 1)"

definition ulp_exp :: "fmt \<Rightarrow> rat \<Rightarrow> int" where
  "ulp_exp f x = binexp (emin f + int (prec f)) \<bar>x\<bar> - int (prec f)"

definition rnd_val :: "fmt \<Rightarrow> rat \<Rightarrow> rat" where
  "rnd_val f x = of_int (rne (x / 2 powi ulp_exp f x)) * 2 powi ulp_exp f x"

definition mk_fin :: "bool \<Rightarrow> rat \<Rightarrow> fp" where
  "mk_fin neg r = (if r = 0 \<and> neg then NegZero else Fin r)"

text \<open>Round an exact result; \<open>neg\<close> is the sign a zero result takes.\<close>

definition rnd :: "fmt \<Rightarrow> bool \<Rightarrow> rat \<Rightarrow> fp" where
  "rnd f neg x = (let r = rnd_val f x in
     if 2 powi emax f \<le> r then PInf else if r \<le> - (2 powi emax f) then NInf else mk_fin neg r)"

section \<open>Operations\<close>

fun fneg :: "fp \<Rightarrow> fp" where
  "fneg (Fin r) = mk_fin True (- r)"
| "fneg NegZero = Fin 0"
| "fneg PInf = NInf"
| "fneg NInf = PInf"
| "fneg NaN = NaN"

fun f_abs :: "fp \<Rightarrow> fp" where
  "f_abs (Fin r) = Fin \<bar>r\<bar>"
| "f_abs NegZero = Fin 0"
| "f_abs PInf = PInf"
| "f_abs NInf = PInf"
| "f_abs NaN = NaN"

definition f_inf :: "bool \<Rightarrow> fp" where
  "f_inf neg = (if neg then NInf else PInf)"

definition f_zero :: "bool \<Rightarrow> fp" where
  "f_zero neg = (if neg then NegZero else Fin 0)"

definition fadd :: "fmt \<Rightarrow> fp \<Rightarrow> fp \<Rightarrow> fp" where
  "fadd f a b = (case (fin_val a, fin_val b) of
     (Some x, Some y) \<Rightarrow>
       if x + y = 0 then f_zero (sign_bit a \<and> sign_bit b) else rnd f (x + y < 0) (x + y)
   | (Some x, None) \<Rightarrow> b
   | (None, Some y) \<Rightarrow> a
   | (None, None) \<Rightarrow> if a = b then a else NaN)"

definition fsub :: "fmt \<Rightarrow> fp \<Rightarrow> fp \<Rightarrow> fp" where
  "fsub f a b = fadd f a (fneg b)"

definition fmul :: "fmt \<Rightarrow> fp \<Rightarrow> fp \<Rightarrow> fp" where
  "fmul f a b = (let neg = (sign_bit a \<noteq> sign_bit b) in
     case (fin_val a, fin_val b) of
     (Some x, Some y) \<Rightarrow> rnd f neg (x * y)
   | (Some x, None) \<Rightarrow> if b = NaN \<or> x = 0 then NaN else f_inf neg
   | (None, Some y) \<Rightarrow> if a = NaN \<or> y = 0 then NaN else f_inf neg
   | (None, None) \<Rightarrow> if a = NaN \<or> b = NaN then NaN else f_inf neg)"

definition fdiv :: "fmt \<Rightarrow> fp \<Rightarrow> fp \<Rightarrow> fp" where
  "fdiv f a b = (let neg = (sign_bit a \<noteq> sign_bit b) in
     case (fin_val a, fin_val b) of
     (Some x, Some y) \<Rightarrow>
       if y = 0 then (if x = 0 then NaN else f_inf neg) else rnd f neg (x / y)
   | (Some x, None) \<Rightarrow> if b = NaN then NaN else f_zero neg
   | (None, Some y) \<Rightarrow> if a = NaN then NaN else f_inf neg
   | (None, None) \<Rightarrow> NaN)"

text \<open>Comparisons: every comparison with NaN is false, the two zeros are equal.\<close>

fun f_key :: "fp \<Rightarrow> int \<times> rat" where
  "f_key (Fin r) = (0, r)"
| "f_key NegZero = (0, 0)"
| "f_key PInf = (1, 0)"
| "f_key NInf = (-1, 0)"
| "f_key NaN = (0, 0)"

definition flt :: "fp \<Rightarrow> fp \<Rightarrow> bool" where
  "flt a b = (a \<noteq> NaN \<and> b \<noteq> NaN \<and>
     (fst (f_key a) < fst (f_key b) \<or> fst (f_key a) = fst (f_key b) \<and> snd (f_key a) < snd (f_key b)))"

definition feq :: "fp \<Rightarrow> fp \<Rightarrow> bool" where
  "feq a b = (a \<noteq> NaN \<and> b \<noteq> NaN \<and> f_key a = f_key b)"

definition fle :: "fp \<Rightarrow> fp \<Rightarrow> bool" where
  "fle a b = (flt a b \<or> feq a b)"

text \<open>\<open>std::min\<close>, \<open>std::max\<close> and \<open>std::clamp\<close>, which compare once or twice and return an operand.\<close>

definition fmin :: "fp \<Rightarrow> fp \<Rightarrow> fp" where
  "fmin a b = (if flt b a then b else a)"

definition fmax :: "fp \<Rightarrow> fp \<Rightarrow> fp" where
  "fmax a b = (if flt a b then b else a)"

definition fclamp :: "fp \<Rightarrow> fp \<Rightarrow> fp \<Rightarrow> fp" where
  "fclamp v lo hi = (if flt v lo then lo else if flt hi v then hi else v)"

text \<open>Conversions; a conversion to an integer outside its range is undefined behaviour, \<open>None\<close>.\<close>

definition of_int_fp :: "fmt \<Rightarrow> int \<Rightarrow> fp" where
  "of_int_fp f n = rnd f False (of_int n)"

definition lit :: "fmt \<Rightarrow> rat \<Rightarrow> fp" where
  "lit f r = rnd f False r"

fun to_float :: "fp \<Rightarrow> fp" where
  "to_float (Fin r) = rnd F32 (r < 0) r"
| "to_float x = x"

fun trunc_fp :: "rat \<Rightarrow> int" where
  "trunc_fp r = (if 0 \<le> r then \<lfloor>r\<rfloor> else \<lceil>r\<rceil>)"

definition to_int :: "int \<Rightarrow> int \<Rightarrow> fp \<Rightarrow> int option" where
  "to_int lo hi x = (case fin_val x of
     None \<Rightarrow> None
   | Some r \<Rightarrow> if lo \<le> trunc_fp r \<and> trunc_fp r \<le> hi then Some (trunc_fp r) else None)"

abbreviation to_int32 :: "fp \<Rightarrow> int option" where
  "to_int32 \<equiv> to_int (- (2 ^ 31)) (2 ^ 31 - 1)"

text \<open>\<open>std::floor\<close>, \<open>std::round\<close> (halves away from zero) and \<open>std::fmod\<close>, all exact.\<close>

fun f_floor :: "fp \<Rightarrow> fp" where
  "f_floor (Fin r) = Fin (of_int \<lfloor>r\<rfloor>)"
| "f_floor x = x"

fun f_round :: "fp \<Rightarrow> fp" where
  "f_round (Fin r) = (if r < 0 then mk_fin True (- of_int \<lfloor>- r + 1/2\<rfloor>) else Fin (of_int \<lfloor>r + 1/2\<rfloor>))"
| "f_round x = x"

definition f_mod :: "fp \<Rightarrow> fp \<Rightarrow> fp" where
  "f_mod a b = (case (fin_val a, fin_val b) of
     (Some x, Some y) \<Rightarrow>
       if y = 0 then NaN else mk_fin (sign_bit a) (x - of_int (trunc_fp (x / y)) * y)
   | (Some x, None) \<Rightarrow> if b = NaN then NaN else a
   | (None, _) \<Rightarrow> NaN)"


section \<open>Exponents and integers\<close>

lemma exp_up_spec:
  "k \<le> exp_up a k \<and> a < 2 powi exp_up a k \<and> (exp_up a k = k \<or> 2 powi (exp_up a k - 1) \<le> a)"
proof (induction a k rule: exp_up.induct)
  case (1 a k)
  show ?case
  proof (cases "a < 2 powi k")
    case True
    then show ?thesis by (simp add: exp_up.simps [of a k])
  next
    case False
    then have eq: "exp_up a k = exp_up a (k + 1)" by (simp add: exp_up.simps [of a k])
    show ?thesis using "1.IH" [OF False] False unfolding eq by auto
  qed
qed

lemma exp_down_spec:
  "lo \<le> k \<Longrightarrow> a < 2 powi k \<Longrightarrow>
   lo \<le> exp_down lo a k \<and> a < 2 powi exp_down lo a k \<and>
   (exp_down lo a k = lo \<or> 2 powi (exp_down lo a k - 1) \<le> a)"
proof (induction lo a k rule: exp_down.induct)
  case (1 lo a k)
  show ?case
  proof (cases "lo < k \<and> a < 2 powi (k - 1)")
    case True
    then have eq: "exp_down lo a k = exp_down lo a (k - 1)" by (simp add: exp_down.simps [of lo a k])
    show ?thesis using "1.IH" [OF True] True unfolding eq by auto
  next
    case False
    with "1.prems" show ?thesis by (auto simp: exp_down.simps [of lo a k])
  qed
qed

lemma binexp_spec:
  "lo \<le> 0 \<Longrightarrow> lo \<le> binexp lo a \<and> a < 2 powi binexp lo a \<and>
   (binexp lo a = lo \<or> 2 powi (binexp lo a - 1) \<le> a)"
proof (cases "a < 1")
  case True
  then show "lo \<le> 0 \<Longrightarrow> ?thesis" using exp_down_spec [of lo 0 a] by (simp add: binexp_def)
next
  case False
  then have "2 powi (exp_up a 1 - 1) \<le> a" using exp_up_spec [of 1 a] by auto
  with False show "lo \<le> 0 \<Longrightarrow> ?thesis" using exp_up_spec [of 1 a] by (auto simp: binexp_def)
qed

lemma rne_bounds: "\<lfloor>x\<rfloor> \<le> rne x \<and> rne x \<le> \<lfloor>x\<rfloor> + 1"
  by (simp add: rne_def Let_def)

lemma rne_of_int [simp]: "rne (of_int n) = n"
  by (simp add: rne_def)

lemma rne_error: "\<bar>of_int (rne x) - x\<bar> \<le> 1/2"
proof -
  define n where "n = \<lfloor>x\<rfloor>"
  have "of_int n \<le> x" "x < of_int n + 1" unfolding n_def by linarith+
  then show ?thesis unfolding rne_def Let_def abs_le_iff n_def [symmetric] by auto
qed

lemma rne_mono: "x \<le> y \<Longrightarrow> rne x \<le> rne y"
proof (cases "\<lfloor>x\<rfloor> = \<lfloor>y\<rfloor>")
  case True
  then show "x \<le> y \<Longrightarrow> ?thesis" by (auto simp: rne_def Let_def)
next
  case False
  moreover assume "x \<le> y"
  ultimately have "\<lfloor>x\<rfloor> + 1 \<le> \<lfloor>y\<rfloor>" using floor_mono [of x y] by simp
  then show ?thesis using rne_bounds [of x] rne_bounds [of y] by linarith
qed

lemma rne_le_int: "x \<le> of_int n \<Longrightarrow> rne x \<le> n"
  using rne_mono [of x "of_int n"] by simp

lemma rne_ge_int: "of_int n \<le> x \<Longrightarrow> n \<le> rne x"
  using rne_mono [of "of_int n" x] by simp

section \<open>Representable values and the rounding function\<close>

definition fmt_ok :: "fmt \<Rightarrow> bool" where
  "fmt_ok f = (1 \<le> prec f \<and> emin f + int (prec f) \<le> 0 \<and> 0 < emax f)"

definition rep :: "fmt \<Rightarrow> rat \<Rightarrow> bool" where
  "rep f g = (\<exists>m e. g = of_int m * 2 powi e \<and> emin f \<le> e \<and> \<bar>m\<bar> < 2 ^ prec f)"

lemma fmt_ok_F32 [simp]: "fmt_ok F32" and fmt_ok_F64 [simp]: "fmt_ok F64"
  by (simp_all add: fmt_ok_def F32_def F64_def)

lemma ulp_exp_spec:
  assumes "fmt_ok f"
  shows "emin f \<le> ulp_exp f x" and "\<bar>x\<bar> < 2 powi (ulp_exp f x + int (prec f))"
    and "ulp_exp f x = emin f \<or> 2 powi (ulp_exp f x + int (prec f) - 1) \<le> \<bar>x\<bar>"
  using assms binexp_spec [of "emin f + int (prec f)" "\<bar>x\<bar>"]
  by (auto simp: fmt_ok_def ulp_exp_def)

lemma rep_two_powi: "fmt_ok f \<Longrightarrow> emin f \<le> e \<Longrightarrow> rep f (2 powi e)"
  unfolding rep_def fmt_ok_def
  by (rule exI [of _ 1], rule exI [of _ e]) (auto intro: one_less_power)

lemma rep_uminus: "rep f g \<Longrightarrow> rep f (- g)"
  unfolding rep_def by (metis abs_minus_cancel mult_minus_left of_int_minus)

lemma rep_0 [simp]: "fmt_ok f \<Longrightarrow> rep f 0"
  unfolding rep_def by (rule exI [of _ 0], rule exI [of _ "emin f"]) simp

lemma rne_uminus: "rne (- x) = - rne x"
proof (cases "x = of_int \<lfloor>x\<rfloor>")
  case True
  then show ?thesis using rne_of_int [of "\<lfloor>x\<rfloor>"] rne_of_int [of "- \<lfloor>x\<rfloor>"] by simp
next
  case False
  then have fl: "\<lfloor>- x\<rfloor> = - \<lfloor>x\<rfloor> - 1"
    by (metis ceiling_altdef ceiling_def minus_diff_eq minus_minus uminus_add_conv_diff diff_conv_add_uminus)
  show ?thesis unfolding rne_def Let_def fl by (auto simp: field_simps)
qed

lemma rnd_val_uminus: "rnd_val f (- x) = - rnd_val f x"
  by (simp add: rnd_val_def ulp_exp_def rne_uminus)

text \<open>A multiple of the unit in the last place of \<open>x\<close> bounds the rounded value as it bounds \<open>x\<close>.\<close>

lemma rnd_val_le_multiple:
  "x \<le> of_int k * 2 powi ulp_exp f x \<Longrightarrow> rnd_val f x \<le> of_int k * 2 powi ulp_exp f x"
proof -
  assume "x \<le> of_int k * 2 powi ulp_exp f x"
  then have "x / 2 powi ulp_exp f x \<le> of_int k" by (simp add: pos_divide_le_eq)
  then have "rne (x / 2 powi ulp_exp f x) \<le> k" by (rule rne_le_int)
  then show ?thesis by (simp add: rnd_val_def)
qed

lemma two_powi_multiple:
  "e \<le> e' \<Longrightarrow> \<exists>k. of_int m * (2::rat) powi e' = of_int k * 2 powi e"
proof -
  assume "e \<le> e'"
  then have "(2::rat) powi e' = 2 ^ nat (e' - e) * 2 powi e"
    by (simp flip: power_int_add power_int_of_nat)
  then have "of_int m * (2::rat) powi e' = of_int (m * 2 ^ nat (e' - e)) * 2 powi e" by simp
  then show ?thesis by blast
qed

lemma rnd_val_le:
  assumes f: "fmt_ok f" and g: "rep f g" and le: "x \<le> g"
  shows "rnd_val f x \<le> g"
proof -
  let ?e = "ulp_exp f x" and ?p = "int (prec f)"
  obtain m e where m: "g = of_int m * 2 powi e" "emin f \<le> e" "\<bar>m\<bar> < 2 ^ prec f"
    using g by (auto simp: rep_def)
  show ?thesis
  proof (cases "?e \<le> e")
    case True
    then obtain k where "g = of_int k * 2 powi ?e" using two_powi_multiple m(1) by metis
    with le show ?thesis using rnd_val_le_multiple by simp
  next
    case False
    have "\<bar>g\<bar> < 2 ^ prec f * 2 powi e"
      using m(3) by (simp add: m(1) abs_mult flip: of_int_abs)
    also have "\<dots> = 2 powi (?p + e)" by (simp add: power_int_add)
    also have "\<dots> \<le> 2 powi (?e + ?p - 1)" using False by (intro power_int_increasing) auto
    finally have gb: "\<bar>g\<bar> < 2 powi (?e + ?p - 1)" .
    have "2 powi (?e + ?p - 1) \<le> \<bar>x\<bar>" using ulp_exp_spec(3) [OF f, of x] False m(2) by auto
    with gb le have x: "x \<le> - (2 powi (?e + ?p - 1))" by linarith
    obtain k where k: "of_int (- 1) * (2::rat) powi (?e + ?p - 1) = of_int k * 2 powi ?e"
      using two_powi_multiple [of ?e "?e + ?p - 1" "-1"] f by (auto simp: fmt_ok_def)
    then have "rnd_val f x \<le> of_int k * 2 powi ?e" using x by (intro rnd_val_le_multiple) simp
    with k gb show ?thesis by simp
  qed
qed

lemma rnd_val_ge: "fmt_ok f \<Longrightarrow> rep f g \<Longrightarrow> g \<le> x \<Longrightarrow> g \<le> rnd_val f x"
  using rnd_val_le [of f "- g" "- x"] rep_uminus by (simp add: rnd_val_uminus)

lemma rnd_val_id: "fmt_ok f \<Longrightarrow> rep f g \<Longrightarrow> rnd_val f g = g"
  by (simp add: rnd_val_le rnd_val_ge antisym)

lemma rnd_val_error: "fmt_ok f \<Longrightarrow> \<bar>rnd_val f x - x\<bar> \<le> 2 powi (ulp_exp f x - 1)"
proof -
  let ?u = "(2::rat) powi ulp_exp f x"
  have "\<bar>of_int (rne (x / ?u)) - x / ?u\<bar> * ?u \<le> 1/2 * ?u"
    by (rule mult_right_mono [OF rne_error]) simp
  moreover have "\<bar>of_int (rne (x / ?u)) - x / ?u\<bar> * ?u = \<bar>rnd_val f x - x\<bar>"
    by (simp add: rnd_val_def abs_mult_pos left_diff_distrib)
  ultimately show ?thesis by (simp add: power_int_diff)
qed

lemma rep_rnd_val: "fmt_ok f \<Longrightarrow> rep f (rnd_val f x)"
proof -
  assume f: "fmt_ok f"
  let ?u = "ulp_exp f x" and ?p = "prec f"
  let ?m = "rne (x / 2 powi ?u)"
  have "\<bar>x\<bar> < 2 ^ ?p * 2 powi ?u"
    using ulp_exp_spec(2) [OF f, of x] by (simp add: power_int_add mult.commute)
  then have hi: "x / 2 powi ?u \<le> of_int (2 ^ ?p)" and lo: "of_int (- (2 ^ ?p)) \<le> x / 2 powi ?u"
    by (auto simp: abs_less_iff pos_divide_le_eq pos_le_divide_eq)
  have m: "\<bar>?m\<bar> \<le> 2 ^ ?p" using rne_le_int [OF hi] rne_ge_int [OF lo] by simp
  show ?thesis
  proof (cases "\<bar>?m\<bar> = 2 ^ ?p")
    case False
    with m have "\<bar>?m\<bar> < 2 ^ ?p" by simp
    then show ?thesis using ulp_exp_spec(1) [OF f, of x] unfolding rep_def rnd_val_def by blast
  next
    case True
    then have "\<bar>rnd_val f x\<bar> = 2 powi (int ?p + ?u)"
      by (simp add: rnd_val_def abs_mult power_int_add flip: of_int_abs)
    moreover have "rep f (2 powi (int ?p + ?u))"
      using ulp_exp_spec(1) [OF f, of x] by (intro rep_two_powi f) simp
    ultimately show ?thesis using rep_uminus by (metis abs_if minus_minus)
  qed
qed

lemma rnd_val_mono_aux:
  assumes f: "fmt_ok f" and le: "x \<le> y" and lt: "ulp_exp f x < ulp_exp f y"
  shows "rnd_val f x \<le> rnd_val f y"
proof -
  let ?B = "2 powi (ulp_exp f x + int (prec f)) :: rat"
  have "ulp_exp f y \<noteq> emin f" using ulp_exp_spec(1) [OF f, of x] lt by simp
  then have "2 powi (ulp_exp f y + int (prec f) - 1) \<le> \<bar>y\<bar>" using ulp_exp_spec(3) [OF f, of y] by simp
  moreover have "?B \<le> 2 powi (ulp_exp f y + int (prec f) - 1)"
    using lt by (intro power_int_increasing) auto
  ultimately have "?B \<le> y" "x \<le> ?B" using ulp_exp_spec(2) [OF f, of x] le by linarith+
  moreover have "rep f ?B" using ulp_exp_spec(1) [OF f, of x] by (intro rep_two_powi f) simp
  ultimately show ?thesis using rnd_val_le rnd_val_ge f by (meson order_trans)
qed

theorem rnd_val_mono: "fmt_ok f \<Longrightarrow> x \<le> y \<Longrightarrow> rnd_val f x \<le> rnd_val f y"
proof (cases "ulp_exp f x" "ulp_exp f y" rule: linorder_cases)
  case equal
  assume "x \<le> y"
  then have "x / 2 powi ulp_exp f y \<le> y / 2 powi ulp_exp f y" by (simp add: divide_right_mono)
  then show ?thesis using rne_mono equal by (simp add: rnd_val_def mult_right_mono)
next
  case greater
  assume "fmt_ok f" "x \<le> y"
  with greater show ?thesis using rnd_val_mono_aux [of f "- y" "- x"]
    by (simp add: rnd_val_uminus) (simp add: ulp_exp_def)
qed (rule rnd_val_mono_aux)


section \<open>Ranges\<close>

text \<open>\<open>in_range lo hi x\<close>: \<open>x\<close> is finite (no NaN, no infinity) and lies between two rationals.\<close>

definition in_range :: "rat \<Rightarrow> rat \<Rightarrow> fp \<Rightarrow> bool" where
  "in_range lo hi x = (case fin_val x of None \<Rightarrow> False | Some r \<Rightarrow> lo \<le> r \<and> r \<le> hi)"

definition fin_rep :: "fmt \<Rightarrow> rat \<Rightarrow> bool" where
  "fin_rep f g = (rep f g \<and> \<bar>g\<bar> < 2 powi emax f)"

lemma in_range_iff: "in_range lo hi x \<longleftrightarrow> (\<exists>r. fin_val x = Some r \<and> lo \<le> r \<and> r \<le> hi)"
  by (cases "fin_val x") (auto simp: in_range_def)

lemma in_rangeE [elim]:
  assumes "in_range lo hi x" obtains r where "fin_val x = Some r" "lo \<le> r" "r \<le> hi"
  using assms by (auto simp: in_range_iff)

lemma in_range_mono: "in_range a b x \<Longrightarrow> lo \<le> a \<Longrightarrow> b \<le> hi \<Longrightarrow> in_range lo hi x"
  by (auto simp: in_range_iff)

lemma in_range_not_NaN: "in_range lo hi x \<Longrightarrow> x \<noteq> NaN"
  by (auto simp: in_range_iff)

lemma in_range_Fin [simp]: "in_range lo hi (Fin r) \<longleftrightarrow> lo \<le> r \<and> r \<le> hi"
  by (simp add: in_range_def)

lemma in_range_NegZero [simp]: "in_range lo hi NegZero \<longleftrightarrow> lo \<le> 0 \<and> 0 \<le> hi"
  by (simp add: in_range_def)

lemma fin_val_mk_fin [simp]: "fin_val (mk_fin neg r) = Some r"
  by (simp add: mk_fin_def)

lemma fin_val_f_zero [simp]: "fin_val (f_zero neg) = Some 0"
  by (simp add: f_zero_def)

lemma fin_val_fneg [simp]: "fin_val (fneg x) = map_option uminus (fin_val x)"
  by (cases x) auto

lemma fin_val_f_abs [simp]: "fin_val (f_abs x) = map_option abs (fin_val x)"
  by (cases x) auto

lemma fneg_NaN_iff [simp]: "fneg x = NaN \<longleftrightarrow> x = NaN"
  by (cases x) (auto simp: mk_fin_def)

lemma fin_val_rnd:
  assumes "fmt_ok f" "fin_rep f lo" "fin_rep f hi" "lo \<le> x" "x \<le> hi"
  shows "fin_val (rnd f neg x) = Some (rnd_val f x)" and "lo \<le> rnd_val f x" and "rnd_val f x \<le> hi"
proof -
  show lo: "lo \<le> rnd_val f x" and hi: "rnd_val f x \<le> hi"
    using assms rnd_val_ge rnd_val_le by (auto simp: fin_rep_def)
  have "- (2 powi emax f) < lo" "hi < 2 powi emax f" using assms by (auto simp: fin_rep_def abs_less_iff)
  with lo hi show "fin_val (rnd f neg x) = Some (rnd_val f x)" by (auto simp: rnd_def Let_def)
qed

lemma ulp_exp_eq:
  assumes "fmt_ok f" "2 powi (k - 1) \<le> \<bar>x\<bar>" "\<bar>x\<bar> < 2 powi k" "emin f + int (prec f) \<le> k"
  shows "ulp_exp f x = k - int (prec f)"
proof -
  let ?b = "binexp (emin f + int (prec f)) \<bar>x\<bar>"
  have b: "emin f + int (prec f) \<le> ?b" "\<bar>x\<bar> < 2 powi ?b" "?b = emin f + int (prec f) \<or> 2 powi (?b - 1) \<le> \<bar>x\<bar>"
    using binexp_spec [of "emin f + int (prec f)" "\<bar>x\<bar>"] assms(1) by (auto simp: fmt_ok_def)
  have mono: "(2::rat) powi i < 2 powi j \<Longrightarrow> i < j" for i j
    by (metis linorder_not_le power_int_increasing one_le_numeral)
  have "k - 1 < ?b" using mono assms(2) b(2) by fastforce
  moreover have "?b \<le> k" using b(3) assms(3,4) mono [of "?b - 1" k] by auto
  ultimately show ?thesis by (simp add: ulp_exp_def)
qed

lemma rne_near: "\<bar>x - of_int n\<bar> < 1/2 \<Longrightarrow> rne x = n"
proof -
  assume a: "\<bar>x - of_int n\<bar> < 1/2"
  have "\<bar>of_int (rne x) - of_int n :: rat\<bar> < 1" using a rne_error [of x] by linarith
  then have "\<bar>rne x - n\<bar> < 1" by (simp flip: of_int_diff of_int_abs)
  then show ?thesis by simp
qed

lemma rnd_val_near:
  assumes "g = of_int n * 2 powi ulp_exp f x" "\<bar>x - g\<bar> < 2 powi (ulp_exp f x - 1)"
  shows "rnd_val f x = g"
proof -
  let ?u = "2 powi ulp_exp f x :: rat"
  have u: "0 < ?u" by simp
  have h: "2 powi (ulp_exp f x - 1) = ?u / 2" by (simp add: power_int_diff)
  have "x / ?u - of_int n = (x - g) / ?u" using assms(1) u by (simp add: diff_divide_distrib)
  then have "\<bar>x / ?u - of_int n\<bar> = \<bar>x - g\<bar> / ?u" using u by simp
  also have "\<dots> < 1/2" using assms(2) h u by (simp add: divide_less_eq)
  finally show ?thesis using rne_near assms(1) by (simp add: rnd_val_def)
qed

text \<open>For evaluation: most results are far from the overflow threshold.\<close>

lemma rnd_code [code]:
  "rnd f neg x = (let r = rnd_val f x in
     if 16 \<le> emax f \<and> \<bar>r\<bar> < 65536 then mk_fin neg r
     else if 2 powi emax f \<le> r then PInf else if r \<le> - (2 powi emax f) then NInf else mk_fin neg r)"
proof -
  have "(65536::rat) \<le> 2 powi emax f" if "16 \<le> emax f"
    using power_int_increasing [OF that, of "2::rat"] by simp
  then show ?thesis by (auto simp: rnd_def Let_def)
qed

lemma in_range_rnd:
  "fmt_ok f \<Longrightarrow> fin_rep f lo \<Longrightarrow> fin_rep f hi \<Longrightarrow> lo \<le> x \<Longrightarrow> x \<le> hi \<Longrightarrow> in_range lo hi (rnd f neg x)"
  using fin_val_rnd [of f lo hi x] by (simp add: in_range_def)

lemma fin_val_rnd_id: "fmt_ok f \<Longrightarrow> fin_rep f r \<Longrightarrow> fin_val (rnd f neg r) = Some r"
  using fin_val_rnd(1) [of f r r r] rnd_val_id by (simp add: fin_rep_def)

lemma rnd_rep: "fmt_ok f \<Longrightarrow> fin_rep f r \<Longrightarrow> rnd f neg r = mk_fin neg r"
  by (auto simp: rnd_def rnd_val_id fin_rep_def Let_def abs_less_iff)

lemma fin_rep_uminus: "fin_rep f g \<Longrightarrow> fin_rep f (- g)"
  by (simp add: fin_rep_def rep_uminus)

lemma fin_rep_0 [simp]: "fmt_ok f \<Longrightarrow> fin_rep f 0"
  by (simp add: fin_rep_def)

lemma fin_rep_int:
  assumes "fmt_ok f" "emin f \<le> 0" "int (prec f) \<le> emax f" "\<bar>n\<bar> < 2 ^ prec f"
  shows "fin_rep f (of_int n)"
proof -
  have "rep f (of_int n)" unfolding rep_def using assms by (intro exI [of _ n] exI [of _ 0]) auto
  moreover have "\<bar>of_int n :: rat\<bar> < of_int (2 ^ prec f)" using assms(4) by linarith
  moreover have "of_int (2 ^ prec f) = (2 powi int (prec f) :: rat)" by simp
  moreover have "(2 powi int (prec f) :: rat) \<le> 2 powi emax f" using assms(3) by (intro power_int_increasing) auto
  ultimately show ?thesis by (simp add: fin_rep_def)
qed

lemma fin_rep_F32_int: "\<bar>n\<bar> < 2 ^ 24 \<Longrightarrow> fin_rep F32 (of_int n)"
  by (rule fin_rep_int) (simp_all add: F32_def fmt_ok_def)

lemma fin_rep_F32_numeral [simp]:
  "numeral n < (2 ^ 24 :: int) \<Longrightarrow> fin_rep F32 (numeral n)"
  "numeral n < (2 ^ 24 :: int) \<Longrightarrow> fin_rep F32 (- numeral n)"
  using fin_rep_F32_int [of "numeral n"] fin_rep_F32_int [of "- numeral n"] by simp_all

lemma fin_rep_F32_one [simp]: "fin_rep F32 1" "fin_rep F32 (- 1)"
  using fin_rep_F32_int [of 1] fin_rep_F32_int [of "- 1"] by simp_all

lemma fin_rep_F64_int: "\<bar>n\<bar> < 2 ^ 53 \<Longrightarrow> fin_rep F64 (of_int n)"
  by (rule fin_rep_int) (simp_all add: F64_def fmt_ok_def)

lemma fin_rep_F64_numeral [simp]: "numeral n < (2 ^ 53 :: int) \<Longrightarrow> fin_rep F64 (numeral n)"
  "numeral n < (2 ^ 53 :: int) \<Longrightarrow> fin_rep F64 (- numeral n)"
  using fin_rep_F64_int [of "numeral n"] fin_rep_F64_int [of "- numeral n"] by simp_all

lemma fin_rep_F64_one [simp]: "fin_rep F64 1"
  using fin_rep_F64_int [of 1] by simp

lemma fin_rep_F32_dyadic:
  assumes "\<bar>n\<bar> < 2 ^ 24" "k \<le> 149"
  shows "fin_rep F32 (of_int n / 2 ^ k)"
proof -
  have "rep F32 (of_int n / 2 ^ k)" unfolding rep_def using assms
    by (intro exI [of _ n] exI [of _ "- int k"]) (auto simp: F32_def power_int_minus divide_inverse)
  moreover have "\<bar>of_int n / 2 ^ k :: rat\<bar> \<le> \<bar>of_int n\<bar>"
    by (simp add: divide_le_eq mult_le_cancel_left1)
  moreover have "\<bar>of_int n :: rat\<bar> < 2 powi emax F32" using fin_rep_F32_int [OF assms(1)] by (simp add: fin_rep_def)
  ultimately show ?thesis by (simp add: fin_rep_def)
qed

lemma fin_rep_F32_half [simp]: "fin_rep F32 (1/2)" "fin_rep F32 (- (1/2))"
  using fin_rep_F32_dyadic [of 1 1] fin_rep_F32_dyadic [of "- 1" 1] by simp_all

lemma fin_rep_rnd_val: "fmt_ok f \<Longrightarrow> \<bar>rnd_val f x\<bar> < 2 powi emax f \<Longrightarrow> fin_rep f (rnd_val f x)"
  by (simp add: fin_rep_def rep_rnd_val)

subsection \<open>Ranges of the operations\<close>

lemma in_range_fneg: "in_range a b x \<Longrightarrow> in_range (- b) (- a) (fneg x)"
  by (auto simp: in_range_iff)

lemma in_range_fadd:
  assumes "fmt_ok f" "fin_rep f lo" "fin_rep f hi" "in_range a b x" "in_range c d y" "lo \<le> a + c" "b + d \<le> hi"
  shows "in_range lo hi (fadd f x y)"
proof -
  obtain r s where r: "fin_val x = Some r" "a \<le> r" "r \<le> b" and s: "fin_val y = Some s" "c \<le> s" "s \<le> d"
    using assms(4,5) by (auto simp: in_range_iff)
  have "lo \<le> r + s" "r + s \<le> hi" using r s assms(6,7) by linarith+
  then show ?thesis using r(1) s(1) in_range_rnd [OF assms(1-3)]
    by (cases "r + s = 0") (auto simp: fadd_def in_range_iff)
qed

lemma in_range_fsub:
  assumes "fmt_ok f" "fin_rep f lo" "fin_rep f hi" "in_range a b x" "in_range c d y" "lo \<le> a - d" "b - c \<le> hi"
  shows "in_range lo hi (fsub f x y)"
  unfolding fsub_def using assms
  by (intro in_range_fadd [OF assms(1-4) in_range_fneg [OF assms(5)]]) auto

lemma in_range_fmul:
  assumes "fmt_ok f" "fin_rep f lo" "fin_rep f hi" "in_range a b x" "in_range c d y"
    and "\<And>r s. a \<le> r \<Longrightarrow> r \<le> b \<Longrightarrow> c \<le> s \<Longrightarrow> s \<le> d \<Longrightarrow> lo \<le> r * s \<and> r * s \<le> hi"
  shows "in_range lo hi (fmul f x y)"
proof -
  obtain r s where r: "fin_val x = Some r" "a \<le> r" "r \<le> b" and s: "fin_val y = Some s" "c \<le> s" "s \<le> d"
    using assms(4,5) by (auto simp: in_range_iff)
  with assms(6) [of r s] show ?thesis using in_range_rnd [OF assms(1-3)]
    by (simp add: fmul_def Let_def)
qed

lemma in_range_fdiv:
  assumes "fmt_ok f" "fin_rep f lo" "fin_rep f hi" "in_range a b x" "in_range c d y" "0 < c"
    and "\<And>r s. a \<le> r \<Longrightarrow> r \<le> b \<Longrightarrow> c \<le> s \<Longrightarrow> s \<le> d \<Longrightarrow> lo \<le> r / s \<and> r / s \<le> hi"
  shows "in_range lo hi (fdiv f x y)"
proof -
  obtain r s where r: "fin_val x = Some r" "a \<le> r" "r \<le> b" and s: "fin_val y = Some s" "c \<le> s" "s \<le> d"
    using assms(4,5) by (auto simp: in_range_iff)
  moreover have "s \<noteq> 0" using s assms(6) by linarith
  ultimately show ?thesis using in_range_rnd [OF assms(1-3)] assms(7) [of r s]
    by (simp add: fdiv_def Let_def)
qed

text \<open>Scaling by a factor of the unit interval keeps a range that contains zero.\<close>

lemma mult_unit_range:
  fixes r s :: rat
  assumes "lo \<le> r" "r \<le> hi" "lo \<le> 0" "0 \<le> hi" "0 \<le> s" "s \<le> 1"
  shows "lo \<le> r * s \<and> r * s \<le> hi"
proof -
  have "r * s \<le> hi * 1" if "0 \<le> r" using assms that by (intro mult_mono) auto
  moreover have "r * s \<le> 0" if "r \<le> 0" using assms that by (simp add: mult_nonpos_nonneg)
  moreover have "lo * 1 \<le> r * s" if "r \<le> 0"
    using assms that by (metis mult_left_mono_neg order_trans mult.right_neutral)
  moreover have "0 \<le> r * s" if "0 \<le> r" using assms that by simp
  ultimately show ?thesis using assms(3,4) by linarith
qed

lemma in_range_fmul_unit:
  "fmt_ok f \<Longrightarrow> fin_rep f lo \<Longrightarrow> fin_rep f hi \<Longrightarrow> lo \<le> 0 \<Longrightarrow> 0 \<le> hi \<Longrightarrow>
   in_range lo hi x \<Longrightarrow> in_range 0 1 y \<Longrightarrow> in_range lo hi (fmul f x y)"
  by (rule in_range_fmul [of f lo hi lo hi x 0 1 y]) (auto intro: mult_unit_range [THEN conjunct1] mult_unit_range [THEN conjunct2])

section \<open>Comparisons\<close>

lemma flt_fin: "fin_val a = Some x \<Longrightarrow> fin_val b = Some y \<Longrightarrow> flt a b \<longleftrightarrow> x < y"
  by (cases a; cases b) (auto simp: flt_def)

lemma feq_fin: "fin_val a = Some x \<Longrightarrow> fin_val b = Some y \<Longrightarrow> feq a b \<longleftrightarrow> x = y"
  by (cases a; cases b) (auto simp: feq_def)

lemma fle_fin: "fin_val a = Some x \<Longrightarrow> fin_val b = Some y \<Longrightarrow> fle a b \<longleftrightarrow> x \<le> y"
  by (auto simp: fle_def flt_fin feq_fin)

lemma flt_NaN [simp]: "\<not> flt NaN x" "\<not> flt x NaN"
  by (simp_all add: flt_def)

lemma fle_NaN [simp]: "\<not> fle NaN x" "\<not> fle x NaN"
  by (simp_all add: fle_def feq_def)

lemma not_flt_iff_fle: "a \<noteq> NaN \<Longrightarrow> b \<noteq> NaN \<Longrightarrow> \<not> flt a b \<longleftrightarrow> fle b a"
  by (cases a; cases b) (auto simp: fle_def flt_def feq_def)

lemma fclamp_range:
  assumes "fin_val l = Some lo" "fin_val h = Some hi" "lo \<le> hi" "v \<noteq> NaN"
  shows "in_range lo hi (fclamp v l h)"
  using assms by (cases v; cases l; cases h) (auto simp: fclamp_def flt_def)

lemma fclamp_NaN [simp]: "fclamp NaN l h = NaN"
  by (simp add: fclamp_def)

lemma fclamp_id: "in_range lo hi v \<Longrightarrow> fin_val l = Some lo \<Longrightarrow> fin_val h = Some hi \<Longrightarrow> fclamp v l h = v"
  by (auto simp: fclamp_def flt_fin)

lemma fmax_range: "in_range a b x \<Longrightarrow> in_range c d y \<Longrightarrow> in_range (max a c) (max b d) (fmax x y)"
  by (auto simp: fmax_def flt_fin in_range_iff)

lemma fmin_range: "in_range a b x \<Longrightarrow> in_range c d y \<Longrightarrow> in_range (min a c) (min b d) (fmin x y)"
  by (auto simp: fmin_def flt_fin in_range_iff)

lemma fin_val_lit: "fmt_ok f \<Longrightarrow> fin_rep f r \<Longrightarrow> fin_val (lit f r) = Some r"
  by (simp add: lit_def fin_val_rnd_id)

lemma fin_val_of_int_fp: "fmt_ok f \<Longrightarrow> fin_rep f (of_int n) \<Longrightarrow> fin_val (of_int_fp f n) = Some (of_int n)"
  by (simp add: of_int_fp_def fin_val_rnd_id)

section \<open>Conversions to integers\<close>

lemma in_range_round:
  assumes "in_range (of_int a) (of_int b) x"
  shows "in_range (of_int a) (of_int b) (f_round x)"
proof -
  obtain r where r: "fin_val x = Some r" "of_int a \<le> r" "r \<le> of_int b" using assms by blast
  have "a \<le> \<lfloor>r + 1/2\<rfloor>" "\<lfloor>r + 1/2\<rfloor> \<le> b" "\<lfloor>- r + 1/2\<rfloor> \<le> - a" "- b \<le> \<lfloor>- r + 1/2\<rfloor>"
    using r(2,3) by (simp_all add: le_floor_iff floor_le_iff)
  then have f: "of_int a \<le> (of_int \<lfloor>r + 1/2\<rfloor> :: rat)" "(of_int \<lfloor>r + 1/2\<rfloor> :: rat) \<le> of_int b"
    "of_int a \<le> - (of_int \<lfloor>- r + 1/2\<rfloor> :: rat)" "- (of_int \<lfloor>- r + 1/2\<rfloor> :: rat) \<le> of_int b"
    using of_int_le_iff [where ?'a = rat, of "\<lfloor>- r + 1/2\<rfloor>" "- a"] of_int_le_iff [where ?'a = rat, of "- b" "\<lfloor>- r + 1/2\<rfloor>"]
    by (simp_all add: le_minus_iff minus_le_iff)
  show ?thesis
  proof (cases x)
    case (Fin s)
    then have "s = r" using r(1) by simp
    with f Fin show ?thesis by (auto simp: in_range_iff)
  qed (use r in auto)
qed

lemma to_int_range:
  assumes "in_range (of_int a) (of_int b) x" "lo \<le> a" "b \<le> hi"
  shows "\<exists>n. to_int lo hi x = Some n \<and> a \<le> n \<and> n \<le> b"
proof -
  obtain r where r: "fin_val x = Some r" "of_int a \<le> r" "r \<le> of_int b" using assms(1) by blast
  have "a \<le> trunc_fp r \<and> trunc_fp r \<le> b" using r(2,3) by (auto simp: le_floor_iff floor_le_iff le_ceiling_iff ceiling_le_iff)
  with r(1) assms(2,3) show ?thesis by (auto simp: to_int_def)
qed

end
