(* ===== verification/Libm.thy ===== *)
theory Libm
  imports Floats
begin

text \<open>
  The mathematical library: functions whose results the C++ standard does not fix to the last
  bit are parameters of the model, collected in one record; what a property needs of them is a
  named predicate. \<open>floor\<close>, \<open>round\<close>, \<open>fmod\<close> and \<open>abs\<close> are exact and defined in Floats.
\<close>

record libm =
  lm_sin :: "fp \<Rightarrow> fp"
  lm_cos :: "fp \<Rightarrow> fp"
  lm_exp :: "fp \<Rightarrow> fp"
  lm_log :: "fp \<Rightarrow> fp"
  lm_pow :: "fp \<Rightarrow> fp \<Rightarrow> fp"
  lm_lerp :: "fp \<Rightarrow> fp \<Rightarrow> fp \<Rightarrow> fp"
  lm_pow64 :: "fp \<Rightarrow> fp \<Rightarrow> fp"
  lm_log2_64 :: "fp \<Rightarrow> fp"

text \<open>The exponential of a non-positive argument lies between 0 and 1.\<close>

definition exp_ok :: "libm \<Rightarrow> bool" where
  "exp_ok m = (\<forall>x. x \<noteq> NaN \<longrightarrow> fle x (Fin 0) \<longrightarrow> in_range 0 1 (lm_exp m x))"

text \<open>Sine and cosine of a finite argument lie between -1 and 1.\<close>

definition trig_ok :: "libm \<Rightarrow> bool" where
  "trig_ok m = (\<forall>x. fin_val x \<noteq> None \<longrightarrow> in_range (- 1) 1 (lm_sin m x) \<and> in_range (- 1) 1 (lm_cos m x))"

text \<open>Powers with a base in the unit interval and a positive exponent stay in the unit interval.\<close>

definition pow_ok :: "libm \<Rightarrow> bool" where
  "pow_ok m = (\<forall>x y. in_range 0 1 x \<longrightarrow> in_range 0 3 y \<longrightarrow> in_range 0 1 (lm_pow m x y))"

text \<open>Powers of two between -6 and 5 stay between their end points.\<close>

definition pow2_ok :: "libm \<Rightarrow> bool" where
  "pow2_ok m = (\<forall>x. in_range (- 6) 5 x \<longrightarrow> in_range (1/64) 32 (lm_pow64 m (Fin 2) x))"

text \<open>The binary logarithm of a positive finite double is at most its exponent range.\<close>

definition log2_ok :: "libm \<Rightarrow> bool" where
  "log2_ok m = (\<forall>x r. fin_val x = Some r \<longrightarrow> 0 < r \<longrightarrow> in_range (- 1074) 1024 (lm_log2_64 m x))"

text \<open>A library that meets every predicate: constant functions in the required ranges.\<close>

definition libm_const :: libm where
  "libm_const = \<lparr>lm_sin = \<lambda>x. Fin 0, lm_cos = \<lambda>x. Fin 1, lm_exp = \<lambda>x. Fin (1/2), lm_log = \<lambda>x. Fin 0,
     lm_pow = \<lambda>x y. Fin 1, lm_lerp = \<lambda>a b t. a, lm_pow64 = \<lambda>x y. Fin 1, lm_log2_64 = \<lambda>x. Fin 0\<rparr>"

lemma libm_const_ok:
  "exp_ok libm_const" "trig_ok libm_const" "pow_ok libm_const" "pow2_ok libm_const" "log2_ok libm_const"
  by (simp_all add: libm_const_def exp_ok_def trig_ok_def pow_ok_def pow2_ok_def log2_ok_def)

end
