(* ===== verification/Modulator.thy ===== *)
theory Modulator
  imports Libm
begin

text \<open>
  What all modulators share (\<open>abstract_modulator.hpp\<close>): the output bundle, single-precision
  arithmetic, the linear congruential generator, and the contract of a modulator that stays in
  its range, with what follows for any sequence of ticks and parameter updates.
\<close>

section \<open>Outputs\<close>

definition kMaxOutputs :: nat where
  "kMaxOutputs = 16"

record modulator_output =
  o_cv :: fp
  o_aux :: fp
  o_gate :: bool
  o_gate2 :: bool
  o_state :: u32
  o_outputs :: "fp list"

definition output_new :: modulator_output where
  "output_new = \<lparr>o_cv = Fin 0, o_aux = Fin 0, o_gate = False, o_gate2 = False, o_state = 0,
     o_outputs = replicate kMaxOutputs (Fin 0)\<rparr>"

section \<open>Single precision\<close>

abbreviation sadd :: "fp \<Rightarrow> fp \<Rightarrow> fp" where "sadd \<equiv> fadd F32"
abbreviation ssub :: "fp \<Rightarrow> fp \<Rightarrow> fp" where "ssub \<equiv> fsub F32"
abbreviation smul :: "fp \<Rightarrow> fp \<Rightarrow> fp" where "smul \<equiv> fmul F32"
abbreviation sdiv :: "fp \<Rightarrow> fp \<Rightarrow> fp" where "sdiv \<equiv> fdiv F32"

definition kTwoPi :: fp where
  "kTwoPi = Fin (13176795 / 2097152)"

text \<open>\<open>std::clamp(value, lo, hi)\<close> with decimal bounds.\<close>

definition clampf :: "rat \<Rightarrow> rat \<Rightarrow> fp \<Rightarrow> fp" where
  "clampf lo hi v = fclamp v (lit F32 lo) (lit F32 hi)"

text \<open>\<open>std::clamp(static_cast<int>(std::round(value)), lo, hi)\<close>; undefined when the value does not fit.\<close>

definition clampi :: "int \<Rightarrow> int \<Rightarrow> fp \<Rightarrow> int option" where
  "clampi lo hi v = map_option (\<lambda>i. max lo (min hi i)) (to_int32 (f_round v))"

section \<open>Random numbers\<close>

definition lcg_next :: "u32 \<Rightarrow> u32" where
  "lcg_next s = s * 1664525 + 1013904223"

definition lcg_float :: "u32 \<Rightarrow> fp" where
  "lcg_float s = smul (of_int_fp F32 (uint (drop_bit 8 s))) (sdiv (Fin 1) (Fin 16777216))"

section \<open>Ranges\<close>

lemma fin_val_lit_small [simp]:
  "fin_val (lit F32 0) = Some 0" "fin_val (lit F32 1) = Some 1" "fin_val (lit F32 (- 1)) = Some (- 1)"
  by (simp_all add: fin_val_lit)

lemma clampf_range:
  "fin_val (lit F32 lo) = Some a \<Longrightarrow> fin_val (lit F32 hi) = Some b \<Longrightarrow> a \<le> b \<Longrightarrow> v \<noteq> NaN \<Longrightarrow> in_range a b (clampf lo hi v)"
  unfolding clampf_def by (rule fclamp_range)

lemma clampf_unit [simp]: "v \<noteq> NaN \<Longrightarrow> in_range 0 1 (clampf 0 1 v)"
  by (rule clampf_range) simp_all

lemma clampf_bipolar [simp]: "v \<noteq> NaN \<Longrightarrow> in_range (- 1) 1 (clampf (- 1) 1 v)"
  by (rule clampf_range) simp_all

lemma clampi_range: "clampi lo hi v = Some i \<Longrightarrow> lo \<le> hi \<Longrightarrow> lo \<le> i \<and> i \<le> hi"
  by (auto simp: clampi_def)

lemma uint_drop_8: "uint (drop_bit 8 (s::u32)) < 2 ^ 24" "0 \<le> uint (drop_bit 8 (s::u32))"
proof -
  have "take_bit 32 (uint s) = uint s" using uint_lt2p [of s] by (intro take_bit_int_eq_self) simp_all
  then have "uint (drop_bit 8 s) = uint s div 2 ^ 8" unfolding unsigned_drop_bit_eq by (simp add: drop_bit_eq_div)
  moreover have "uint s < 2 ^ 32" using uint_lt2p [of s] by simp
  ultimately show "uint (drop_bit 8 s) < 2 ^ 24" by simp
qed simp

lemma lcg_float_range: "in_range 0 1 (lcg_float s)"
proof -
  define n where "n = uint (drop_bit 8 s)"
  have n: "0 \<le> n" "n < 2 ^ 24" using uint_drop_8 [of s] by (simp_all add: n_def)
  then have "fin_val (of_int_fp F32 n) = Some (of_int n)" by (intro fin_val_of_int_fp fin_rep_F32_int) simp_all
  then have a: "in_range 0 16777216 (of_int_fp F32 n)" using n by (simp add: in_range_def)
  have c: "sdiv (Fin 1) (Fin 16777216) = Fin (1/16777216)" by code_simp
  have "0 \<le> r * t \<and> r * t \<le> 1" if "0 \<le> r" "r \<le> 16777216" "1/16777216 \<le> t" "t \<le> (1/16777216 :: rat)" for r t
  proof -
    have t: "t = 1/16777216" using that(3,4) by (rule antisym [rotated])
    show ?thesis using that(1,2) unfolding t by simp
  qed
  then show ?thesis unfolding lcg_float_def c n_def [symmetric]
    by (intro in_range_fmul [OF _ _ _ a, where c = "1/16777216" and d = "1/16777216"]) simp_all
qed

text \<open>Multiplying a bounded value by a depth between 0 and 1.\<close>

lemma depth_range: "in_range (- 1) 1 x \<Longrightarrow> in_range 0 1 d \<Longrightarrow> in_range (- 1) 1 (smul x d)"
  by (rule in_range_fmul_unit) simp_all

lemma depth_range_unit: "in_range 0 1 x \<Longrightarrow> in_range 0 1 d \<Longrightarrow> in_range 0 1 (smul x d)"
  by (rule in_range_fmul_unit) simp_all

lemma depth_range': "in_range 0 1 d \<Longrightarrow> in_range (- 1) 1 x \<Longrightarrow> in_range (- 1) 1 (smul d x)"
proof (rule in_range_fmul [where a = 0 and b = 1 and c = "- 1" and d = 1])
  show "- 1 \<le> r * s \<and> r * s \<le> 1" if "0 \<le> r" "r \<le> 1" "- 1 \<le> s" "s \<le> 1" for r s :: rat
    using mult_unit_range [of "- 1" s 1 r] that by (simp add: mult.commute)
qed auto

lemma in_range_scale:
  assumes "in_range a b x" "0 \<le> k" "fin_rep F32 lo" "fin_rep F32 hi" "lo \<le> a * k" "b * k \<le> hi"
  shows "in_range lo hi (smul x (Fin k))"
proof -
  obtain r where r: "fin_val x = Some r" "a \<le> r" "r \<le> b" using assms(1) by blast
  have "a * k \<le> r * k" "r * k \<le> b * k" using r assms(2) by (simp_all add: mult_right_mono)
  then have "in_range lo hi (rnd F32 neg (r * k))" for neg using assms(3-6) by (intro in_range_rnd) simp_all
  then show ?thesis using r(1) by (simp add: fmul_def Let_def)
qed

lemma ratio_range:
  assumes "fin_val a = Some x" "fin_val b = Some y" "0 \<le> x" "x \<le> y" "0 < y"
  shows "in_range 0 1 (sdiv a b)"
proof -
  have "0 \<le> x / y" "x / y \<le> 1" using assms by simp_all
  then have "in_range 0 1 (rnd F32 neg (x / y))" for neg by (intro in_range_rnd) simp_all
  then show ?thesis using assms by (simp add: fdiv_def Let_def)
qed

text \<open>\<open>x * 2 - 1\<close> takes the unit interval to the bipolar one.\<close>

lemma bipolar_range: "in_range 0 1 x \<Longrightarrow> in_range (- 1) 1 (ssub (smul x (Fin 2)) (Fin 1))"
proof -
  assume "in_range 0 1 x"
  then have "in_range 0 2 (smul x (Fin 2))" by (intro in_range_fmul [where a = 0 and b = 1 and c = 2 and d = 2]) auto
  then show ?thesis by (intro in_range_fsub [where a = 0 and b = 2 and c = 1 and d = 1]) auto
qed

section \<open>One-pole filters\<close>

lemma fin_val_fadd:
  assumes "fin_val a = Some x" "fin_val b = Some y" "\<bar>x + y\<bar> \<le> 4"
  shows "fin_val (sadd a b) = Some (rnd_val F32 (x + y))"
proof (cases "x + y = 0")
  case True
  then show ?thesis using assms rnd_val_id [of F32 0] by (simp add: fadd_def)
next
  case False
  then show ?thesis using assms fin_val_rnd(1) [of F32 "- 4" 4 "x + y"] by (simp add: fadd_def abs_le_iff)
qed

lemma fin_val_fsub:
  assumes "fin_val a = Some x" "fin_val b = Some y" "\<bar>x - y\<bar> \<le> 4"
  shows "fin_val (ssub a b) = Some (rnd_val F32 (x - y))"
  using fin_val_fadd [of a x "fneg b" "- y"] assms by (simp add: fsub_def)

lemma fin_val_fmul:
  assumes "fin_val a = Some x" "fin_val b = Some y" "\<bar>x * y\<bar> \<le> 4"
  shows "fin_val (smul a b) = Some (rnd_val F32 (x * y))"
  using assms fin_val_rnd(1) [of F32 "- 4" 4 "x * y"] by (simp add: fmul_def Let_def abs_le_iff)

lemma ulp_exp_le:
  assumes "fmt_ok f" "\<bar>x\<bar> < 2 powi k" "emin f + int (prec f) \<le> k"
  shows "ulp_exp f x \<le> k - int (prec f)"
proof -
  let ?b = "binexp (emin f + int (prec f)) \<bar>x\<bar>"
  have b: "?b = emin f + int (prec f) \<or> 2 powi (?b - 1) \<le> \<bar>x\<bar>"
    using binexp_spec [of "emin f + int (prec f)" "\<bar>x\<bar>"] assms(1) by (auto simp: fmt_ok_def)
  have mono: "(2::rat) powi i < 2 powi j \<Longrightarrow> i < j" for i j
    by (metis linorder_not_le power_int_increasing one_le_numeral)
  have "?b \<le> k" using b assms(2,3) mono [of "?b - 1" k] by auto
  then show ?thesis by (simp add: ulp_exp_def)
qed

lemma rnd_diff_error:
  assumes "\<bar>x\<bar> \<le> 2"
  shows "\<bar>rnd_val F32 x - x\<bar> \<le> 1/16777216"
proof (cases "\<bar>x\<bar> = 2")
  case True
  then have "x = 2 \<or> x = - 2" by auto
  moreover have "rep F32 2" "rep F32 (- 2)" using fin_rep_F32_int [of 2] fin_rep_F32_int [of "- 2"] by (simp_all add: fin_rep_def)
  ultimately show ?thesis using rnd_val_id [of F32] by auto
next
  case False
  then have "\<bar>x\<bar> < 2 powi 1" using assms by simp
  then have "ulp_exp F32 x \<le> - 23" using ulp_exp_le [of F32 x 1] by (simp add: F32_def fmt_ok_def)
  then have "(2::rat) powi (ulp_exp F32 x - 1) \<le> 2 powi (- 24)" by (intro power_int_increasing) auto
  then show ?thesis using rnd_val_error [of F32 x] by (simp add: power_int_minus)
qed

lemma rnd_just_above_one: "rnd_val F32 (1 + 1/16777216) = 1"
  by code_simp

lemma onepole_up:
  assumes "- 1 \<le> r" "r \<le> 1" "- 1 \<le> t" "t \<le> 1" "0 \<le> c" "c \<le> 1" "0 \<le> rnd_val F32 (t - r)"
  shows "- 1 \<le> rnd_val F32 (r + rnd_val F32 (rnd_val F32 (t - r) * c)) \<and>
    rnd_val F32 (r + rnd_val F32 (rnd_val F32 (t - r) * c)) \<le> 1"
proof -
  let ?d = "rnd_val F32 (t - r)" let ?p = "rnd_val F32 (?d * c)"
  have "?d * c \<le> ?d" using assms(5-7) by (simp add: mult_left_le)
  then have p: "0 \<le> ?p" "?p \<le> ?d"
    using rnd_val_ge [of F32 0 "?d * c"] rnd_val_le [of F32 ?d "?d * c"] assms(5,7) rep_rnd_val by simp_all
  have "\<bar>t - r\<bar> \<le> 2" using assms by (simp add: abs_le_iff)
  from rnd_diff_error [OF this] have "?d \<le> t - r + 1/16777216" by linarith
  then have "r + ?p \<le> 1 + 1/16777216" using p assms(4) by simp
  then have "rnd_val F32 (r + ?p) \<le> 1" using rnd_val_mono [of F32 "r + ?p" "1 + 1/16777216"] rnd_just_above_one by simp
  moreover have "- 1 \<le> rnd_val F32 (r + ?p)"
    using rnd_val_ge [of F32 "- 1" "r + ?p"] p assms(1) fin_rep_F32_one by (simp add: fin_rep_def)
  ultimately show ?thesis by simp
qed

lemma onepole_range:
  assumes "in_range (- 1) 1 cur" "in_range (- 1) 1 target" "in_range 0 1 c"
  shows "in_range (- 1) 1 (sadd cur (smul (ssub target cur) c))"
proof -
  obtain r t k where v: "fin_val cur = Some r" "- 1 \<le> r" "r \<le> 1" "fin_val target = Some t" "- 1 \<le> t" "t \<le> 1"
    "fin_val c = Some k" "0 \<le> k" "k \<le> 1" using assms by blast
  let ?d = "rnd_val F32 (t - r)" let ?p = "rnd_val F32 (?d * k)"
  have tr: "\<bar>t - r\<bar> \<le> 2" using v by (simp add: abs_le_iff)
  have d: "\<bar>?d\<bar> \<le> 2" using fin_val_rnd(2,3) [of F32 "- 2" 2 "t - r"] tr by (simp add: abs_le_iff)
  then have dk: "\<bar>?d * k\<bar> \<le> 2" using v(8,9) mult_mono [of "\<bar>?d\<bar>" 2 k 1] by (simp add: abs_mult)
  have p: "\<bar>?p\<bar> \<le> 2" using fin_val_rnd(2,3) [of F32 "- 2" 2 "?d * k"] dk by (simp add: abs_le_iff)
  have e: "fin_val (sadd cur (smul (ssub target cur) c)) = Some (rnd_val F32 (r + ?p))"
    using fin_val_fadd [OF v(1) fin_val_fmul [OF fin_val_fsub [OF v(4,1)] v(7)]] tr dk p v(2,3) by (simp add: abs_le_iff)
  have "- 1 \<le> rnd_val F32 (r + ?p) \<and> rnd_val F32 (r + ?p) \<le> 1"
  proof (cases "0 \<le> ?d")
    case True
    then show ?thesis using onepole_up [of r t k] v by blast
  next
    case False
    have m: "rnd_val F32 (- t - - r) = - ?d" using rnd_val_uminus [of F32 "t - r"] by simp
    have m2: "rnd_val F32 (- ?d * k) = - ?p" using rnd_val_uminus [of F32 "?d * k"] by simp
    have m3: "rnd_val F32 (- r + - ?p) = - rnd_val F32 (r + ?p)" using rnd_val_uminus [of F32 "r + ?p"] by simp
    from onepole_up [of "- r" "- t" k] v False show ?thesis unfolding m m2 m3 by simp
  qed
  then show ?thesis by (simp add: in_range_def e)
qed


definition nonneg :: "fp \<Rightarrow> bool" where
  "nonneg x = (x = PInf \<or> (\<exists>r\<ge>0. x = Fin r))"

lemma rnd_nonneg: "0 \<le> x \<Longrightarrow> nonneg (rnd F32 False x)"
proof -
  assume "0 \<le> x"
  then have "0 \<le> rnd_val F32 x" using rnd_val_ge [of F32 0 x] by simp
  moreover define P :: rat where "P = 2 powi emax F32"
  have "0 < P" by (simp add: P_def)
  ultimately show ?thesis unfolding rnd_def Let_def P_def [symmetric] by (auto simp: nonneg_def mk_fin_def)
qed

lemma rnd_nonpos: "x \<le> 0 \<Longrightarrow> rnd F32 neg x \<noteq> NaN \<and> fle (rnd F32 neg x) (Fin 0)"
proof -
  assume "x \<le> 0"
  then have "rnd_val F32 x \<le> 0" using rnd_val_le [of F32 0 x] by simp
  moreover define P :: rat where "P = 2 powi emax F32"
  have "0 < P" by (simp add: P_def)
  ultimately show ?thesis unfolding rnd_def Let_def P_def [symmetric] by (auto simp: mk_fin_def fle_def flt_def feq_def)
qed

lemma pos_product: "in_range a b t \<Longrightarrow> 0 < a \<Longrightarrow> flt (Fin 0) r \<Longrightarrow> nonneg (smul t r)"
proof -
  assume t: "in_range a b t" "0 < a" and r: "flt (Fin 0) r"
  then obtain x where x: "fin_val t = Some x" "0 < x" by (auto simp: in_range_iff)
  then have t: "t = Fin x" by (cases t) auto
  consider "r = PInf" | q where "0 < q" "r = Fin q" using r by (cases r) (auto simp: flt_def)
  then show ?thesis
  proof cases
    case 1
    then show ?thesis using t x(2) by (simp add: fmul_def nonneg_def f_inf_def)
  next
    case 2
    then have "smul t r = rnd F32 False (x * q)" using t x(2) by (simp add: fmul_def)
    then show ?thesis using rnd_nonneg [of "x * q"] 2(1) x(2) by simp
  qed
qed

lemma neg_over_nonneg:
  assumes "x < 0" "nonneg y"
  shows "sdiv (Fin x) y \<noteq> NaN \<and> fle (sdiv (Fin x) y) (Fin 0)"
proof (cases "y = PInf \<or> y = Fin 0")
  case True
  then show ?thesis using assms(1) by (auto simp: fdiv_def f_zero_def f_inf_def fle_def flt_def feq_def)
next
  case False
  then obtain r where r: "y = Fin r" "0 < r" using assms(2) by (auto simp: nonneg_def less_le)
  then have "sdiv (Fin x) y = rnd F32 True (x / r)" using assms(1) by (simp add: fdiv_def)
  then show ?thesis using rnd_nonpos [of "x / r" True] assms(1) r(2) by (simp add: divide_nonpos_pos)
qed

section \<open>Phase accumulators\<close>

text \<open>\<open>phase += inc; if (phase >= 1) phase -= 1\<close>\<close>

definition advance :: "fp \<Rightarrow> fp \<Rightarrow> fp" where
  "advance phase inc = (let ph = sadd phase inc in if fle (Fin 1) ph then ssub ph (Fin 1) else ph)"

lemma advance_range:
  assumes "in_range 0 1 phase" "in_range 0 1 inc"
  shows "in_range 0 1 (advance phase inc)"
proof -
  have s: "in_range 0 2 (sadd phase inc)" using assms by (intro in_range_fadd [where a = 0 and b = 1 and c = 0 and d = 1]) auto
  then obtain r where r: "fin_val (sadd phase inc) = Some r" "0 \<le> r" "r \<le> 2" by blast
  show ?thesis
  proof (cases "fle (Fin 1) (sadd phase inc)")
    case True
    then have "1 \<le> r" using r(1) by (simp add: fle_fin)
    with r have "in_range 1 2 (sadd phase inc)" by (simp add: in_range_def)
    then have "in_range 0 1 (ssub (sadd phase inc) (Fin 1))"
      by (intro in_range_fsub [where a = 1 and b = 2 and c = 1 and d = 1]) auto
    with True show ?thesis by (simp add: advance_def)
  next
    case False
    then have "r < 1" using r(1) by (simp add: fle_fin)
    with r False show ?thesis by (simp add: advance_def Let_def in_range_def)
  qed
qed

text \<open>The rates an LFO is driven with: not running, or at least the fastest rate its parameter allows.\<close>

definition lfo_rate_ok :: "rat \<Rightarrow> fp \<Rightarrow> bool" where
  "lfo_rate_ok fmx r = (r \<noteq> NaN \<and> (fle r (Fin 0) \<or> in_range fmx 1000000 r))"

lemma lfo_increment:
  assumes "in_range 0 fmx rate" "in_range fmx 1000000 r" "0 < fmx" "fin_rep F32 fmx"
  shows "in_range 0 1 (sdiv rate r)"
  by (rule in_range_fdiv [OF _ _ _ assms(1,2,3)]) (use assms in \<open>auto simp: divide_le_eq\<close>)

section \<open>The contract\<close>

datatype mod_cmd = Cmd_tick fp fp | Cmd_update string fp

type_synonym 's tick_fun = "fp \<Rightarrow> fp \<Rightarrow> 's \<Rightarrow> (modulator_output \<times> 's) option"
type_synonym 's update_fun = "string \<Rightarrow> fp \<Rightarrow> 's \<Rightarrow> 's option"

text \<open>A sequence of ticks and updates: the outputs, oldest first. \<open>None\<close> is undefined behaviour.\<close>

fun mod_run :: "'s tick_fun \<Rightarrow> 's update_fun \<Rightarrow> mod_cmd list \<Rightarrow> 's \<Rightarrow> (modulator_output list \<times> 's) option" where
  "mod_run tk up [] s = Some ([], s)"
| "mod_run tk up (Cmd_tick b r # cs) s = (case tk b r s of
     None \<Rightarrow> None
   | Some (out, s') \<Rightarrow> (case mod_run tk up cs s' of None \<Rightarrow> None | Some (outs, s'') \<Rightarrow> Some (out # outs, s'')))"
| "mod_run tk up (Cmd_update k v # cs) s = (case up k v s of None \<Rightarrow> None | Some s' \<Rightarrow> mod_run tk up cs s')"

text \<open>
  A modulator that keeps an invariant and a range: \<open>rok\<close> are the tick rates and \<open>vok\<close> the parameter
  values it is driven with. \<open>invar n s\<close>: from \<open>s\<close> at least \<open>n\<close> more steps are safe, which matters for
  the modulators that count in a machine integer.
\<close>

definition cmd_ok :: "(fp \<Rightarrow> bool) \<Rightarrow> (string \<Rightarrow> fp \<Rightarrow> bool) \<Rightarrow> mod_cmd \<Rightarrow> bool" where
  "cmd_ok rok vok c = (case c of Cmd_tick b r \<Rightarrow> rok r | Cmd_update k v \<Rightarrow> vok k v)"

locale bounded_modulator =
  fixes tk :: "'s tick_fun" and up :: "'s update_fun" and invar :: "nat \<Rightarrow> 's \<Rightarrow> bool"
    and rok :: "fp \<Rightarrow> bool" and vok :: "string \<Rightarrow> fp \<Rightarrow> bool" and lo hi :: rat
  assumes tick_ok: "invar (Suc n) s \<Longrightarrow> rok r \<Longrightarrow>
      \<exists>out s'. tk b r s = Some (out, s') \<and> invar n s' \<and> in_range lo hi (o_cv out)"
    and update_ok: "invar (Suc n) s \<Longrightarrow> vok k v \<Longrightarrow> \<exists>s'. up k v s = Some s' \<and> invar n s'"
begin

lemma run_bounded:
  "invar (length cs + n) s \<Longrightarrow> list_all (cmd_ok rok vok) cs \<Longrightarrow>
   \<exists>outs s'. mod_run tk up cs s = Some (outs, s') \<and> invar n s' \<and> list_all (\<lambda>out. in_range lo hi (o_cv out)) outs"
proof (induction cs arbitrary: s)
  case Nil
  then show ?case by simp
next
  case (Cons c cs)
  show ?case
  proof (cases c)
    case (Cmd_tick b r)
    with Cons.prems obtain out s1 where s1: "tk b r s = Some (out, s1)" "invar (length cs + n) s1" "in_range lo hi (o_cv out)"
      using tick_ok [of "length cs + n" s r b] by (auto simp: cmd_ok_def)
    from Cons.IH [OF s1(2)] Cons.prems(2) Cmd_tick s1 show ?thesis by auto
  next
    case (Cmd_update k v)
    with Cons.prems obtain s1 where s1: "up k v s = Some s1" "invar (length cs + n) s1"
      using update_ok [of "length cs + n" s k v] by (auto simp: cmd_ok_def)
    from Cons.IH [OF s1(2)] Cons.prems(2) Cmd_update s1 show ?thesis by auto
  qed
qed

end

end
