(* ===== verification/Mod_Basic.thy ===== *)
theory Mod_Basic
  imports Modulator
begin

text \<open>
  The function generators: \<open>slope_modulator.cpp\<close>, \<open>segment_modulator.cpp\<close> and
  \<open>slew_modulator.cpp\<close>.
\<close>

section \<open>Slope\<close>

record slope_modulator =
  sl_rate :: fp
  sl_shape :: fp
  sl_slope :: fp
  sl_smoothness :: fp
  sl_depth :: fp
  sl_bipolar :: bool
  sl_phase :: fp
  sl_smooth_state :: fp
  sl_last_output :: fp

definition slope_new :: slope_modulator where
  "slope_new = \<lparr>sl_rate = Fin 1, sl_shape = Fin 0, sl_slope = Fin 0, sl_smoothness = Fin 0, sl_depth = Fin 1,
     sl_bipolar = True, sl_phase = Fin 0, sl_smooth_state = Fin (1/2), sl_last_output = Fin 0\<rparr>"

definition slope_skew :: "fp \<Rightarrow> fp \<Rightarrow> fp" where
  "slope_skew slope phase =
     (let attack = clampf (1/100) (99/100) (sadd (Fin (1/2)) (smul slope (lit F32 (49/100)))) in
      if flt phase attack then smul (sdiv phase attack) (Fin (1/2))
      else sadd (Fin (1/2)) (smul (sdiv (ssub phase attack) (ssub (Fin 1) attack)) (Fin (1/2))))"

definition slope_wave :: "libm \<Rightarrow> fp \<Rightarrow> fp \<Rightarrow> fp" where
  "slope_wave lm shape p =
     (let tri = (if flt p (Fin (1/2)) then smul p (Fin 2) else smul (ssub (Fin 1) p) (Fin 2));
          sin_v = ssub (Fin (1/2)) (smul (Fin (1/2)) (lm_cos lm (smul kTwoPi p))) in
      if fle shape (Fin 0) then sadd tri (smul (sadd shape (Fin 1)) (ssub sin_v tri))
      else lm_pow lm (fmax sin_v (lit F32 (1/1000000))) (sadd (Fin 1) (smul shape (Fin 2))))"

definition slope_smooth :: "fp \<Rightarrow> fp \<Rightarrow> fp \<Rightarrow> fp \<times> fp" where
  "slope_smooth smoothness smooth_state output =
     (if flt smoothness (Fin 0) then
        let c = sadd (Fin 1) smoothness;
            st = sadd smooth_state (smul (smul c c) (ssub output smooth_state)) in (st, st)
      else if flt (Fin 0) smoothness then
        let x = f_mod (smul output (sadd (Fin 1) (smul smoothness (Fin 3)))) (Fin 2) in
        (if flt (Fin 1) x then ssub (Fin 2) x else x, smooth_state)
      else (output, smooth_state))"

definition slope_tick :: "libm \<Rightarrow> fp \<Rightarrow> fp \<Rightarrow> slope_modulator \<Rightarrow> (modulator_output \<times> slope_modulator) option" where
  "slope_tick lm beat tick_rate_hz s =
     (if fle tick_rate_hz (Fin 0) then Some (output_new\<lparr>o_cv := sl_last_output s\<rparr>, s)
      else
        let phase = advance (sl_phase s) (sdiv (sl_rate s) tick_rate_hz);
            wave = slope_wave lm (sl_shape s) (slope_skew (sl_slope s) phase) in
        case slope_smooth (sl_smoothness s) (sl_smooth_state s) wave of (output, st) \<Rightarrow>
          let out = (if sl_bipolar s then ssub (smul output (Fin 2)) (Fin 1) else output);
              last = smul out (sl_depth s) in
          Some (output_new\<lparr>o_cv := last\<rparr>, s\<lparr>sl_phase := phase, sl_smooth_state := st, sl_last_output := last\<rparr>))"

definition slope_update :: "string \<Rightarrow> fp \<Rightarrow> slope_modulator \<Rightarrow> slope_modulator option" where
  "slope_update key v s = Some (
     if key = ''rate'' then s\<lparr>sl_rate := clampf (1/1000) 100 v\<rparr>
     else if key = ''shape'' then s\<lparr>sl_shape := clampf (- 1) 1 v\<rparr>
     else if key = ''slope'' then s\<lparr>sl_slope := clampf (- 1) 1 v\<rparr>
     else if key = ''smoothness'' then s\<lparr>sl_smoothness := clampf (- 1) 1 v\<rparr>
     else if key = ''depth'' then s\<lparr>sl_depth := clampf 0 1 v\<rparr>
     else if key = ''bipolar'' then s\<lparr>sl_bipolar := fle (Fin (1/2)) v\<rparr>
     else s)"

section \<open>Segment\<close>

datatype seg_type = Seg_ramp | Seg_step | Seg_hold | Seg_alt

record segment_def =
  sd_kind :: seg_type
  sd_primary :: fp
  sd_secondary :: fp
  sd_loop :: bool

definition kMaxSegments :: nat where
  "kMaxSegments = 36"

record segment_modulator =
  sg_defs :: "segment_def list"
  sg_n_defs :: int
  sg_depth :: fp
  sg_rate :: fp
  sg_phase :: fp
  sg_cur_seg :: int
  sg_cycle_count :: int
  sg_start_val :: fp
  sg_cur_output :: fp

definition segment_default :: segment_def where
  "segment_default = \<lparr>sd_kind = Seg_ramp, sd_primary = Fin (1/2), sd_secondary = Fin (1/2), sd_loop = False\<rparr>"

text \<open>The array is fixed at 36; with no segments the constructor reads past the span: no value.\<close>

definition segment_new :: "segment_def list \<Rightarrow> segment_modulator option" where
  "segment_new segs =
     (if segs = [] then None
      else let n = min (length segs) kMaxSegments in
        Some \<lparr>sg_defs = take n segs @ replicate (kMaxSegments - n) segment_default, sg_n_defs = int n,
          sg_depth = Fin 1, sg_rate = Fin 1, sg_phase = Fin 0, sg_cur_seg = 0, sg_cycle_count = 0,
          sg_start_val = Fin 0, sg_cur_output = Fin 0\<rparr>)"

text \<open>C++ remainder by a positive divisor: the sign of the dividend.\<close>

definition c_rem :: "int \<Rightarrow> int \<Rightarrow> int" where
  "c_rem a n = (if 0 \<le> a then a mod n else - ((- a) mod n))"

definition segment_value :: "segment_def \<Rightarrow> fp \<Rightarrow> fp \<Rightarrow> int \<Rightarrow> fp" where
  "segment_value seg start local_p cycle =
     (case sd_kind seg of
        Seg_ramp \<Rightarrow> sadd start (smul local_p (ssub (sd_primary seg) start))
      | Seg_step \<Rightarrow> sd_primary seg
      | Seg_hold \<Rightarrow> start
      | Seg_alt \<Rightarrow> if c_rem cycle 2 = 0 then sd_primary seg else sd_secondary seg)"

definition segment_tick :: "fp \<Rightarrow> fp \<Rightarrow> segment_modulator \<Rightarrow> (modulator_output \<times> segment_modulator) option" where
  "segment_tick beat tick_rate_hz s =
     (if fle tick_rate_hz (Fin 0) then Some (output_new\<lparr>o_cv := smul (sg_cur_output s) (sg_depth s)\<rparr>, s)
      else
        let n = sg_n_defs s;
            wrap = fle (Fin 1) (sadd (sg_phase s) (sdiv (sg_rate s) tick_rate_hz));
            phase = advance (sg_phase s) (sdiv (sg_rate s) tick_rate_hz);
            cycle = (if wrap then sg_cycle_count s + 1 else sg_cycle_count s);
            seg_phase = smul phase (of_int_fp F32 n) in
        if 2 ^ 31 \<le> cycle then None
        else case to_int32 seg_phase of
          None \<Rightarrow> None
        | Some i \<Rightarrow>
          let new_seg = c_rem i n;
              local_p = ssub seg_phase (f_floor seg_phase);
              start = (if new_seg \<noteq> sg_cur_seg s then sg_cur_output s else sg_start_val s) in
          if new_seg < 0 \<or> int (length (sg_defs s)) \<le> new_seg then None
          else
            let output = segment_value (sg_defs s ! nat new_seg) start local_p cycle;
                cur = clampf 0 1 output in
            Some (output_new\<lparr>o_cv := smul cur (sg_depth s)\<rparr>,
              s\<lparr>sg_phase := phase, sg_cycle_count := cycle, sg_cur_seg := new_seg, sg_start_val := start, sg_cur_output := cur\<rparr>))"

text \<open>The digits of the segment number: \<open>None\<close> is signed overflow, \<open>Some None\<close> a character that is no digit.\<close>

fun parse_idx :: "int \<Rightarrow> string \<Rightarrow> int option option" where
  "parse_idx acc [] = Some (Some acc)"
| "parse_idx acc (c # cs) =
     (let d = int (of_char c) - 48 in
      if d < 0 \<or> 9 < d then Some None
      else if 2 ^ 31 \<le> acc * 10 + d then None
      else parse_idx (acc * 10 + d) cs)"

definition segment_update :: "string \<Rightarrow> fp \<Rightarrow> segment_modulator \<Rightarrow> segment_modulator option" where
  "segment_update key v s =
     (if key = ''depth'' then Some (s\<lparr>sg_depth := clampf 0 1 v\<rparr>)
      else if key = ''rate'' then Some (s\<lparr>sg_rate := clampf (1/1000) 100 v\<rparr>)
      else if length key \<le> 8 \<or> take 8 key \<noteq> ''segment_'' then Some s
      else
        let rest = drop 8 key; digits = takeWhile (\<lambda>c. c \<noteq> CHR ''_'') rest in
        if CHR ''_'' \<notin> set rest then Some s
        else case parse_idx 0 digits of
          None \<Rightarrow> None
        | Some None \<Rightarrow> Some s
        | Some (Some idx) \<Rightarrow>
          if idx < 0 \<or> sg_n_defs s \<le> idx then Some s
          else
            let field = drop (length digits + 1) rest; w = clampf 0 1 v; i = nat idx; d = sg_defs s ! i in
            if field = ''primary'' then Some (s\<lparr>sg_defs := (sg_defs s)[i := d\<lparr>sd_primary := w\<rparr>]\<rparr>)
            else if field = ''secondary'' then Some (s\<lparr>sg_defs := (sg_defs s)[i := d\<lparr>sd_secondary := w\<rparr>]\<rparr>)
            else Some s)"

section \<open>Slew\<close>

datatype slew_stage = St_idle | St_rising | St_falling

record slew_modulator =
  sw_rise :: fp
  sw_fall :: fp
  sw_input :: fp
  sw_depth :: fp
  sw_cycle :: bool
  sw_stage :: slew_stage
  sw_current :: fp
  sw_trig_pending :: bool
  sw_eor :: bool
  sw_eoc :: bool

definition slew_new :: slew_modulator where
  "slew_new = \<lparr>sw_rise = lit F32 (1/10), sw_fall = lit F32 (1/10), sw_input = Fin 0, sw_depth = Fin 1, sw_cycle = False,
     sw_stage = St_idle, sw_current = Fin 0, sw_trig_pending = False, sw_eor = False, sw_eoc = False\<rparr>"

definition coeff :: "libm \<Rightarrow> fp \<Rightarrow> fp \<Rightarrow> fp" where
  "coeff lm time_s tick_rate_hz = ssub (Fin 1) (lm_exp lm (sdiv (lit F32 (- 22/10)) (smul time_s tick_rate_hz)))"

text \<open>\<open>current_ += (target - current_) * coeff(time_s, tick_rate_hz)\<close>\<close>

definition slew_toward :: "libm \<Rightarrow> fp \<Rightarrow> fp \<Rightarrow> fp \<Rightarrow> fp \<Rightarrow> fp" where
  "slew_toward lm cur target time_s tick_rate_hz = sadd cur (smul (ssub target cur) (coeff lm time_s tick_rate_hz))"

definition kThresh :: fp where
  "kThresh = lit F32 (1/1000)"

text \<open>The trigger, then the start of a cycle, before the stage runs.\<close>

definition slew_start :: "slew_modulator \<Rightarrow> slew_modulator" where
  "slew_start s =
     (let s1 = s\<lparr>sw_eor := False, sw_eoc := False\<rparr>;
          s2 = (if sw_trig_pending s1 then s1\<lparr>sw_trig_pending := False, sw_current := Fin (- 1), sw_stage := St_rising\<rparr> else s1) in
      if sw_cycle s2 \<and> sw_stage s2 = St_idle then s2\<lparr>sw_stage := St_rising\<rparr> else s2)"

definition slew_stage_step :: "libm \<Rightarrow> fp \<Rightarrow> slew_modulator \<Rightarrow> slew_modulator" where
  "slew_stage_step lm tick_rate_hz s =
     (case sw_stage s of
        St_idle \<Rightarrow>
          s\<lparr>sw_current := slew_toward lm (sw_current s) (sw_input s)
              (if fle (sw_current s) (sw_input s) then sw_rise s else sw_fall s) tick_rate_hz\<rparr>
      | St_rising \<Rightarrow>
          let cur = slew_toward lm (sw_current s) (Fin 1) (sw_rise s) tick_rate_hz in
          if fle (ssub (Fin 1) kThresh) cur then s\<lparr>sw_current := Fin 1, sw_eor := True, sw_stage := St_falling\<rparr>
          else s\<lparr>sw_current := cur\<rparr>
      | St_falling \<Rightarrow>
          let cur = slew_toward lm (sw_current s) (Fin (- 1)) (sw_fall s) tick_rate_hz in
          if fle cur (sadd (Fin (- 1)) kThresh) then s\<lparr>sw_current := Fin (- 1), sw_eoc := True, sw_stage := St_idle\<rparr>
          else s\<lparr>sw_current := cur\<rparr>)"

definition slew_tick :: "libm \<Rightarrow> fp \<Rightarrow> fp \<Rightarrow> slew_modulator \<Rightarrow> (modulator_output \<times> slew_modulator) option" where
  "slew_tick lm beat tick_rate_hz s =
     (if fle tick_rate_hz (Fin 0) then
        Some (output_new\<lparr>o_cv := smul (sw_current s) (sw_depth s)\<rparr>, s\<lparr>sw_eor := False, sw_eoc := False\<rparr>)
      else let s' = slew_stage_step lm tick_rate_hz (slew_start s) in
        Some (output_new\<lparr>o_cv := smul (sw_current s') (sw_depth s'), o_gate := sw_eor s', o_gate2 := sw_eoc s'\<rparr>, s'))"

definition slew_update :: "string \<Rightarrow> fp \<Rightarrow> slew_modulator \<Rightarrow> slew_modulator option" where
  "slew_update key v s = Some (
     if key = ''rise'' then s\<lparr>sw_rise := clampf (1/1000) 10 v\<rparr>
     else if key = ''fall'' then s\<lparr>sw_fall := clampf (1/1000) 10 v\<rparr>
     else if key = ''input'' then s\<lparr>sw_input := clampf (- 1) 1 v\<rparr>
     else if key = ''depth'' then s\<lparr>sw_depth := clampf 0 1 v\<rparr>
     else if key = ''cycle'' then s\<lparr>sw_cycle := flt (Fin (1/2)) v\<rparr>
     else if key = ''trig'' \<and> flt (Fin (1/2)) v then s\<lparr>sw_trig_pending := True\<rparr>
     else s)"

section \<open>The slew stays between -1 and 1\<close>

definition time_ok :: "fp \<Rightarrow> bool" where
  "time_ok t = in_range (1/1024) 10 t"

definition slew_invar :: "slew_modulator \<Rightarrow> bool" where
  "slew_invar s = (in_range (- 1) 1 (sw_current s) \<and> in_range (- 1) 1 (sw_input s) \<and> in_range 0 1 (sw_depth s) \<and>
     time_ok (sw_rise s) \<and> time_ok (sw_fall s))"

definition not_nan :: "fp \<Rightarrow> bool" where
  "not_nan x = (x \<noteq> NaN)"

lemma lit_times:
  "fin_val (lit F32 (1/1000)) = Some (8589935 / 8589934592)" "fin_val (lit F32 10) = Some 10"
  "time_ok (lit F32 (1/10))" "lit F32 (- 22/10) = Fin (- 9227469 / 4194304)"
  by code_simp+

lemma clampf_time: "v \<noteq> NaN \<Longrightarrow> time_ok (clampf (1/1000) 10 v)"
  unfolding time_ok_def by (rule in_range_mono [OF clampf_range [OF lit_times(1,2)]]) simp_all

lemma coeff_range:
  assumes "exp_ok lm" "time_ok t" "flt (Fin 0) r"
  shows "in_range 0 1 (coeff lm t r)"
proof -
  have "nonneg (smul t r)" using assms(2,3) pos_product [of "1/1024" 10 t r] by (simp add: time_ok_def)
  from neg_over_nonneg [OF _ this, of "- 9227469 / 4194304"]
  have "in_range 0 1 (lm_exp lm (sdiv (lit F32 (- 22/10)) (smul t r)))"
    using assms(1) unfolding lit_times(4) exp_ok_def by simp
  then show ?thesis unfolding coeff_def by (intro in_range_fsub [where a = 1 and b = 1 and c = 0 and d = 1]) auto
qed

lemma slew_toward_range:
  "exp_ok lm \<Longrightarrow> time_ok t \<Longrightarrow> flt (Fin 0) r \<Longrightarrow> in_range (- 1) 1 cur \<Longrightarrow> in_range (- 1) 1 target \<Longrightarrow>
   in_range (- 1) 1 (slew_toward lm cur target t r)"
  unfolding slew_toward_def by (rule onepole_range) (auto intro: coeff_range)

lemma slew_start_invar: "slew_invar s \<Longrightarrow> slew_invar (slew_start s)"
  by (simp add: slew_invar_def slew_start_def Let_def)

lemma slew_stage_invar: "exp_ok lm \<Longrightarrow> flt (Fin 0) r \<Longrightarrow> slew_invar s \<Longrightarrow> slew_invar (slew_stage_step lm r s)"
  by (cases "sw_stage s") (auto simp: slew_invar_def slew_stage_step_def Let_def intro: slew_toward_range)

lemma slew_tick_ok:
  assumes "exp_ok lm" "slew_invar s" "r \<noteq> NaN"
  shows "\<exists>out s'. slew_tick lm b r s = Some (out, s') \<and> slew_invar s' \<and> in_range (- 1) 1 (o_cv out)"
proof (cases "fle r (Fin 0)")
  case True
  then show ?thesis using assms(2) by (simp add: slew_tick_def) (simp add: slew_invar_def depth_range)
next
  case False
  then have "flt (Fin 0) r" using assms(3) not_flt_iff_fle [of "Fin 0" r] by auto
  then have i: "slew_invar (slew_stage_step lm r (slew_start s))" using assms by (intro slew_stage_invar slew_start_invar)
  with False show ?thesis by (simp add: slew_tick_def Let_def) (simp add: slew_invar_def depth_range)
qed

lemma slew_update_ok: "slew_invar s \<Longrightarrow> v \<noteq> NaN \<Longrightarrow> \<exists>s'. slew_update k v s = Some s' \<and> slew_invar s'"
  by (auto simp: slew_update_def slew_invar_def clampf_time)

lemma slew_new_invar: "slew_invar slew_new"
  using lit_times(3) by (simp add: slew_new_def slew_invar_def)

interpretation slew: bounded_modulator "slew_tick lm" slew_update "\<lambda>n s. exp_ok lm \<and> slew_invar s"
  "\<lambda>r. r \<noteq> NaN" "\<lambda>k v. v \<noteq> NaN" "- 1" 1 for lm
proof unfold_locales
  fix s r b
  assume "exp_ok lm \<and> slew_invar s" "r \<noteq> NaN"
  then show "\<exists>out s'. slew_tick lm b r s = Some (out, s') \<and> (exp_ok lm \<and> slew_invar s') \<and> in_range (- 1) 1 (o_cv out)"
    using slew_tick_ok [of lm s r b] by blast
next
  fix s v k
  assume "exp_ok lm \<and> slew_invar s" "v \<noteq> NaN"
  then show "\<exists>s'. slew_update k v s = Some s' \<and> exp_ok lm \<and> slew_invar s'" using slew_update_ok [of s v k] by blast
qed

section \<open>The segment generator\<close>

text \<open>Levels are not clamped when a segment generator is built, only the output is.\<close>

definition seg_def_ok :: "segment_def \<Rightarrow> bool" where
  "seg_def_ok d = (in_range (- 1000000) 1000000 (sd_primary d) \<and> in_range (- 1000000) 1000000 (sd_secondary d))"

definition segment_invar :: "nat \<Rightarrow> segment_modulator \<Rightarrow> bool" where
  "segment_invar n s =
     (length (sg_defs s) = 36 \<and> list_all seg_def_ok (sg_defs s) \<and> 1 \<le> sg_n_defs s \<and> sg_n_defs s \<le> 36 \<and>
      in_range 0 1 (sg_depth s) \<and> in_range 0 100 (sg_rate s) \<and> in_range 0 1 (sg_phase s) \<and>
      in_range 0 1 (sg_start_val s) \<and> in_range 0 1 (sg_cur_output s) \<and>
      0 \<le> sg_cycle_count s \<and> sg_cycle_count s + int n < 2 ^ 31)"

lemma lit_100: "fin_val (lit F32 100) = Some 100"
  by (simp add: fin_val_lit)

lemma clampf_rate: "v \<noteq> NaN \<Longrightarrow> in_range 0 100 (clampf (1/1000) 100 v)"
  by (rule in_range_mono [OF clampf_range [OF lit_times(1) lit_100]]) simp_all

lemma segment_value_ok:
  assumes "seg_def_ok d" "in_range 0 1 start" "in_range 0 1 p"
  shows "segment_value d start p c \<noteq> NaN"
proof -
  have "in_range (- 1000001) 1000001 (ssub (sd_primary d) start)"
    using assms(1,2) by (intro in_range_fsub [where a = "- 1000000" and b = 1000000 and c = 0 and d = 1]) (auto simp: seg_def_ok_def)
  then have "in_range (- 1000001) 1000001 (smul p (ssub (sd_primary d) start))"
    using assms(3) mult_unit_range [of "- 1000001" _ 1000001]
    by (intro in_range_fmul [where a = 0 and b = 1 and c = "- 1000001" and d = 1000001]) (simp_all, metis mult.commute)
  then have "in_range (- 1000001) 1000002 (sadd start (smul p (ssub (sd_primary d) start)))"
    using assms(2) by (intro in_range_fadd [where a = 0 and b = 1 and c = "- 1000001" and d = 1000001]) auto
  then show ?thesis using assms(1,2)
    by (auto simp: segment_value_def seg_def_ok_def in_range_def split: seg_type.splits)
qed

lemma seg_phase_range:
  assumes "in_range 0 1 phase" "1 \<le> n" "n \<le> 36"
  shows "in_range (of_int 0) (of_int n) (smul phase (of_int_fp F32 n))"
proof -
  have r: "fin_rep F32 (of_int n)" using assms(2,3) by (intro fin_rep_F32_int) simp
  then have "fin_val (of_int_fp F32 n) = Some (of_int n)" by (intro fin_val_of_int_fp) simp_all
  then have "in_range (of_int n) (of_int n) (of_int_fp F32 n)" by (simp add: in_range_def)
  then show ?thesis using assms r
    by (intro in_range_fmul [where a = 0 and b = 1 and c = "of_int n" and d = "of_int n"]) (auto simp: mult_left_le_one_le)
qed

lemma frac_range: "in_range 0 36 x \<Longrightarrow> in_range 0 1 (ssub x (f_floor x))"
proof -
  assume "in_range 0 36 x"
  then obtain r where r: "fin_val x = Some r" "0 \<le> r" "r \<le> 36" by blast
  define n where "n = \<lfloor>r\<rfloor>"
  have n: "of_int n \<le> r" "r < of_int n + 1" unfolding n_def using floor_correct [of r] by auto
  have f: "fin_val (f_floor x) = Some (of_int n)" using r by (cases x) (auto simp: n_def)
  have "\<bar>r - of_int n\<bar> \<le> 4" using n by simp
  from fin_val_fsub [OF r(1) f this] have "fin_val (ssub x (f_floor x)) = Some (rnd_val F32 (r - of_int n))" .
  moreover have "0 \<le> rnd_val F32 (r - of_int n) \<and> rnd_val F32 (r - of_int n) \<le> 1"
    using fin_val_rnd(2,3) [of F32 0 1 "r - of_int n"] n by simp
  ultimately show ?thesis by (simp add: in_range_def)
qed

lemma c_rem_range: "0 \<le> i \<Longrightarrow> 1 \<le> n \<Longrightarrow> 0 \<le> c_rem i n \<and> c_rem i n < n"
  by (simp add: c_rem_def)

lemma segment_tick_ok:
  assumes "segment_invar (Suc n) s" "lfo_rate_ok 100 r"
  shows "\<exists>out s'. segment_tick b r s = Some (out, s') \<and> segment_invar n s' \<and> in_range 0 1 (o_cv out)"
proof (cases "fle r (Fin 0)")
  case True
  then show ?thesis using assms(1) by (auto simp: segment_tick_def segment_invar_def depth_range_unit)
next
  case False
  let ?inc = "sdiv (sg_rate s) r" let ?ph = "advance (sg_phase s) ?inc" let ?n = "sg_n_defs s"
  let ?c = "if fle (Fin 1) (sadd (sg_phase s) ?inc) then sg_cycle_count s + 1 else sg_cycle_count s"
  note inv = assms(1) [unfolded segment_invar_def]
  have n: "1 \<le> ?n" "?n \<le> 36" using inv by auto
  have "in_range 100 1000000 r" using assms(2) False by (simp add: lfo_rate_ok_def)
  then have "in_range 0 1 ?inc" using inv by (intro lfo_increment [where fmx = 100]) auto
  then have ph: "in_range 0 1 ?ph" using inv by (intro advance_range) auto
  have sp: "in_range (of_int 0) (of_int ?n) (smul ?ph (of_int_fp F32 ?n))" by (rule seg_phase_range [OF ph n])
  then obtain i where i: "to_int32 (smul ?ph (of_int_fp F32 ?n)) = Some i" "0 \<le> i"
    using to_int_range [of 0 ?n _ "- (2 ^ 31)" "2 ^ 31 - 1"] n by fastforce
  have rem: "0 \<le> c_rem i ?n" "c_rem i ?n < ?n" using c_rem_range [OF i(2) n(1)] by auto
  have c: "0 \<le> ?c" "?c + int n < 2 ^ 31" using inv by auto
  let ?start = "if c_rem i ?n \<noteq> sg_cur_seg s then sg_cur_output s else sg_start_val s"
  let ?p = "ssub (smul ?ph (of_int_fp F32 ?n)) (f_floor (smul ?ph (of_int_fp F32 ?n)))"
  let ?d = "sg_defs s ! nat (c_rem i ?n)"
  have p: "in_range 0 1 ?p" using sp n by (intro frac_range) (auto intro: in_range_mono)
  have d: "seg_def_ok ?d" using inv rem n by (auto simp: list_all_length)
  have st: "in_range 0 1 ?start" using inv by auto
  have cur: "in_range 0 1 (clampf 0 1 (segment_value ?d ?start ?p ?c))"
    by (rule clampf_unit [OF segment_value_ok [OF d st p]])
  have "\<not> 2 ^ 31 \<le> ?c" "\<not> (c_rem i ?n < 0 \<or> int (length (sg_defs s)) \<le> c_rem i ?n)" using c rem inv n by auto
  then have "segment_tick b r s = Some (output_new\<lparr>o_cv := smul (clampf 0 1 (segment_value ?d ?start ?p ?c)) (sg_depth s)\<rparr>,
      s\<lparr>sg_phase := ?ph, sg_cycle_count := ?c, sg_cur_seg := c_rem i ?n, sg_start_val := ?start,
        sg_cur_output := clampf 0 1 (segment_value ?d ?start ?p ?c)\<rparr>)"
    unfolding segment_tick_def Let_def using False i(1) by (simp only: if_False option.case)
  moreover have "in_range 0 1 (smul (clampf 0 1 (segment_value ?d ?start ?p ?c)) (sg_depth s))"
    using cur inv by (intro depth_range_unit) auto
  ultimately show ?thesis using inv ph c st cur by (simp add: segment_invar_def)
qed

lemma segment_update_cases:
  assumes "parse_idx 0 (takeWhile (\<lambda>c. c \<noteq> CHR ''_'') (drop 8 k)) \<noteq> None"
  obtains s' where "segment_update k v s = Some s'"
    "s' = s \<or> s' = s\<lparr>sg_depth := clampf 0 1 v\<rparr> \<or> s' = s\<lparr>sg_rate := clampf (1/1000) 100 v\<rparr> \<or>
     (\<exists>i. 0 \<le> i \<and> i < sg_n_defs s \<and>
       (s' = s\<lparr>sg_defs := (sg_defs s)[nat i := (sg_defs s ! nat i)\<lparr>sd_primary := clampf 0 1 v\<rparr>]\<rparr> \<or>
        s' = s\<lparr>sg_defs := (sg_defs s)[nat i := (sg_defs s ! nat i)\<lparr>sd_secondary := clampf 0 1 v\<rparr>]\<rparr>))"
proof -
  obtain r where r: "parse_idx 0 (takeWhile (\<lambda>c. c \<noteq> CHR ''_'') (drop 8 k)) = Some r" using assms by blast
  show ?thesis
  proof (cases r)
    case None
    then show ?thesis using r by (intro that [of "the (segment_update k v s)"]) (simp_all add: segment_update_def Let_def)
  next
    case (Some i)
    show ?thesis
    proof (cases "0 \<le> i \<and> i < sg_n_defs s")
      case True
      with Some r show ?thesis
        by (intro that [of "the (segment_update k v s)"])
           (auto simp: segment_update_def Let_def intro: exI [of _ i] disjI2 [OF disjI2 [OF disjI2 [OF exI [of _ i]]]])
    qed (use Some r in \<open>intro that [of "the (segment_update k v s)"], auto simp: segment_update_def Let_def\<close>)
  qed
qed

lemma segment_update_ok:
  assumes "segment_invar (Suc n) s" "v \<noteq> NaN" "parse_idx 0 (takeWhile (\<lambda>c. c \<noteq> CHR ''_'') (drop 8 k)) \<noteq> None"
  shows "\<exists>s'. segment_update k v s = Some s' \<and> segment_invar n s'"
proof -
  have i: "segment_invar n s" using assms(1) by (auto simp: segment_invar_def)
  have set: "segment_invar n (s\<lparr>sg_defs := (sg_defs s)[j := d]\<rparr>)" if "seg_def_ok d" for j d
    using i that set_update_subset_insert [of "sg_defs s" j d] by (auto simp: segment_invar_def list_all_iff)
  have ok: "seg_def_ok ((sg_defs s ! nat idx)\<lparr>sd_primary := clampf 0 1 v\<rparr>)"
    "seg_def_ok ((sg_defs s ! nat idx)\<lparr>sd_secondary := clampf 0 1 v\<rparr>)" if "0 \<le> idx" "idx < sg_n_defs s" for idx
    using i that in_range_mono [OF clampf_unit [OF assms(2)]] by (auto simp: segment_invar_def list_all_length seg_def_ok_def)
  have "segment_invar n (s\<lparr>sg_depth := clampf 0 1 v\<rparr>)" "segment_invar n (s\<lparr>sg_rate := clampf (1/1000) 100 v\<rparr>)"
    using i assms(2) clampf_rate by (simp_all add: segment_invar_def)
  with segment_update_cases [OF assms(3), of v s] set ok i show ?thesis by metis
qed

lemma segment_new_invar:
  assumes "segs \<noteq> []" "list_all seg_def_ok segs" "n < 2 ^ 31"
  shows "\<exists>s. segment_new segs = Some s \<and> segment_invar n s"
  using assms by (auto simp: segment_new_def Let_def segment_invar_def kMaxSegments_def list_all_iff seg_def_ok_def
      segment_default_def Suc_le_eq dest: in_set_takeD)

definition segment_key_ok :: "string \<Rightarrow> fp \<Rightarrow> bool" where
  "segment_key_ok k v = (v \<noteq> NaN \<and> parse_idx 0 (takeWhile (\<lambda>c. c \<noteq> CHR ''_'') (drop 8 k)) \<noteq> None)"

interpretation segment: bounded_modulator segment_tick segment_update segment_invar "lfo_rate_ok 100" segment_key_ok 0 1
  by unfold_locales (auto simp: segment_key_ok_def intro: segment_tick_ok segment_update_ok)

section \<open>The slope generator stays in range\<close>

text \<open>A representable value of the unit interval.\<close>

definition unit_rep :: "fp \<Rightarrow> bool" where
  "unit_rep x = (\<exists>r. fin_val x = Some r \<and> 0 \<le> r \<and> r \<le> 1 \<and> rep F32 r)"

lemma unit_rep_range: "unit_rep x \<Longrightarrow> in_range 0 1 x"
  by (auto simp: unit_rep_def in_range_def)

lemma unit_rep_smul:
  assumes "fin_val a = Some x" "fin_val b = Some y" "0 \<le> x * y" "x * y \<le> 1"
  shows "unit_rep (smul a b)"
  using fin_val_fmul [OF assms(1,2)] fin_val_rnd(2,3) [of F32 0 1 "x * y"] assms(3,4) rep_rnd_val [of F32]
  by (auto simp: unit_rep_def)

lemma onepole_unit_val:
  assumes "0 \<le> r" "r \<le> 1" "rep F32 r" "0 \<le> t" "t \<le> 1" "0 \<le> c" "c \<le> 1"
  shows "0 \<le> rnd_val F32 (r + rnd_val F32 (rnd_val F32 (t - r) * c)) \<and>
    rnd_val F32 (r + rnd_val F32 (rnd_val F32 (t - r) * c)) \<le> 1"
proof (cases "0 \<le> rnd_val F32 (t - r)")
  case True
  then have "0 \<le> rnd_val F32 (rnd_val F32 (t - r) * c)" using assms(6) rnd_val_ge [of F32 0] by simp
  then have "0 \<le> rnd_val F32 (r + rnd_val F32 (rnd_val F32 (t - r) * c))" using assms(1) rnd_val_ge [of F32 0] by simp
  with onepole_up [of r t c] True assms show ?thesis by simp
next
  case False
  let ?d = "rnd_val F32 (t - r)" let ?p = "rnd_val F32 (?d * c)"
  have "- r \<le> ?d" using rnd_val_ge [of F32 "- r" "t - r"] rep_uminus [OF assms(3)] assms(4) by simp
  moreover have "?d \<le> ?d * c" "?d * c \<le> 0"
    using False assms(6,7) mult_left_mono_neg [of c 1 ?d] by (auto simp: mult_nonpos_nonneg)
  moreover from this have "?d \<le> ?p" "?p \<le> 0"
    using rnd_val_ge [of F32 ?d "?d * c"] rep_rnd_val [of F32] rnd_val_le [of F32 0 "?d * c"] by simp_all
  ultimately have "0 \<le> r + ?p" "r + ?p \<le> 1" using assms(2) by linarith+
  then show ?thesis using fin_val_rnd(2,3) [of F32 0 1 "r + ?p"] by simp
qed

lemma onepole_unit:
  assumes "unit_rep cur" "in_range 0 1 target" "in_range 0 1 c"
  shows "unit_rep (sadd cur (smul (ssub target cur) c))" "unit_rep (sadd cur (smul c (ssub target cur)))"
proof -
  obtain r t k where v: "fin_val cur = Some r" "0 \<le> r" "r \<le> 1" "rep F32 r" "fin_val target = Some t" "0 \<le> t" "t \<le> 1"
    "fin_val c = Some k" "0 \<le> k" "k \<le> 1" using assms unfolding unit_rep_def by blast
  let ?d = "rnd_val F32 (t - r)" let ?p = "rnd_val F32 (?d * k)"
  have tr: "\<bar>t - r\<bar> \<le> 1" using v by (simp add: abs_le_iff)
  have d: "\<bar>?d\<bar> \<le> 1" using fin_val_rnd(2,3) [of F32 "- 1" 1 "t - r"] tr by (simp add: abs_le_iff)
  then have dk: "\<bar>?d * k\<bar> \<le> 1" using v(9,10) mult_mono [of "\<bar>?d\<bar>" 1 k 1] by (simp add: abs_mult)
  have p: "\<bar>?p\<bar> \<le> 1" using fin_val_rnd(2,3) [of F32 "- 1" 1 "?d * k"] dk by (simp add: abs_le_iff)
  have s: "fin_val (ssub target cur) = Some ?d" using fin_val_fsub [OF v(5,1)] tr by simp
  have m: "fin_val (smul (ssub target cur) c) = Some ?p" "fin_val (smul c (ssub target cur)) = Some ?p"
    using fin_val_fmul [OF s v(8)] fin_val_fmul [OF v(8) s] dk by (simp_all add: mult.commute)
  have e: "fin_val (sadd cur (smul (ssub target cur) c)) = Some (rnd_val F32 (r + ?p))"
    "fin_val (sadd cur (smul c (ssub target cur))) = Some (rnd_val F32 (r + ?p))"
    using fin_val_fadd [OF v(1) m(1)] fin_val_fadd [OF v(1) m(2)] p v(2,3) by (simp_all add: abs_le_iff)
  show "unit_rep (sadd cur (smul (ssub target cur) c))" "unit_rep (sadd cur (smul c (ssub target cur)))"
    using e onepole_unit_val [OF v(2-4,6,7,9,10)] rep_rnd_val [of F32] by (simp_all add: unit_rep_def)
qed

definition slope_invar :: "slope_modulator \<Rightarrow> bool" where
  "slope_invar s = (in_range 0 1 (sl_phase s) \<and> in_range 0 100 (sl_rate s) \<and> in_range (- 1) 1 (sl_slope s) \<and>
     in_range (- 1) 1 (sl_shape s) \<and> in_range (- 1) 1 (sl_smoothness s) \<and> in_range 0 1 (sl_depth s) \<and>
     unit_rep (sl_smooth_state s) \<and> in_range (- 1) 1 (sl_last_output s))"

lemma lit_attack:
  "fin_val (lit F32 (1/100)) = Some (5368709 / 536870912)" "fin_val (lit F32 (99/100)) = Some (4152361 / 4194304)"
  "in_range 0 1 (lit F32 (49/100))" "in_range 0 1 (lit F32 (1/1000000))"
  by code_simp+

lemma half_range: "in_range 0 1 x \<Longrightarrow> in_range 0 (1/2) (smul x (Fin (1/2)))"
  by (rule in_range_scale [where a = 0 and b = 1]) simp_all

lemma slope_skew_range:
  assumes "in_range (- 1) 1 sl" "in_range 0 1 ph"
  shows "in_range 0 1 (slope_skew sl ph)"
proof -
  have "in_range (- 1) 1 (smul sl (lit F32 (49/100)))" using assms(1) lit_attack(3) by (rule depth_range)
  then have "in_range (- 1) 2 (sadd (Fin (1/2)) (smul sl (lit F32 (49/100))))"
    by (intro in_range_fadd [where a = "1/2" and b = "1/2" and c = "- 1" and d = 1]) auto
  then have nn: "sadd (Fin (1/2)) (smul sl (lit F32 (49/100))) \<noteq> NaN" by (rule in_range_not_NaN)
  define att where "att = clampf (1/100) (99/100) (sadd (Fin (1/2)) (smul sl (lit F32 (49/100))))"
  have "in_range (5368709 / 536870912) (4152361 / 4194304) att"
    unfolding att_def by (rule clampf_range [OF lit_attack(1,2) _ nn]) simp
  then obtain y where y: "fin_val att = Some y" "5368709 / 536870912 \<le> y" "y \<le> 4152361 / 4194304" by blast
  obtain x where x: "fin_val ph = Some x" "0 \<le> x" "x \<le> 1" using assms(2) by blast
  have y0: "0 < y" "y < 1" using y by simp_all
  show ?thesis
  proof (cases "flt ph att")
    case True
    then have "x \<le> y" using x y by (simp add: flt_fin)
    then have "in_range 0 1 (sdiv ph att)" using x y y0 by (intro ratio_range)
    then have "in_range 0 (1/2) (smul (sdiv ph att) (Fin (1/2)))" by (rule half_range)
    with True show ?thesis by (auto simp: slope_skew_def Let_def att_def [symmetric] intro: in_range_mono)
  next
    case False
    then have xy: "y \<le> x" using x y by (simp add: flt_fin)
    have d1: "fin_val (ssub ph att) = Some (rnd_val F32 (x - y))" using fin_val_fsub [OF x(1) y(1)] x y0 xy by simp
    have d2: "fin_val (ssub (Fin 1) att) = Some (rnd_val F32 (1 - y))" using fin_val_fsub [of "Fin 1" 1 att y] y y0 by simp
    have "rep F32 (41943 / 4194304)" using fin_rep_F32_dyadic [of 41943 22] by (simp add: fin_rep_def)
    then have pos: "0 < rnd_val F32 (1 - y)" using rnd_val_ge [of F32 "41943 / 4194304" "1 - y"] y(3) by simp
    have "0 \<le> rnd_val F32 (x - y)" using rnd_val_ge [of F32 0 "x - y"] xy by simp
    moreover have "rnd_val F32 (x - y) \<le> rnd_val F32 (1 - y)" using rnd_val_mono [of F32 "x - y" "1 - y"] x(3) by simp
    ultimately have "in_range 0 1 (sdiv (ssub ph att) (ssub (Fin 1) att))" using d1 d2 pos by (intro ratio_range)
    then have "in_range 0 (1/2) (smul (sdiv (ssub ph att) (ssub (Fin 1) att)) (Fin (1/2)))" by (rule half_range)
    then have "in_range 0 1 (sadd (Fin (1/2)) (smul (sdiv (ssub ph att) (ssub (Fin 1) att)) (Fin (1/2))))"
      by (intro in_range_fadd [where a = "1/2" and b = "1/2" and c = 0 and d = "1/2"]) auto
    with False show ?thesis by (simp add: slope_skew_def Let_def att_def [symmetric])
  qed
qed

lemma tri_rep:
  assumes "in_range 0 1 p"
  shows "unit_rep (if flt p (Fin (1/2)) then smul p (Fin 2) else smul (ssub (Fin 1) p) (Fin 2))"
proof -
  obtain x where x: "fin_val p = Some x" "0 \<le> x" "x \<le> 1" using assms by blast
  show ?thesis
  proof (cases "flt p (Fin (1/2))")
    case True
    then have "x < 1/2" using x flt_fin [of p x "Fin (1/2)" "1/2"] by simp
    with True x show ?thesis using unit_rep_smul [of p x "Fin 2" 2] by simp
  next
    case False
    then have "1/2 \<le> x" using x flt_fin [of p x "Fin (1/2)" "1/2"] by simp
    then have d: "0 \<le> rnd_val F32 (1 - x)" "rnd_val F32 (1 - x) \<le> 1/2"
      using fin_val_rnd(2,3) [of F32 0 "1/2" "1 - x"] x(3) by simp_all
    have "fin_val (ssub (Fin 1) p) = Some (rnd_val F32 (1 - x))" using fin_val_fsub [of "Fin 1" 1 p x] x by simp
    with False d show ?thesis using unit_rep_smul [of "ssub (Fin 1) p" "rnd_val F32 (1 - x)" "Fin 2" 2] by simp
  qed
qed

lemma sin_v_range:
  assumes "trig_ok lm" "in_range 0 1 p"
  shows "in_range 0 1 (ssub (Fin (1/2)) (smul (Fin (1/2)) (lm_cos lm (smul kTwoPi p))))"
proof -
  have "in_range 0 7 (smul kTwoPi p)" unfolding kTwoPi_def
    by (rule in_range_fmul_unit [OF _ _ _ _ _ _ assms(2)]) simp_all
  then have c: "in_range (- 1) 1 (lm_cos lm (smul kTwoPi p))" using assms(1) by (auto simp: trig_ok_def in_range_iff)
  then obtain x where x: "fin_val (lm_cos lm (smul kTwoPi p)) = Some x" "- 1 \<le> x" "x \<le> 1" by blast
  then have "in_range (- (1/2)) (1/2) (rnd F32 neg (1/2 * x))" for neg by (intro in_range_rnd) simp_all
  then have "in_range (- (1/2)) (1/2) (smul (Fin (1/2)) (lm_cos lm (smul kTwoPi p)))" using x(1) by (simp add: fmul_def Let_def)
  then show ?thesis by (intro in_range_fsub [where a = "1/2" and b = "1/2" and c = "- (1/2)" and d = "1/2"]) auto
qed

lemma slope_wave_range:
  assumes "trig_ok lm" "pow_ok lm" "in_range (- 1) 1 shape" "in_range 0 1 p"
  shows "in_range 0 1 (slope_wave lm shape p)"
proof -
  define tri where "tri = (if flt p (Fin (1/2)) then smul p (Fin 2) else smul (ssub (Fin 1) p) (Fin 2))"
  define sv where "sv = ssub (Fin (1/2)) (smul (Fin (1/2)) (lm_cos lm (smul kTwoPi p)))"
  have tri: "unit_rep tri" unfolding tri_def by (rule tri_rep [OF assms(4)])
  have sv: "in_range 0 1 sv" unfolding sv_def by (rule sin_v_range [OF assms(1,4)])
  obtain x where x: "fin_val shape = Some x" "- 1 \<le> x" "x \<le> 1" using assms(3) by blast
  show ?thesis
  proof (cases "fle shape (Fin 0)")
    case True
    then have "x \<le> 0" using x by (simp add: fle_fin)
    with x have "in_range (- 1) 0 shape" by (simp add: in_range_def)
    then have "in_range 0 1 (sadd shape (Fin 1))" by (intro in_range_fadd [where a = "- 1" and b = 0 and c = 1 and d = 1]) auto
    from onepole_unit(2) [OF tri sv this] True show ?thesis
      by (simp add: slope_wave_def Let_def tri_def [symmetric] sv_def [symmetric] unit_rep_range)
  next
    case False
    then have "0 < x" using x by (simp add: fle_fin)
    with x have "in_range 0 1 shape" by (simp add: in_range_def)
    then have "in_range 0 2 (smul shape (Fin 2))" by (rule in_range_scale) simp_all
    then have e: "in_range 0 3 (sadd (Fin 1) (smul shape (Fin 2)))"
      by (intro in_range_fadd [where a = 1 and b = 1 and c = 0 and d = 2]) auto
    have "in_range 0 1 (fmax sv (lit F32 (1/1000000)))" using fmax_range [OF sv lit_attack(4)] by simp
    then show ?thesis using False assms(2) e
      by (simp add: slope_wave_def Let_def tri_def [symmetric] sv_def [symmetric] pow_ok_def)
  qed
qed

lemma fmod_fold_range:
  assumes "in_range 0 4 x"
  shows "in_range 0 1 (if flt (Fin 1) (f_mod x (Fin 2)) then ssub (Fin 2) (f_mod x (Fin 2)) else f_mod x (Fin 2))"
proof -
  obtain r where r: "fin_val x = Some r" "0 \<le> r" using assms by blast
  define m where "m = r - of_int \<lfloor>r / 2\<rfloor> * 2"
  have "of_int \<lfloor>r / 2\<rfloor> \<le> r / 2" "r / 2 < of_int \<lfloor>r / 2\<rfloor> + 1" using floor_correct [of "r / 2"] by auto
  then have m: "0 \<le> m" "m \<le> 2" by (simp_all add: m_def)
  have f: "fin_val (f_mod x (Fin 2)) = Some m" using r by (simp add: f_mod_def m_def)
  show ?thesis
  proof (cases "1 < m")
    case True
    then have "in_range 1 2 (f_mod x (Fin 2))" using m f by (simp add: in_range_def)
    then have "in_range 0 1 (ssub (Fin 2) (f_mod x (Fin 2)))" by (intro in_range_fsub [where a = 2 and b = 2 and c = 1 and d = 2]) auto
    then show ?thesis using True f by (simp add: flt_fin)
  next
    case False
    then show ?thesis using m f by (simp add: flt_fin in_range_def)
  qed
qed

lemma slope_smooth_range:
  assumes "in_range (- 1) 1 sm" "unit_rep st" "in_range 0 1 out"
  shows "in_range 0 1 (fst (slope_smooth sm st out)) \<and> unit_rep (snd (slope_smooth sm st out))"
proof -
  obtain x where x: "fin_val sm = Some x" "- 1 \<le> x" "x \<le> 1" using assms(1) by blast
  consider "x < 0" | "0 < x" | "x = 0" by linarith
  then show ?thesis
  proof cases
    case 1
    then have "in_range (- 1) 0 sm" using x by (simp add: in_range_def)
    then have c: "in_range 0 1 (sadd (Fin 1) sm)" by (intro in_range_fadd [where a = 1 and b = 1 and c = "- 1" and d = 0]) auto
    from onepole_unit(2) [OF assms(2,3) depth_range_unit [OF c c]] 1 x show ?thesis
      by (simp add: slope_smooth_def Let_def flt_fin unit_rep_range)
  next
    case 2
    then have "in_range 0 1 sm" using x by (simp add: in_range_def)
    then have "in_range 0 3 (smul sm (Fin 3))" by (rule in_range_scale) simp_all
    then have "in_range 0 4 (sadd (Fin 1) (smul sm (Fin 3)))" by (intro in_range_fadd [where a = 1 and b = 1 and c = 0 and d = 3]) auto
    then have "in_range 0 4 (smul out (sadd (Fin 1) (smul sm (Fin 3))))"
    proof (intro in_range_fmul [where a = 0 and b = 1 and c = 0 and d = 4])
      show "0 \<le> r * s \<and> r * s \<le> 4" if "0 \<le> r" "r \<le> 1" "0 \<le> s" "s \<le> 4" for r s :: rat
        using mult_mono [of r 1 s 4] that by simp
    qed (use assms(3) in simp_all)
    from fmod_fold_range [OF this] 2 x assms(2) show ?thesis by (simp add: slope_smooth_def Let_def flt_fin)
  next
    case 3
    then show ?thesis using x assms by (simp add: slope_smooth_def flt_fin)
  qed
qed

lemma slope_tick_ok:
  assumes "trig_ok lm" "pow_ok lm" "slope_invar s" "lfo_rate_ok 100 r"
  shows "\<exists>out s'. slope_tick lm b r s = Some (out, s') \<and> slope_invar s' \<and> in_range (- 1) 1 (o_cv out)"
proof (cases "fle r (Fin 0)")
  case True
  then show ?thesis using assms(3) by (simp add: slope_tick_def) (simp add: slope_invar_def)
next
  case False
  note inv = assms(3) [unfolded slope_invar_def]
  let ?ph = "advance (sl_phase s) (sdiv (sl_rate s) r)"
  let ?w = "slope_wave lm (sl_shape s) (slope_skew (sl_slope s) ?ph)"
  have "in_range 100 1000000 r" using assms(4) False by (simp add: lfo_rate_ok_def)
  then have ph: "in_range 0 1 ?ph" using inv by (intro advance_range lfo_increment [where fmx = 100]) auto
  have w: "in_range 0 1 ?w" using inv ph assms(1,2) by (intro slope_wave_range slope_skew_range) auto
  obtain o1 st where o1: "slope_smooth (sl_smoothness s) (sl_smooth_state s) ?w = (o1, st)" by fastforce
  then have r: "in_range 0 1 o1" "unit_rep st" using slope_smooth_range [of "sl_smoothness s" "sl_smooth_state s" ?w] inv w by auto
  then have "in_range (- 1) 1 (if sl_bipolar s then ssub (smul o1 (Fin 2)) (Fin 1) else o1)"
    using bipolar_range by (auto intro: in_range_mono)
  then have "in_range (- 1) 1 (smul (if sl_bipolar s then ssub (smul o1 (Fin 2)) (Fin 1) else o1) (sl_depth s))"
    using inv by (intro depth_range) auto
  then show ?thesis using False o1 r(2) inv ph by (simp add: slope_tick_def Let_def slope_invar_def)
qed

lemma slope_update_ok: "slope_invar s \<Longrightarrow> v \<noteq> NaN \<Longrightarrow> \<exists>s'. slope_update k v s = Some s' \<and> slope_invar s'"
  using clampf_rate by (auto simp: slope_update_def slope_invar_def)

interpretation slope: bounded_modulator "slope_tick lm" slope_update "\<lambda>n s. trig_ok lm \<and> pow_ok lm \<and> slope_invar s"
  "lfo_rate_ok 100" "\<lambda>k v. v \<noteq> NaN" "- 1" 1 for lm
proof unfold_locales
  fix s r b
  assume "trig_ok lm \<and> pow_ok lm \<and> slope_invar s" "lfo_rate_ok 100 r"
  then show "\<exists>out s'. slope_tick lm b r s = Some (out, s') \<and> (trig_ok lm \<and> pow_ok lm \<and> slope_invar s') \<and> in_range (- 1) 1 (o_cv out)"
    using slope_tick_ok [of lm s r b] by blast
next
  fix s v k
  assume "trig_ok lm \<and> pow_ok lm \<and> slope_invar s" "v \<noteq> NaN"
  then show "\<exists>s'. slope_update k v s = Some s' \<and> trig_ok lm \<and> pow_ok lm \<and> slope_invar s'" using slope_update_ok [of s v k] by blast
qed

lemma unit_rep_half: "unit_rep (Fin (1/2))"
  unfolding unit_rep_def using fin_rep_F32_half(1) by (intro exI [of _ "1/2"]) (simp add: fin_rep_def)

lemma slope_new_invar: "slope_invar slope_new"
  using unit_rep_half by (simp add: slope_invar_def slope_new_def)

section \<open>Properties\<close>

text \<open>Driven by any sequence of ticks (at any rate that is a number) and parameter updates (with
  any value that is a number), the slew modulator's output never leaves [-1, 1], single-precision
  rounding included, for any exponential that is between 0 and 1 on non-positive arguments.\<close>

theorem slew_run_bounded:
  assumes "exp_ok lm" "list_all (cmd_ok (\<lambda>r. r \<noteq> NaN) (\<lambda>k v. v \<noteq> NaN)) cs"
  shows "\<exists>outs s'. mod_run (slew_tick lm) slew_update cs slew_new = Some (outs, s') \<and>
    list_all (\<lambda>out. in_range (- 1) 1 (o_cv out)) outs"
  using slew.run_bounded [where lm = lm and cs = cs and s = slew_new] assms slew_new_invar by auto

theorem slew_run_bounded_witness:
  "\<exists>outs s'. mod_run (slew_tick libm_const) slew_update [Cmd_update ''trig'' (Fin 1), Cmd_tick (Fin 0) (Fin 100)] slew_new = Some (outs, s') \<and>
    list_all (\<lambda>out. in_range (- 1) 1 (o_cv out)) outs"
  by (rule slew_run_bounded) (simp_all add: libm_const_ok cmd_ok_def)

text \<open>The segment generator, built from at least one segment with levels up to a million and driven at
  100 Hz or faster, never indexes outside its 36 slots, never converts out of range and keeps its
  output in [0, 1], for any run of fewer than 2^31 steps (its cycle counter is a signed integer).\<close>

theorem segment_run_bounded:
  assumes "segs \<noteq> []" "list_all seg_def_ok segs" "length cs < 2 ^ 31"
    and "list_all (cmd_ok (lfo_rate_ok 100) segment_key_ok) cs"
  shows "\<exists>s outs s'. segment_new segs = Some s \<and> mod_run segment_tick segment_update cs s = Some (outs, s') \<and>
    list_all (\<lambda>out. in_range 0 1 (o_cv out)) outs"
proof -
  obtain s where s: "segment_new segs = Some s" "segment_invar (length cs + 0) s"
    using segment_new_invar [OF assms(1,2), of "length cs"] assms(3) by auto
  with segment.run_bounded [OF s(2) assms(4)] show ?thesis by blast
qed

theorem segment_run_bounded_witness:
  "\<exists>s outs s'. segment_new [segment_default] = Some s \<and>
    mod_run segment_tick segment_update [Cmd_update ''segment_0_primary'' (Fin 1), Cmd_tick (Fin 0) (Fin 128)] s = Some (outs, s') \<and>
    list_all (\<lambda>out. in_range 0 1 (o_cv out)) outs"
  by (rule segment_run_bounded)
     (simp_all add: seg_def_ok_def segment_default_def cmd_ok_def lfo_rate_ok_def segment_key_ok_def Let_def)

text \<open>The slope generator, driven at 100 Hz or faster and by numbers, keeps its output in [-1, 1] in
  every shape, skew, smoothing and folding, single-precision rounding included, for any cosine
  with values in [-1, 1] and any power that keeps the unit interval.\<close>

theorem slope_run_bounded:
  assumes "trig_ok lm" "pow_ok lm" "list_all (cmd_ok (lfo_rate_ok 100) (\<lambda>k v. v \<noteq> NaN)) cs"
  shows "\<exists>outs s'. mod_run (slope_tick lm) slope_update cs slope_new = Some (outs, s') \<and>
    list_all (\<lambda>out. in_range (- 1) 1 (o_cv out)) outs"
  using slope.run_bounded [where lm = lm and cs = cs and s = slope_new] assms slope_new_invar by auto

theorem slope_run_bounded_witness:
  "\<exists>outs s'. mod_run (slope_tick libm_const) slope_update [Cmd_update ''shape'' (Fin 1), Cmd_tick (Fin 0) (Fin 128)] slope_new = Some (outs, s') \<and>
    list_all (\<lambda>out. in_range (- 1) 1 (o_cv out)) outs"
  by (rule slope_run_bounded) (simp_all add: libm_const_ok cmd_ok_def lfo_rate_ok_def)

lemma slope_tick_phase:
  "\<not> fle r (Fin 0) \<Longrightarrow> \<exists>out s'. slope_tick lm b r s = Some (out, s') \<and>
     sl_phase s' = advance (sl_phase s) (sdiv (sl_rate s) r) \<and> sl_rate s' = sl_rate s"
  by (auto simp: slope_tick_def Let_def split: prod.splits)

fun advance_n :: "nat \<Rightarrow> fp \<Rightarrow> fp \<Rightarrow> fp" where
  "advance_n 0 inc p = p"
| "advance_n (Suc n) inc p = advance_n n inc (advance p inc)"

lemma slope_run_phase:
  assumes "\<not> fle r (Fin 0)"
  shows "\<exists>outs s'. mod_run (slope_tick lm) slope_update (replicate n (Cmd_tick b r)) s = Some (outs, s') \<and>
     sl_phase s' = advance_n n (sdiv (sl_rate s) r) (sl_phase s)"
proof (induction n arbitrary: s)
  case (Suc n)
  obtain out s1 where s1: "slope_tick lm b r s = Some (out, s1)"
    "sl_phase s1 = advance (sl_phase s) (sdiv (sl_rate s) r)" "sl_rate s1 = sl_rate s"
    using slope_tick_phase [OF assms] by blast
  from Suc [of s1] s1 show ?case by auto
qed simp

text \<open>Driven more slowly than its own rate the slope generator's phase leaves [0, 1]: at 46.875
  ticks per second (48 kHz in blocks of 1024 frames) and a rate of 100 Hz, which \<open>update\<close> accepts,
  the phase is above 1 after two ticks, because a tick reduces it at most once.\<close>

theorem slope_phase_escapes:
  "\<exists>s outs s'. slope_update ''rate'' (Fin 100) slope_new = Some s \<and>
    mod_run (slope_tick lm) slope_update (replicate 2 (Cmd_tick (Fin 0) (Fin (375/8)))) s = Some (outs, s') \<and>
    flt (Fin 1) (sl_phase s')"
proof -
  have "clampf (1/1000) 100 (Fin 100) = Fin 100" by code_simp
  then have u: "slope_update ''rate'' (Fin 100) slope_new = Some (slope_new\<lparr>sl_rate := Fin 100\<rparr>)" by (simp add: slope_update_def)
  have "\<not> fle (Fin (375/8)) (Fin 0)" by code_simp
  from slope_run_phase [OF this, of lm 2 "Fin 0" "slope_new\<lparr>sl_rate := Fin 100\<rparr>"] obtain outs s' where
    r: "mod_run (slope_tick lm) slope_update (replicate 2 (Cmd_tick (Fin 0) (Fin (375/8)))) (slope_new\<lparr>sl_rate := Fin 100\<rparr>) = Some (outs, s')"
    "sl_phase s' = advance_n 2 (sdiv (Fin 100) (Fin (375/8))) (Fin 0)" by (auto simp: slope_new_def)
  have "flt (Fin 1) (advance_n 2 (sdiv (Fin 100) (Fin (375/8))) (Fin 0))" by code_simp
  with u r show ?thesis by (intro exI [of _ "slope_new\<lparr>sl_rate := Fin 100\<rparr>"] exI [of _ outs] exI [of _ s']) simp
qed

end
