(* ===== verification/Mod_Register.thy ===== *)
theory Mod_Register
  imports Mod_Basic
begin

text \<open>
  The random sources: \<open>shift_register_modulator.cpp\<close>, \<open>fractal_modulator.cpp\<close> and
  \<open>stochastic_modulator.cpp\<close>.
\<close>

section \<open>Shift register\<close>

datatype sr_mode = Sr_lfsr | Sr_rungler | Sr_turing | Sr_open

record shift_register_modulator =
  sr_mode :: sr_mode
  sr_length :: nat
  sr_dac_bits :: nat
  sr_reg :: u32
  sr_gate_out :: bool
  sr_clock_rate :: fp
  sr_data :: fp
  sr_param :: fp
  sr_depth :: fp
  sr_clock_phase :: fp
  sr_rand :: u32

definition lfsr_taps :: "u32 list" where
  "lfsr_taps = [0, 0, 0x3, 0x6, 0xC, 0x14, 0x30, 0x60, 0xB8, 0x110, 0x240, 0x500, 0xE08, 0x1C80, 0x3802,
     0x6000, 0xD008, 0x12000, 0x20400, 0x72000, 0x90000, 0x140000, 0x300000, 0x420000, 0xE10000,
     0x1200000, 0x2000023, 0x4000013, 0x9000000, 0x14000000, 0x20000029, 0x48000000, 0x80200003]"

definition sr_mask :: "nat \<Rightarrow> u32" where
  "sr_mask n = (if n < 32 then push_bit n 1 - 1 else 0xFFFFFFFF)"

definition shift_register_new :: "sr_mode \<Rightarrow> int \<Rightarrow> int \<Rightarrow> shift_register_modulator" where
  "shift_register_new m len dac_bits =
     (let n = nat (max 2 (min 32 len)); d = nat (max 1 (min (min (int n) 8) dac_bits));
          reg = 0xACE1 AND sr_mask n in
      \<lparr>sr_mode = m, sr_length = n, sr_dac_bits = d, sr_reg = (if reg = 0 then 1 else reg), sr_gate_out = False,
       sr_clock_rate = Fin 2, sr_data = Fin (1/2), sr_param = Fin (1/2), sr_depth = Fin 1, sr_clock_phase = Fin 0,
       sr_rand = 0xACE1\<rparr>)"

definition lfsr_new_bit :: "nat \<Rightarrow> u32 \<Rightarrow> bool" where
  "lfsr_new_bit n reg =
     (let x0 = reg AND lfsr_taps ! n; x1 = x0 XOR drop_bit 16 x0; x2 = x1 XOR drop_bit 8 x1;
          x3 = x2 XOR drop_bit 4 x2; x4 = x3 XOR drop_bit 2 x3; x5 = x4 XOR drop_bit 1 x4 in
      x5 AND 1 \<noteq> 0)"

definition dac_output :: "shift_register_modulator \<Rightarrow> fp" where
  "dac_output s =
     (let raw = drop_bit (sr_length s - sr_dac_bits s) (sr_reg s) AND (push_bit (sr_dac_bits s) 1 - 1);
          max_val = of_int_fp F32 (uint (push_bit (sr_dac_bits s) 1 - 1 :: u32)) in
      ssub (smul (sdiv (of_int_fp F32 (uint raw)) max_val) (Fin 2)) (Fin 1))"

definition sr_msb :: "shift_register_modulator \<Rightarrow> bool" where
  "sr_msb s = (drop_bit (sr_length s - 1) (sr_reg s) AND 1 \<noteq> 0)"

text \<open>The new bit, and the random state after it.\<close>

definition sr_new_bit :: "shift_register_modulator \<Rightarrow> bool \<times> u32" where
  "sr_new_bit s = (case sr_mode s of
     Sr_lfsr \<Rightarrow> (lfsr_new_bit (sr_length s) (sr_reg s), sr_rand s)
   | Sr_rungler \<Rightarrow> (flt (sr_param s) (sr_data s) \<noteq> sr_msb s, sr_rand s)
   | Sr_turing \<Rightarrow>
       let r = lcg_next (sr_rand s) in
       (if flt (lcg_float r) (sr_param s) then \<not> sr_msb s else sr_msb s, r)
   | Sr_open \<Rightarrow> (flt (Fin (1/2)) (sr_data s), sr_rand s))"

definition sr_clock :: "shift_register_modulator \<Rightarrow> shift_register_modulator" where
  "sr_clock s = (case sr_new_bit s of (b, rand) \<Rightarrow>
     s\<lparr>sr_rand := rand, sr_reg := (push_bit 1 (sr_reg s) OR (if b then 1 else 0)) AND sr_mask (sr_length s), sr_gate_out := b\<rparr>)"

definition shift_register_tick ::
  "fp \<Rightarrow> fp \<Rightarrow> shift_register_modulator \<Rightarrow> (modulator_output \<times> shift_register_modulator) option" where
  "shift_register_tick beat tick_rate_hz s =
     (let held = output_new\<lparr>o_cv := smul (dac_output s) (sr_depth s), o_state := sr_reg s\<rparr> in
      if fle tick_rate_hz (Fin 0) then Some (held, s)
      else
        let ph = sadd (sr_clock_phase s) (sdiv (sr_clock_rate s) tick_rate_hz) in
        if flt ph (Fin 1) then Some (held, s\<lparr>sr_clock_phase := ph\<rparr>)
        else
          let s' = sr_clock (s\<lparr>sr_clock_phase := ssub ph (Fin 1)\<rparr>) in
          Some (output_new\<lparr>o_cv := smul (dac_output s') (sr_depth s'), o_gate := sr_gate_out s', o_state := sr_reg s'\<rparr>, s'))"

definition shift_register_update :: "string \<Rightarrow> fp \<Rightarrow> shift_register_modulator \<Rightarrow> shift_register_modulator option" where
  "shift_register_update key v s = Some (
     if key = ''clock_rate'' then s\<lparr>sr_clock_rate := clampf (1/1000) 1000 v\<rparr>
     else if key = ''data'' then s\<lparr>sr_data := clampf 0 1 v\<rparr>
     else if key = ''param'' then s\<lparr>sr_param := clampf 0 1 v\<rparr>
     else if key = ''depth'' then s\<lparr>sr_depth := clampf 0 1 v\<rparr>
     else s)"

section \<open>Fractal\<close>

definition kMaxOctaves :: nat where
  "kMaxOctaves = 8"

record fractal_modulator =
  fr_base_rate :: fp
  fr_lacunarity :: fp
  fr_persistence :: fp
  fr_threshold :: fp
  fr_depth :: fp
  fr_octaves :: int
  fr_shape :: int
  fr_phase :: "fp list"
  fr_held :: "fp list"
  fr_rand :: "u32 list"
  fr_prev_output :: fp
  fr_gate_out :: bool

definition kSeeds :: "u32 list" where
  "kSeeds = [0xACE1, 0xDEAD, 0xBEEF, 0xCAFE, 0x1234, 0x5678, 0x9ABC, 0xDEF0]"

definition kPhi :: fp where
  "kPhi = lit F32 (618034/1000000)"

definition fractal_new :: fractal_modulator where
  "fractal_new = \<lparr>fr_base_rate = lit F32 (1/10), fr_lacunarity = Fin 2, fr_persistence = Fin (1/2),
     fr_threshold = lit F32 (2/10), fr_depth = Fin 1, fr_octaves = 4, fr_shape = 0,
     fr_phase = map (\<lambda>i. f_mod (smul (of_int_fp F32 (int i)) kPhi) (Fin 1)) [0..<kMaxOctaves],
     fr_held = map (\<lambda>i. ssub (smul (lcg_float (lcg_next (kSeeds ! i))) (Fin 2)) (Fin 1)) [0..<kMaxOctaves],
     fr_rand = map lcg_next kSeeds, fr_prev_output = Fin 0, fr_gate_out = False\<rparr>"

definition fractal_sample :: "libm \<Rightarrow> fractal_modulator \<Rightarrow> nat \<Rightarrow> fp" where
  "fractal_sample lm s i =
     (if fr_shape s = 1 then ssub (Fin 1) (smul (Fin 4) (f_abs (ssub (fr_phase s ! i) (Fin (1/2)))))
      else if fr_shape s = 2 then fr_held s ! i
      else lm_sin lm (smul kTwoPi (fr_phase s ! i)))"

text \<open>The loop over the octaves: the modulator, then \<open>sum\<close>, \<open>norm\<close>, \<open>freq\<close> and \<open>amp\<close>.\<close>

fun fractal_loop :: "libm \<Rightarrow> fp \<Rightarrow> nat \<Rightarrow> nat \<Rightarrow> fractal_modulator \<Rightarrow> fp \<Rightarrow> fp \<Rightarrow> fp \<Rightarrow> fp \<Rightarrow> fractal_modulator \<times> fp \<times> fp" where
  "fractal_loop lm tick_rate_hz 0 i s acc nrm freq amp = (s, acc, nrm)"
| "fractal_loop lm tick_rate_hz (Suc n) i s acc nrm freq amp =
     (let inc = sdiv freq tick_rate_hz; ph = sadd (fr_phase s ! i) inc;
          s1 = (if fr_shape s = 2 \<and> fle (Fin 1) ph then
                  s\<lparr>fr_rand := (fr_rand s)[i := lcg_next (fr_rand s ! i)],
                    fr_held := (fr_held s)[i := ssub (smul (lcg_float (lcg_next (fr_rand s ! i))) (Fin 2)) (Fin 1)]\<rparr>
                else s);
          s2 = s1\<lparr>fr_phase := (fr_phase s1)[i := f_mod ph (Fin 1)]\<rparr> in
      fractal_loop lm tick_rate_hz n (Suc i) s2 (sadd acc (smul amp (fractal_sample lm s2 i))) (sadd nrm amp)
        (smul freq (fr_lacunarity s2)) (smul amp (fr_persistence s2)))"

definition fractal_tick :: "libm \<Rightarrow> fp \<Rightarrow> fp \<Rightarrow> fractal_modulator \<Rightarrow> (modulator_output \<times> fractal_modulator) option" where
  "fractal_tick lm beat tick_rate_hz s =
     (if fle tick_rate_hz (Fin 0) then
        Some (output_new\<lparr>o_cv := smul (fr_prev_output s) (fr_depth s)\<rparr>, s\<lparr>fr_gate_out := False\<rparr>)
      else
        case fractal_loop lm tick_rate_hz (nat (fr_octaves s)) 0 s (Fin 0) (Fin 0) (fr_base_rate s) (Fin 1) of
          (s1, acc, nrm) \<Rightarrow>
          let output = (if flt (Fin 0) nrm then sdiv acc nrm else Fin 0);
              gate = (fle (fr_threshold s1) output \<and> flt (fr_prev_output s1) (fr_threshold s1)) in
          Some (output_new\<lparr>o_cv := smul (clampf (- 1) 1 output) (fr_depth s1), o_gate := gate\<rparr>,
            s1\<lparr>fr_gate_out := gate, fr_prev_output := output\<rparr>))"

definition fractal_update :: "string \<Rightarrow> fp \<Rightarrow> fractal_modulator \<Rightarrow> fractal_modulator option" where
  "fractal_update key v s =
     (if key = ''base_rate'' then Some (s\<lparr>fr_base_rate := clampf (1/1000) 100 v\<rparr>)
      else if key = ''octaves'' then map_option (\<lambda>i. s\<lparr>fr_octaves := i\<rparr>) (clampi 1 8 v)
      else if key = ''lacunarity'' then Some (s\<lparr>fr_lacunarity := clampf (11/10) 8 v\<rparr>)
      else if key = ''persistence'' then Some (s\<lparr>fr_persistence := clampf (1/100) 2 v\<rparr>)
      else if key = ''shape'' then map_option (\<lambda>i. s\<lparr>fr_shape := i\<rparr>) (clampi 0 2 v)
      else if key = ''threshold'' then Some (s\<lparr>fr_threshold := clampf (- 1) 1 v\<rparr>)
      else if key = ''depth'' then Some (s\<lparr>fr_depth := clampf 0 1 v\<rparr>)
      else Some s)"

section \<open>Stochastic\<close>

definition kMaxLength :: nat where
  "kMaxLength = 16"

record stochastic_modulator =
  st_rate :: fp
  st_bias :: fp
  st_jitter :: fp
  st_spread :: fp
  st_deja_vu :: fp
  st_depth :: fp
  st_length :: int
  st_steps :: int
  st_clock_phase :: fp
  st_next_threshold :: fp
  st_cv_out :: fp
  st_gate_out :: bool
  st_cv_buf :: "fp list"
  st_gate_buf :: "bool list"
  st_write_pos :: nat
  st_read_pos :: nat
  st_rand :: u32

text \<open>The constructor draws two numbers per slot.\<close>

fun stochastic_seed :: "nat \<Rightarrow> u32 \<Rightarrow> (fp \<times> bool) list \<times> u32" where
  "stochastic_seed 0 r = ([], r)"
| "stochastic_seed (Suc n) r =
     (let r1 = lcg_next r; r2 = lcg_next r1 in
      case stochastic_seed n r2 of (xs, r') \<Rightarrow>
        ((ssub (smul (lcg_float r1) (Fin 2)) (Fin 1), flt (Fin (1/2)) (lcg_float r2)) # xs, r'))"

definition stochastic_new :: stochastic_modulator where
  "stochastic_new = (case stochastic_seed kMaxLength 0xACE1 of (xs, r) \<Rightarrow>
     \<lparr>st_rate = Fin 2, st_bias = Fin (1/2), st_jitter = Fin 0, st_spread = Fin (1/2), st_deja_vu = Fin 0, st_depth = Fin 1,
      st_length = 8, st_steps = 0, st_clock_phase = Fin 0, st_next_threshold = Fin 1, st_cv_out = Fin 0, st_gate_out = False,
      st_cv_buf = map fst xs, st_gate_buf = map snd xs, st_write_pos = 0, st_read_pos = 0, st_rand = r\<rparr>)"

definition generate_cv :: "stochastic_modulator \<Rightarrow> fp \<times> u32" where
  "generate_cv s =
     (let r = lcg_next (st_rand s);
          cv = clampf 0 1 (sadd (st_bias s) (smul (smul (ssub (lcg_float r) (Fin (1/2))) (st_spread s)) (Fin 2)));
          q = (if 0 < st_steps s
               then sdiv (f_round (smul cv (of_int_fp F32 (st_steps s)))) (of_int_fp F32 (st_steps s)) else cv) in
      (ssub (smul q (Fin 2)) (Fin 1), r))"

text \<open>Writing a fresh pair of values, and emitting the pair at the read position.\<close>

definition stochastic_write :: "stochastic_modulator \<Rightarrow> stochastic_modulator" where
  "stochastic_write s =
     (let r = lcg_next (st_rand s); new_gate = flt (lcg_float r) (st_bias s) in
      case generate_cv (s\<lparr>st_rand := r\<rparr>) of (new_cv, r') \<Rightarrow>
        s\<lparr>st_rand := r', st_gate_buf := (st_gate_buf s)[st_write_pos s := new_gate],
          st_cv_buf := (st_cv_buf s)[st_write_pos s := new_cv],
          st_write_pos := (st_write_pos s + 1) mod nat (st_length s)\<rparr>)"

definition stochastic_emit :: "bool \<Rightarrow> stochastic_modulator \<Rightarrow> modulator_output \<times> stochastic_modulator" where
  "stochastic_emit freeze s =
     (let gate = st_gate_buf s ! st_read_pos s; cv = st_cv_buf s ! st_read_pos s in
      (output_new\<lparr>o_cv := smul cv (st_depth s), o_gate := gate\<rparr>,
       s\<lparr>st_gate_out := gate, st_cv_out := cv,
         st_read_pos := (if freeze then st_read_pos s else (st_read_pos s + 1) mod nat (st_length s))\<rparr>))"

text \<open>A clock edge: the draws happen in the order of the short-circuit conditions.\<close>

definition stochastic_event :: "libm \<Rightarrow> stochastic_modulator \<Rightarrow> modulator_output \<times> stochastic_modulator" where
  "stochastic_event lm s =
     (let r1 = lcg_next (st_rand s);
          u = fmax (lcg_float r1) (lit F32 (1/1000000));
          thr = lm_lerp lm (Fin 1) (fneg (lm_log lm u)) (st_jitter s);
          prob_replay = fmin (smul (st_deja_vu s) (Fin 2)) (Fin 1);
          prob_freeze = fmax (smul (ssub (st_deja_vu s) (Fin (1/2))) (Fin 2)) (Fin 0);
          d1 = flt (Fin 0) (st_deja_vu s);
          r2 = (if d1 then lcg_next r1 else r1);
          replay = (d1 \<and> flt (lcg_float r2) prob_replay);
          d2 = flt (Fin (1/2)) (st_deja_vu s);
          r3 = (if d2 then lcg_next r2 else r2);
          freeze = (d2 \<and> flt (lcg_float r3) prob_freeze);
          s1 = s\<lparr>st_next_threshold := thr, st_rand := r3\<rparr> in
      stochastic_emit freeze (if replay then s1 else stochastic_write s1))"

definition stochastic_tick :: "libm \<Rightarrow> fp \<Rightarrow> fp \<Rightarrow> stochastic_modulator \<Rightarrow> (modulator_output \<times> stochastic_modulator) option" where
  "stochastic_tick lm beat tick_rate_hz s0 =
     (let s = s0\<lparr>st_gate_out := False\<rparr>; held = output_new\<lparr>o_cv := smul (st_cv_out s) (st_depth s)\<rparr> in
      if fle tick_rate_hz (Fin 0) then Some (held, s)
      else
        let ph = sadd (st_clock_phase s) (sdiv (st_rate s) tick_rate_hz) in
        if flt ph (st_next_threshold s) then Some (held, s\<lparr>st_clock_phase := ph\<rparr>)
        else Some (stochastic_event lm (s\<lparr>st_clock_phase := ssub ph (st_next_threshold s)\<rparr>)))"

definition stochastic_update :: "string \<Rightarrow> fp \<Rightarrow> stochastic_modulator \<Rightarrow> stochastic_modulator option" where
  "stochastic_update key v s =
     (if key = ''rate'' then Some (s\<lparr>st_rate := clampf (1/1000) 100 v\<rparr>)
      else if key = ''bias'' then Some (s\<lparr>st_bias := clampf 0 1 v\<rparr>)
      else if key = ''jitter'' then Some (s\<lparr>st_jitter := clampf 0 1 v\<rparr>)
      else if key = ''spread'' then Some (s\<lparr>st_spread := clampf 0 1 v\<rparr>)
      else if key = ''deja_vu'' then Some (s\<lparr>st_deja_vu := clampf 0 1 v\<rparr>)
      else if key = ''depth'' then Some (s\<lparr>st_depth := clampf 0 1 v\<rparr>)
      else if key = ''length'' then map_option (\<lambda>i. s\<lparr>st_length := i\<rparr>) (clampi 1 16 v)
      else if key = ''steps'' then map_option (\<lambda>i. s\<lparr>st_steps := i\<rparr>) (clampi 0 16 v)
      else Some s)"

section \<open>The shift register keeps its width and its range\<close>

definition sr_invar :: "shift_register_modulator \<Rightarrow> bool" where
  "sr_invar s = (2 \<le> sr_length s \<and> sr_length s \<le> 32 \<and> 1 \<le> sr_dac_bits s \<and> sr_dac_bits s \<le> 8 \<and>
     sr_dac_bits s \<le> sr_length s \<and> take_bit (sr_length s) (sr_reg s) = sr_reg s \<and> in_range 0 1 (sr_depth s))"

lemma sr_mask_eq: "n \<le> 32 \<Longrightarrow> sr_mask n = mask n"
proof (cases "n < 32")
  case True
  then show ?thesis by (simp add: sr_mask_def mask_eq_exp_minus_1 push_bit_eq_mult)
next
  case False
  assume "n \<le> 32"
  then have "n = 32" using False by simp
  then show ?thesis by (simp add: sr_mask_def mask_eq_exp_minus_1)
qed

lemma dac_output_range: "1 \<le> sr_dac_bits s \<Longrightarrow> sr_dac_bits s \<le> 8 \<Longrightarrow> in_range (- 1) 1 (dac_output s)"
proof -
  assume d: "1 \<le> sr_dac_bits s" "sr_dac_bits s \<le> 8"
  let ?d = "sr_dac_bits s"
  define raw where "raw = drop_bit (sr_length s - ?d) (sr_reg s) AND mask ?d"
  have m: "(push_bit ?d 1 - 1 :: u32) = mask ?d" by (simp add: mask_eq_exp_minus_1 push_bit_eq_mult)
  have "(2::int) ^ 1 \<le> 2 ^ ?d" "(2::int) ^ ?d \<le> 2 ^ 8" using d by (intro power_increasing; simp)+
  then have p: "2 \<le> (2::int) ^ ?d" "(2::int) ^ ?d \<le> 256" by simp_all
  have "(mask ?d :: u32) = word_of_int (2 ^ ?d - 1)" by (simp add: mask_eq_exp_minus_1)
  then have "uint (mask ?d :: u32) = (2 ^ ?d - 1) mod 2 ^ 32" by (simp only: uint_word_of_int) simp
  moreover have "0 \<le> (2::int) ^ ?d - 1" "(2::int) ^ ?d - 1 < 2 ^ 32" using p by simp_all
  ultimately have um: "uint (mask ?d :: u32) = 2 ^ ?d - 1" by (metis mod_pos_pos_trivial)
  have "uint raw = take_bit ?d (uint (drop_bit (sr_length s - ?d) (sr_reg s)))"
    by (simp add: raw_def unsigned_take_bit_eq flip: take_bit_eq_mask)
  then have ur: "0 \<le> uint raw" "uint raw \<le> 2 ^ ?d - 1"
    using take_bit_int_less_exp [of ?d "uint (drop_bit (sr_length s - ?d) (sr_reg s))"] by simp_all
  have v: "fin_val (of_int_fp F32 i) = Some (of_int i)" if "0 \<le> i" "i \<le> 256" for i
    using that by (intro fin_val_of_int_fp fin_rep_F32_int) simp_all
  define u M where "u = uint raw" and "M = (2::int) ^ ?d - 1"
  have "0 \<le> u" "u \<le> M" "1 \<le> M" "M \<le> 256" using ur p by (simp_all add: u_def M_def)
  moreover from this have "(0::rat) \<le> of_int u" "of_int u \<le> (of_int M :: rat)" "(0::rat) < of_int M" by simp_all
  ultimately have "in_range 0 1 (sdiv (of_int_fp F32 u) (of_int_fp F32 M))" by (intro ratio_range [OF v v]) simp_all
  then have "in_range 0 1 (sdiv (of_int_fp F32 (uint raw)) (of_int_fp F32 (2 ^ ?d - 1)))" by (simp add: u_def M_def)
  then show ?thesis unfolding dac_output_def Let_def m um raw_def [symmetric] by (rule bipolar_range)
qed

lemma sr_clock_fields:
  "sr_length (sr_clock s) = sr_length s" "sr_dac_bits (sr_clock s) = sr_dac_bits s" "sr_depth (sr_clock s) = sr_depth s"
  "sr_mode (sr_clock s) = sr_mode s"
  "sr_reg (sr_clock s) = (push_bit 1 (sr_reg s) OR (if fst (sr_new_bit s) then 1 else 0)) AND sr_mask (sr_length s)"
  by (simp_all add: sr_clock_def split: prod.splits)

lemma sr_clock_invar: "sr_invar s \<Longrightarrow> sr_invar (sr_clock s)"
  by (simp add: sr_invar_def sr_clock_fields sr_mask_eq flip: take_bit_eq_mask)

lemma shift_register_tick_ok:
  assumes "sr_invar s"
  shows "\<exists>out s'. shift_register_tick b r s = Some (out, s') \<and> sr_invar s' \<and> in_range (- 1) 1 (o_cv out)"
proof -
  have cv: "in_range (- 1) 1 (smul (dac_output t) (sr_depth t))" if "sr_invar t" for t
    using that by (intro depth_range dac_output_range) (auto simp: sr_invar_def)
  have "sr_invar (s\<lparr>sr_clock_phase := x\<rparr>)" for x using assms by (simp add: sr_invar_def)
  then show ?thesis using assms cv sr_clock_invar by (simp add: shift_register_tick_def Let_def)
qed

lemma shift_register_update_ok:
  "sr_invar s \<Longrightarrow> v \<noteq> NaN \<Longrightarrow> \<exists>s'. shift_register_update k v s = Some s' \<and> sr_invar s'"
  by (auto simp: shift_register_update_def sr_invar_def)

interpretation shift_register: bounded_modulator shift_register_tick shift_register_update "\<lambda>n. sr_invar"
  "\<lambda>r. True" "\<lambda>k v. v \<noteq> NaN" "- 1" 1
  by unfold_locales (auto intro: shift_register_tick_ok shift_register_update_ok)

lemma shift_register_new_invar: "sr_invar (shift_register_new m len dac)"
proof -
  define n where "n = nat (max 2 (min 32 len))"
  define d where "d = nat (max 1 (min (min (int n) 8) dac))"
  define reg :: u32 where "reg = 0xACE1 AND sr_mask n"
  have n: "2 \<le> n" "n \<le> 32" unfolding n_def by linarith+
  have d: "1 \<le> d" "d \<le> 8" "d \<le> n" using n unfolding d_def by linarith+
  have "take_bit n reg = reg" using n(2) by (simp add: reg_def sr_mask_eq flip: take_bit_eq_mask)
  moreover have "take_bit n (1 :: u32) = 1" using n(1) by simp
  moreover have "shift_register_new m len dac =
    \<lparr>sr_mode = m, sr_length = n, sr_dac_bits = d, sr_reg = (if reg = 0 then 1 else reg), sr_gate_out = False,
       sr_clock_rate = Fin 2, sr_data = Fin (1/2), sr_param = Fin (1/2), sr_depth = Fin 1, sr_clock_phase = Fin 0,
       sr_rand = 0xACE1\<rparr>"
    unfolding shift_register_new_def Let_def n_def [symmetric] d_def [symmetric] reg_def [symmetric] by (rule refl)
  ultimately show ?thesis using n d by (simp add: sr_invar_def)
qed

section \<open>The feedback register never dies\<close>

definition taps_ok :: "nat \<Rightarrow> bool" where
  "taps_ok n = lfsr_new_bit n (2 ^ (n - 1))"

lemma taps_top_bit: "list_all taps_ok [2..<33]"
  by (simp add: upt_rec taps_ok_def lfsr_new_bit_def lfsr_taps_def Let_def)

lemma lfsr_nonzero:
  assumes "2 \<le> n" "n \<le> 32" "take_bit n reg = reg" "reg \<noteq> 0"
  shows "(push_bit 1 reg OR (if lfsr_new_bit n reg then 1 else 0)) AND sr_mask n \<noteq> 0"
proof
  assume z: "(push_bit 1 reg OR (if lfsr_new_bit n reg then 1 else 0)) AND sr_mask n = 0"
  then have bits: "\<not> bit ((push_bit 1 reg OR (if lfsr_new_bit n reg then 1 else 0)) AND mask n) i" for i
    using assms(2) by (simp add: sr_mask_eq)
  have nb: "\<not> lfsr_new_bit n reg" using bits [of 0] assms(1) by (auto simp: bit_and_iff bit_or_iff bit_mask_iff)
  have low: "\<not> bit reg i" if "i < n - 1" for i 
    using bits [of "Suc i"] that assms(2) unfolding bit_and_iff bit_or_iff bit_push_bit_iff bit_mask_iff by auto
  have high: "\<not> bit reg i" if "n \<le> i" for i
    using assms(3) that by (metis bit_take_bit_iff not_le)
  have top: "bit reg i \<longleftrightarrow> i = n - 1 \<and> bit reg (n - 1)" for i
  proof -
    have "i < n - 1 \<or> i = n - 1 \<or> n \<le> i" by linarith
    then show ?thesis using low [of i] high [of i] assms(1) by auto
  qed
  have b: "bit reg (n - 1)" using assms(4) top by (metis bit_eqI bit_0_eq bot_apply bot_bool_def)
  have "reg = 2 ^ (n - 1)"
  proof (rule bit_word_eqI)
    fix i assume "i < LENGTH(32)"
    then show "bit reg i = bit (2 ^ (n - 1) :: u32) i" using top [of i] b unfolding bit_exp_iff by (cases "i = n - 1") simp_all
  qed
  moreover have "n \<in> set [2..<33]" using assms(1,2) by (simp only: atLeastLessThan_upt [symmetric] atLeastLessThan_iff) simp
  then have "lfsr_new_bit n (2 ^ (n - 1))" using taps_top_bit unfolding list_all_iff taps_ok_def by blast
  ultimately show False using nb by simp
qed


lemma sr_clock_nonzero: "sr_invar s \<Longrightarrow> sr_mode s = Sr_lfsr \<Longrightarrow> sr_reg s \<noteq> 0 \<Longrightarrow> sr_reg (sr_clock s) \<noteq> 0"
  using lfsr_nonzero [of "sr_length s" "sr_reg s"] by (simp add: sr_invar_def sr_clock_fields sr_new_bit_def)

definition lfsr_live :: "shift_register_modulator \<Rightarrow> bool" where
  "lfsr_live s = (sr_invar s \<and> sr_mode s = Sr_lfsr \<and> sr_reg s \<noteq> 0)"

lemma lfsr_tick_live:
  assumes "lfsr_live s"
  shows "\<exists>out s'. shift_register_tick b r s = Some (out, s') \<and> lfsr_live s' \<and> o_state out = sr_reg s'"
proof -
  have "lfsr_live (s\<lparr>sr_clock_phase := x\<rparr>)" for x using assms by (simp add: lfsr_live_def sr_invar_def)
  moreover have "lfsr_live (sr_clock t)" if "lfsr_live t" for t
    using that sr_clock_nonzero [of t] sr_clock_invar [of t] by (simp add: lfsr_live_def sr_clock_fields)
  ultimately show ?thesis using assms by (simp add: shift_register_tick_def Let_def)
qed

lemma lfsr_update_live: "lfsr_live s \<Longrightarrow> v \<noteq> NaN \<Longrightarrow> \<exists>s'. shift_register_update k v s = Some s' \<and> lfsr_live s'"
  by (auto simp: shift_register_update_def sr_invar_def lfsr_live_def)

lemma lfsr_run_live:
  "lfsr_live s \<Longrightarrow> list_all (cmd_ok (\<lambda>r. True) (\<lambda>k v. v \<noteq> NaN)) cs \<Longrightarrow>
   \<exists>outs s'. mod_run shift_register_tick shift_register_update cs s = Some (outs, s') \<and>
     list_all (\<lambda>out. o_state out \<noteq> 0) outs"
proof (induction cs arbitrary: s)
  case (Cons c cs)
  show ?case
  proof (cases c)
    case (Cmd_tick b r)
    obtain out s1 where s1: "shift_register_tick b r s = Some (out, s1)" "lfsr_live s1" "o_state out = sr_reg s1"
      using lfsr_tick_live [OF Cons.prems(1)] by blast
    from Cons.IH [OF s1(2)] Cons.prems(2) s1 Cmd_tick show ?thesis by (auto simp: lfsr_live_def)
  next
    case (Cmd_update k v)
    then have "v \<noteq> NaN" using Cons.prems(2) by (simp add: cmd_ok_def)
    from lfsr_update_live [OF Cons.prems(1) this] obtain s1 where s1: "shift_register_update k v s = Some s1" "lfsr_live s1" by blast
    from Cons.IH [OF s1(2)] Cons.prems(2) s1 Cmd_update show ?thesis by auto
  qed
qed simp

section \<open>The stochastic source keeps its buffers in range\<close>

definition st_invar :: "stochastic_modulator \<Rightarrow> bool" where
  "st_invar s = (in_range 0 1 (st_bias s) \<and> in_range 0 1 (st_spread s) \<and> in_range 0 1 (st_depth s) \<and>
     in_range (- 1) 1 (st_cv_out s) \<and> list_all (in_range (- 1) 1) (st_cv_buf s) \<and>
     length (st_cv_buf s) = 16 \<and> length (st_gate_buf s) = 16 \<and> st_write_pos s < 16 \<and> st_read_pos s < 16 \<and>
     1 \<le> st_length s \<and> st_length s \<le> 16 \<and> 0 \<le> st_steps s \<and> st_steps s \<le> 16)"

lemma generate_cv_range:
  assumes "in_range 0 1 (st_bias s)" "in_range 0 1 (st_spread s)" "0 \<le> st_steps s" "st_steps s \<le> 16"
  shows "in_range (- 1) 1 (fst (generate_cv s))"
proof -
  let ?r = "lcg_float (lcg_next (st_rand s))"
  let ?x = "sadd (st_bias s) (smul (smul (ssub ?r (Fin (1/2))) (st_spread s)) (Fin 2))"
  have "in_range (- (1/2)) (1/2) (ssub ?r (Fin (1/2)))"
    by (rule in_range_fsub [where a = 0 and b = 1 and c = "1/2" and d = "1/2"]) (auto simp: lcg_float_range)
  then have "in_range (- (1/2)) (1/2) (smul (ssub ?r (Fin (1/2))) (st_spread s))"
    using assms(2) by (intro in_range_fmul_unit) auto
  then have "in_range (- 1) 1 (smul (smul (ssub ?r (Fin (1/2))) (st_spread s)) (Fin 2))" by (rule in_range_scale) auto
  then have "in_range (- 1) 2 ?x" using assms(1) by (intro in_range_fadd [where a = 0 and b = 1 and c = "- 1" and d = 1]) auto
  then have cv: "in_range 0 1 (clampf 0 1 ?x)" by (intro clampf_unit) auto
  let ?n = "of_int_fp F32 (st_steps s)"
  have n: "fin_val ?n = Some (of_int (st_steps s))" using assms(3,4) by (intro fin_val_of_int_fp fin_rep_F32_int) simp_all
  have "in_range 0 1 (sdiv (f_round (smul (clampf 0 1 ?x) ?n)) ?n)" if pos: "0 < st_steps s"
  proof -
    have "in_range (of_int (st_steps s)) (of_int (st_steps s)) ?n" using n by (simp add: in_range_def)
    moreover have "0 \<le> p * q \<and> p * q \<le> of_int (st_steps s)"
      if "0 \<le> p" "p \<le> 1" "of_int (st_steps s) \<le> q" "q \<le> of_int (st_steps s)" for p q :: rat
    proof -
      have "q = of_int (st_steps s)" using that by simp
      then show ?thesis using that pos by (simp add: mult_left_le_one_le)
    qed
    moreover have "fin_rep F32 (of_int (st_steps s))" using assms(3,4) by (intro fin_rep_F32_int) simp
    ultimately have "in_range 0 (of_int (st_steps s)) (smul (clampf 0 1 ?x) ?n)"
      using in_range_fmul [OF fmt_ok_F32 fin_rep_0 [OF fmt_ok_F32] _ cv] by blast
    then have "in_range (of_int 0) (of_int (st_steps s)) (f_round (smul (clampf 0 1 ?x) ?n))" by (intro in_range_round) simp
    then obtain q where q: "fin_val (f_round (smul (clampf 0 1 ?x) ?n)) = Some q" "0 \<le> q" "q \<le> of_int (st_steps s)" by auto
    show ?thesis using ratio_range [OF q(1) n q(2,3)] pos by simp
  qed
  then show ?thesis unfolding generate_cv_def Let_def using cv by (auto intro: bipolar_range)
qed

lemma pos_mod_16: "1 \<le> n \<Longrightarrow> n \<le> 16 \<Longrightarrow> k mod nat n < 16"
  using mod_less_divisor [of "nat n" k] by linarith

lemma list_all_update: "list_all P xs \<Longrightarrow> P x \<Longrightarrow> list_all P (xs[i := x])"
  unfolding list_all_iff using set_update_subset_insert [of xs i x] by blast

lemma stochastic_write_invar:
  assumes "st_invar s"
  shows "st_invar (stochastic_write s)"
proof -
  obtain c r5 where g: "generate_cv (s\<lparr>st_rand := lcg_next (st_rand s)\<rparr>) = (c, r5)" by fastforce
  then have "in_range (- 1) 1 c" using generate_cv_range [of "s\<lparr>st_rand := lcg_next (st_rand s)\<rparr>"] assms by (simp add: st_invar_def)
  then show ?thesis using assms g by (simp add: stochastic_write_def Let_def st_invar_def list_all_update pos_mod_16)
qed

lemma stochastic_emit_ok: "st_invar s \<Longrightarrow> st_invar (snd (stochastic_emit f s)) \<and> in_range (- 1) 1 (o_cv (fst (stochastic_emit f s)))"
proof -
  assume inv: "st_invar s"
  then have "in_range (- 1) 1 (st_cv_buf s ! st_read_pos s)" by (simp add: st_invar_def list_all_length)
  then show ?thesis using inv depth_range by (simp add: stochastic_emit_def Let_def st_invar_def pos_mod_16)
qed

lemma stochastic_event_ok: "st_invar s \<Longrightarrow> st_invar (snd (stochastic_event lm s)) \<and> in_range (- 1) 1 (o_cv (fst (stochastic_event lm s)))"
proof -
  assume inv: "st_invar s"
  have a: "st_invar (s\<lparr>st_next_threshold := t, st_rand := r\<rparr>)" for t r using inv by (simp add: st_invar_def)
  then have "st_invar (if rp then s\<lparr>st_next_threshold := t, st_rand := r\<rparr> else stochastic_write (s\<lparr>st_next_threshold := t, st_rand := r\<rparr>))" for rp t r
    using stochastic_write_invar by simp
  from stochastic_emit_ok [OF this] show ?thesis unfolding stochastic_event_def Let_def by blast
qed

lemma stochastic_tick_ok:
  assumes "st_invar s"
  shows "\<exists>out s'. stochastic_tick lm b r s = Some (out, s') \<and> st_invar s' \<and> in_range (- 1) 1 (o_cv out)"
proof -
  have i: "st_invar (s\<lparr>st_gate_out := g, st_clock_phase := x\<rparr>)" "st_invar (s\<lparr>st_gate_out := g\<rparr>)" for g x
    using assms by (simp_all add: st_invar_def)
  have "in_range (- 1) 1 (smul (st_cv_out s) (st_depth s))" using assms by (intro depth_range) (simp_all add: st_invar_def)
  moreover have "\<exists>out s'. stochastic_event lm t = (out, s') \<and> st_invar s' \<and> in_range (- 1) 1 (o_cv out)" if "st_invar t" for t
    using stochastic_event_ok [OF that, of lm] by (cases "stochastic_event lm t") auto
  ultimately show ?thesis using i by (simp add: stochastic_tick_def Let_def)
qed

text \<open>The parameters that are converted to an integer take values that fit.\<close>

definition int_value_ok :: "string list \<Rightarrow> string \<Rightarrow> fp \<Rightarrow> bool" where
  "int_value_ok keys k v = (v \<noteq> NaN \<and> (k \<in> set keys \<longrightarrow> to_int32 (f_round v) \<noteq> None))"

lemma clampi_ok: "to_int32 (f_round v) \<noteq> None \<Longrightarrow> lo \<le> hi \<Longrightarrow> \<exists>i. clampi lo hi v = Some i \<and> lo \<le> i \<and> i \<le> hi"
  by (auto simp: clampi_def)

lemma stochastic_update_ok:
  assumes "st_invar s" "int_value_ok [''length'', ''steps''] k v"
  shows "\<exists>s'. stochastic_update k v s = Some s' \<and> st_invar s'"
proof -
  have v: "v \<noteq> NaN" using assms(2) by (simp add: int_value_ok_def)
  consider "k = ''length''" | "k = ''steps''" | "k \<noteq> ''length''" "k \<noteq> ''steps''" by blast
  then show ?thesis
  proof cases
    case 1
    then obtain i where "clampi 1 16 v = Some i" "1 \<le> i" "i \<le> 16" using assms(2) clampi_ok [of v 1 16] by (auto simp: int_value_ok_def)
    then show ?thesis using 1 assms(1) by (simp add: stochastic_update_def st_invar_def)
  next
    case 2
    then obtain i where "clampi 0 16 v = Some i" "0 \<le> i" "i \<le> 16" using assms(2) clampi_ok [of v 0 16] by (auto simp: int_value_ok_def)
    then show ?thesis using 2 assms(1) by (simp add: stochastic_update_def st_invar_def)
  next
    case 3
    then show ?thesis using v assms(1) by (simp add: stochastic_update_def st_invar_def)
  qed
qed

interpretation stochastic: bounded_modulator "stochastic_tick lm" stochastic_update "\<lambda>n. st_invar" "\<lambda>r. True"
  "int_value_ok [''length'', ''steps'']" "- 1" 1 for lm
  by unfold_locales (auto intro: stochastic_tick_ok stochastic_update_ok)

lemma stochastic_seed_range:
  "list_all (in_range (- 1) 1) (map fst (fst (stochastic_seed n r))) \<and> length (fst (stochastic_seed n r)) = n"
proof (induction n arbitrary: r)
  case (Suc n)
  have "in_range (- 1) 1 (ssub (smul (lcg_float x) (Fin 2)) (Fin 1))" for x by (rule bipolar_range [OF lcg_float_range])
  with Suc show ?case by (auto simp: Let_def split: prod.splits) (metis fst_conv)+
qed simp

lemma stochastic_new_invar: "st_invar stochastic_new"
proof -
  obtain xs r where e: "stochastic_seed kMaxLength 0xACE1 = (xs, r)" by fastforce
  with stochastic_seed_range [of kMaxLength "0xACE1"] show ?thesis
    by (simp add: stochastic_new_def st_invar_def kMaxLength_def)
qed

section \<open>The octaves of the fractal source\<close>

definition fr_invar :: "fractal_modulator \<Rightarrow> bool" where
  "fr_invar s = (in_range 0 100 (fr_base_rate s) \<and> in_range 1 8 (fr_lacunarity s) \<and> in_range 0 2 (fr_persistence s) \<and>
     in_range 0 1 (fr_depth s) \<and> 1 \<le> fr_octaves s \<and> fr_octaves s \<le> 8 \<and>
     length (fr_phase s) = 8 \<and> length (fr_held s) = 8 \<and> length (fr_rand s) = 8 \<and>
     list_all (in_range 0 1) (fr_phase s) \<and> list_all (in_range (- 1) 1) (fr_held s) \<and> in_range (- 1) 1 (fr_prev_output s))"

lemma f_mod_one: "in_range 0 b x \<Longrightarrow> in_range 0 1 (f_mod x (Fin 1))"
proof -
  assume "in_range 0 b x"
  then obtain r where r: "fin_val x = Some r" "0 \<le> r" by auto
  have "0 \<le> r - of_int \<lfloor>r\<rfloor>" "r - of_int \<lfloor>r\<rfloor> \<le> 1" using floor_correct [of r] by linarith+
  moreover have "trunc_fp r = \<lfloor>r\<rfloor>" using r(2) by simp
  ultimately show ?thesis using r by (simp add: f_mod_def in_range_def)
qed

lemma fractal_sample_range:
  assumes "trig_ok lm" "fr_invar s" "i < 8"
  shows "in_range (- 1) 1 (fractal_sample lm s i)"
proof -
  let ?p = "fr_phase s ! i"
  have p: "in_range 0 1 ?p" and h: "in_range (- 1) 1 (fr_held s ! i)" using assms(2,3) by (simp_all add: fr_invar_def list_all_length)
  have "in_range (- (1/2)) (1/2) (ssub ?p (Fin (1/2)))" using p by (intro in_range_fsub [where a = 0 and b = 1 and c = "1/2" and d = "1/2"]) auto
  then have "in_range 0 (1/2) (f_abs (ssub ?p (Fin (1/2))))" by (auto simp: in_range_iff abs_le_iff)
  then have "in_range 0 2 (smul (Fin 4) (f_abs (ssub ?p (Fin (1/2)))))"
    by (intro in_range_fmul [where a = 4 and b = 4 and c = 0 and d = "1/2"]) auto
  then have t: "in_range (- 1) 1 (ssub (Fin 1) (smul (Fin 4) (f_abs (ssub ?p (Fin (1/2))))))"
    by (intro in_range_fsub [where a = 1 and b = 1 and c = 0 and d = 2]) auto
  have "in_range 0 7 (smul kTwoPi ?p)"
    using p by (intro in_range_fmul [where a = 0 and b = 7 and c = 0 and d = 1]) (auto simp: kTwoPi_def intro: mult_unit_range [THEN conjunct2])
  then have "fin_val (smul kTwoPi ?p) \<noteq> None" by auto
  then have "in_range (- 1) 1 (lm_sin lm (smul kTwoPi ?p))" using assms(1) by (simp add: trig_ok_def)
  then show ?thesis using t h by (simp add: fractal_sample_def)
qed

lemma fin_rep_F32_pow2: "k \<le> 100 \<Longrightarrow> fin_rep F32 (2 ^ k)"
proof -
  assume k: "k \<le> 100"
  have "rep F32 (2 ^ k)" unfolding rep_def by (intro exI [of _ 1] exI [of _ "int k"]) (simp add: F32_def)
  moreover have "(2::rat) ^ k < 2 powi emax F32"
    using power_int_strict_increasing [of "int k" "emax F32" "2::rat"] k by (simp add: F32_def)
  ultimately show ?thesis by (simp add: fin_rep_def)
qed

text \<open>The running sum never exceeds the running norm, whatever the rounding does.\<close>

definition fr_balanced :: "rat \<Rightarrow> fp \<Rightarrow> fp \<Rightarrow> bool" where
  "fr_balanced b acc nrm = (\<exists>a m. fin_val acc = Some a \<and> fin_val nrm = Some m \<and> \<bar>a\<bar> \<le> m \<and> m \<le> b)"

definition fr_amp :: "rat \<Rightarrow> fp \<Rightarrow> bool" where
  "fr_amp b amp = (\<exists>m. fin_val amp = Some m \<and> rep F32 m \<and> 0 \<le> m \<and> m \<le> b)"

lemma fin_val_add_512:
  assumes "fin_val a = Some x" "fin_val b = Some y" "\<bar>x + y\<bar> \<le> 512"
  shows "fin_val (sadd a b) = Some (rnd_val F32 (x + y))"
proof (cases "x + y = 0")
  case True
  then show ?thesis using assms rnd_val_id [of F32 0] by (simp add: fadd_def)
next
  case False
  then show ?thesis using assms fin_val_rnd(1) [of F32 "- 512" 512 "x + y"] by (simp add: fadd_def abs_le_iff)
qed

lemma fr_balanced_step:
  assumes "fr_balanced (2 ^ i) acc nrm" "fr_amp (2 ^ i) amp" "in_range (- 1) 1 x" "i < 8"
  shows "fr_balanced (2 ^ Suc i) (sadd acc (smul amp x)) (sadd nrm amp)"
proof -
  obtain a m where a: "fin_val acc = Some a" "fin_val nrm = Some m" "\<bar>a\<bar> \<le> m" "m \<le> 2 ^ i" using assms(1) by (auto simp: fr_balanced_def)
  obtain p where p: "fin_val amp = Some p" "rep F32 p" "0 \<le> p" "p \<le> 2 ^ i" using assms(2) by (auto simp: fr_amp_def)
  obtain y where y: "fin_val x = Some y" "\<bar>y\<bar> \<le> 1" using assms(3) by (auto simp: in_range_iff abs_le_iff)
  have "(2::rat) ^ i \<le> 2 ^ 7" using assms(4) by (intro power_increasing) auto
  then have b: "(2::rat) ^ i \<le> 128" by simp
  have py: "\<bar>p * y\<bar> \<le> p" using p(3) y(2) by (simp add: abs_mult mult_left_le)
  then have v: "fin_val (smul amp x) = Some (rnd_val F32 (p * y))"
    using p y fin_val_rnd(1) [of F32 "- 512" 512 "p * y"] b by (simp add: fmul_def Let_def abs_le_iff)
  have q: "\<bar>rnd_val F32 (p * y)\<bar> \<le> p"
    using py rnd_val_le [of F32 p "p * y"] rnd_val_ge [of F32 "- p" "p * y"] p(2) rep_uminus by (auto simp: abs_le_iff)
  have s: "\<bar>a + rnd_val F32 (p * y)\<bar> \<le> m + p" using a(3) q by linarith
  then have "rnd_val F32 (a + rnd_val F32 (p * y)) \<le> rnd_val F32 (m + p)"
    "rnd_val F32 (- (m + p)) \<le> rnd_val F32 (a + rnd_val F32 (p * y))" by (intro rnd_val_mono; simp add: abs_le_iff)+
  then have "\<bar>rnd_val F32 (a + rnd_val F32 (p * y))\<bar> \<le> rnd_val F32 (m + p)"
    using rnd_val_uminus [of F32 "m + p"] by (simp add: abs_le_iff)
  moreover have "m + p \<le> 2 ^ Suc i" using a(4) p(4) by simp
  then have "rnd_val F32 (m + p) \<le> 2 ^ Suc i" using rnd_val_le [of F32 "2 ^ Suc i" "m + p"] fin_rep_F32_pow2 [of "Suc i"] assms(4)
    by (simp add: fin_rep_def)
  ultimately show ?thesis unfolding fr_balanced_def
    using fin_val_add_512 [OF a(1) v] fin_val_add_512 [OF a(2) p(1)] s a(3,4) p(3,4) b by (auto simp: abs_le_iff)
qed

lemma fr_amp_step:
  assumes "fr_amp (2 ^ i) amp" "in_range 0 2 g" "i < 8"
  shows "fr_amp (2 ^ Suc i) (smul amp g)"
proof -
  obtain p where p: "fin_val amp = Some p" "0 \<le> p" "p \<le> 2 ^ i" using assms(1) by (auto simp: fr_amp_def)
  obtain y where y: "fin_val g = Some y" "0 \<le> y" "y \<le> 2" using assms(2) by auto
  have "p * y \<le> 2 ^ i * 2" using p y by (intro mult_mono) auto
  then have "p * y \<le> 2 ^ Suc i" "0 \<le> p * y" using p y by simp_all
  from fin_val_rnd [OF fmt_ok_F32 fin_rep_0 [OF fmt_ok_F32] fin_rep_F32_pow2 this(2,1)] assms(3)
  show ?thesis using p y rep_rnd_val by (auto simp: fr_amp_def fmul_def Let_def)
qed

lemma fr_freq_step:
  assumes "in_range 0 (2 ^ (7 + 3 * i)) freq" "in_range 1 8 l" "i < 8"
  shows "in_range 0 (2 ^ (7 + 3 * Suc i)) (smul freq l)"
proof (rule in_range_fmul [OF _ _ _ assms(1,2)])
  show "fin_rep F32 (2 ^ (7 + 3 * Suc i))" using assms(3) by (intro fin_rep_F32_pow2) simp
  show "0 \<le> r * s \<and> r * s \<le> 2 ^ (7 + 3 * Suc i)" if "0 \<le> r" "r \<le> 2 ^ (7 + 3 * i)" "1 \<le> s" "s \<le> 8" for r s :: rat
  proof -
    have "r * s \<le> 2 ^ (7 + 3 * i) * 8" using that by (intro mult_mono) auto
    then show ?thesis using that by (simp add: power_add)
  qed
qed auto

lemma fr_phase_step:
  assumes "in_range 0 1 ph" "in_range 0 (2 ^ (7 + 3 * i)) freq" "in_range 1 1000000 r" "i < 8"
  shows "in_range 0 1 (f_mod (sadd ph (sdiv freq r)) (Fin 1))"
proof -
  have "in_range 0 (2 ^ (7 + 3 * i)) (sdiv freq r)"
  proof (rule in_range_fdiv [OF _ _ _ assms(2,3)])
    show "fin_rep F32 (2 ^ (7 + 3 * i))" using assms(4) by (intro fin_rep_F32_pow2) simp
    show "0 \<le> x / y \<and> x / y \<le> 2 ^ (7 + 3 * i)" if "0 \<le> x" "x \<le> 2 ^ (7 + 3 * i)" "1 \<le> y" for x y :: rat
    proof -
      have "x \<le> 2 ^ (7 + 3 * i) * y" using that mult_mono [of x "2 ^ (7 + 3 * i)" 1 y] by simp
      then show ?thesis using that by (simp add: divide_le_eq)
    qed
  qed auto
  moreover have "fin_rep F32 (2 ^ (8 + 3 * i))" using assms(4) by (intro fin_rep_F32_pow2) simp
  moreover have "1 + (2::rat) ^ (7 + 3 * i) \<le> 2 ^ (8 + 3 * i)" using one_le_power [of "2::rat" "7 + 3 * i"] power_Suc [of "2::rat" "7 + 3 * i"] by simp
  ultimately have "in_range 0 (2 ^ (8 + 3 * i)) (sadd ph (sdiv freq r))"
    using assms(1) by (intro in_range_fadd [where a = 0 and b = 1 and c = 0 and d = "2 ^ (7 + 3 * i)"]) auto
  then show ?thesis by (rule f_mod_one)
qed

lemma fractal_loop_ok:
  assumes "trig_ok lm" "in_range 1 1000000 r"
  shows "fr_invar s \<Longrightarrow> n + i \<le> 8 \<Longrightarrow> fr_amp (2 ^ i) amp \<Longrightarrow> in_range 0 (2 ^ (7 + 3 * i)) freq \<Longrightarrow> fr_balanced (2 ^ i) acc nrm \<Longrightarrow>
    fractal_loop lm r n i s acc nrm freq amp = (s', acc', nrm') \<Longrightarrow>
    fr_invar s' \<and> fr_balanced (2 ^ (n + i)) acc' nrm'"
proof (induction n arbitrary: i s acc nrm freq amp)
  case (Suc n)
  have i: "i < 8" using Suc.prems(2) by simp
  let ?ph = "sadd (fr_phase s ! i) (sdiv freq r)"
  let ?x = "ssub (smul (lcg_float (lcg_next (fr_rand s ! i))) (Fin 2)) (Fin 1)"
  define s1 where "s1 = (if fr_shape s = 2 \<and> fle (Fin 1) ?ph then
    s\<lparr>fr_rand := (fr_rand s)[i := lcg_next (fr_rand s ! i)], fr_held := (fr_held s)[i := ?x]\<rparr> else s)"
  define s2 where "s2 = s1\<lparr>fr_phase := (fr_phase s1)[i := f_mod ?ph (Fin 1)]\<rparr>"
  have x: "in_range (- 1) 1 ?x" by (rule bipolar_range [OF lcg_float_range])
  have "in_range 0 1 (fr_phase s ! i)" using Suc.prems(1) i by (simp add: fr_invar_def list_all_length)
  then have ph: "in_range 0 1 (f_mod ?ph (Fin 1))" using Suc.prems(4) assms(2) i by (rule fr_phase_step)
  have inv1: "fr_invar s1" using Suc.prems(1) x by (simp add: s1_def fr_invar_def list_all_update)
  then have inv: "fr_invar s2" using ph by (simp add: s2_def fr_invar_def list_all_update)
  then have r: "in_range 1 8 (fr_lacunarity s2)" "in_range 0 2 (fr_persistence s2)" by (simp_all add: fr_invar_def)
  have "fractal_loop lm r n (Suc i) s2 (sadd acc (smul amp (fractal_sample lm s2 i))) (sadd nrm amp)
    (smul freq (fr_lacunarity s2)) (smul amp (fr_persistence s2)) = (s', acc', nrm')"
    using Suc.prems(6) by (simp add: Let_def s1_def s2_def)
  from Suc.IH [OF inv _ fr_amp_step [OF Suc.prems(3) r(2) i] fr_freq_step [OF Suc.prems(4) r(1) i]
      fr_balanced_step [OF Suc.prems(5,3) fractal_sample_range [OF assms(1) inv i] i] this]
  show ?case using Suc.prems(2) by simp
qed auto

lemma fractal_tick_ok:
  assumes "trig_ok lm" "fr_invar s" "lfo_rate_ok 1 r"
  shows "\<exists>out s'. fractal_tick lm b r s = Some (out, s') \<and> fr_invar s' \<and> in_range (- 1) 1 (o_cv out)"
proof (cases "fle r (Fin 0)")
  case True
  then show ?thesis using assms(2) depth_range by (simp add: fractal_tick_def fr_invar_def)
next
  case False
  then have r: "in_range 1 1000000 r" using assms(3) by (simp add: lfo_rate_ok_def)
  obtain s1 acc nrm where l: "fractal_loop lm r (nat (fr_octaves s)) 0 s (Fin 0) (Fin 0) (fr_base_rate s) (Fin 1) = (s1, acc, nrm)"
    by (metis prod_cases3)
  have "fr_amp (2 ^ 0) (Fin 1)" using fin_rep_F32_one(1) by (simp add: fr_amp_def fin_rep_def)
  moreover have "in_range 0 (2 ^ (7 + 3 * 0)) (fr_base_rate s)" using assms(2) by (auto simp: fr_invar_def in_range_iff)
  moreover have "fr_balanced (2 ^ 0) (Fin 0) (Fin 0)" by (simp add: fr_balanced_def)
  moreover have "fr_octaves s \<le> 8" using assms(2) by (simp add: fr_invar_def)
  then have "nat (fr_octaves s) + 0 \<le> 8" by linarith
  ultimately have s1: "fr_invar s1" "fr_balanced (2 ^ (nat (fr_octaves s) + 0)) acc nrm"
    using fractal_loop_ok [OF assms(1) r assms(2) _ _ _ _ l] by blast+
  then obtain a m where a: "fin_val acc = Some a" "fin_val nrm = Some m" "\<bar>a\<bar> \<le> m" by (auto simp: fr_balanced_def)
  define out where "out = (if flt (Fin 0) nrm then sdiv acc nrm else Fin 0)"
  have o: "in_range (- 1) 1 out"
  proof (cases "flt (Fin 0) nrm")
    case True
    then have "0 < m" using a(2) by (simp add: flt_fin)
    then have "- 1 \<le> a / m" "a / m \<le> 1" using a(3) by (simp_all add: divide_le_eq le_divide_eq abs_le_iff)
    then have "in_range (- 1) 1 (rnd F32 neg (a / m))" for neg by (intro in_range_rnd) simp_all
    then show ?thesis using a True \<open>0 < m\<close> by (simp add: out_def fdiv_def Let_def)
  qed (simp add: out_def)
  then have "clampf (- 1) 1 out = out" unfolding clampf_def by (rule fclamp_id) simp_all
  then have "in_range (- 1) 1 (smul (clampf (- 1) 1 out) (fr_depth s1))" using o s1(1) depth_range by (simp add: fr_invar_def)
  then show ?thesis using l s1(1) o False
    by (simp add: fractal_tick_def Let_def fr_invar_def flip: out_def)
qed

lemma lit_fractal: "fin_val (lit F32 (1/10)) = Some (13421773/134217728)" "fin_val (lit F32 (2/10)) = Some (13421773/67108864)"
  "fin_val (lit F32 (11/10)) = Some (9227469/8388608)" "fin_val (lit F32 8) = Some 8"
  "fin_val (lit F32 (1/100)) = Some (10737418/1073741824)" "fin_val (lit F32 2) = Some 2"
  "fin_val (lit F32 (618034/1000000)) = Some (10368890/16777216)"
  by code_simp+

lemma fractal_update_ok:
  assumes "fr_invar s" "int_value_ok [''octaves'', ''shape''] k v"
  shows "\<exists>s'. fractal_update k v s = Some s' \<and> fr_invar s'"
proof -
  have v: "v \<noteq> NaN" using assms(2) by (simp add: int_value_ok_def)
  have l: "in_range 1 8 (clampf (11/10) 8 v)" "in_range 0 2 (clampf (1/100) 2 v)"
    using in_range_mono [OF clampf_range [OF lit_fractal(3,4) _ v]] in_range_mono [OF clampf_range [OF lit_fractal(5,6) _ v]] by simp_all
  consider "k = ''octaves''" | "k = ''shape''" | "k \<noteq> ''octaves''" "k \<noteq> ''shape''" by blast
  then show ?thesis
  proof cases
    case 1
    then obtain i where "clampi 1 8 v = Some i" "1 \<le> i" "i \<le> 8" using assms(2) clampi_ok [of v 1 8] by (auto simp: int_value_ok_def)
    then show ?thesis using 1 assms(1) by (simp add: fractal_update_def fr_invar_def)
  next
    case 2
    then obtain i where "clampi 0 2 v = Some i" using assms(2) clampi_ok [of v 0 2] by (auto simp: int_value_ok_def)
    then show ?thesis using 2 assms(1) by (simp add: fractal_update_def fr_invar_def)
  next
    case 3
    then show ?thesis using v l assms(1) clampf_rate [of v] by (simp add: fractal_update_def fr_invar_def)
  qed
qed

interpretation fractal: bounded_modulator "fractal_tick lm" fractal_update "\<lambda>n s. trig_ok lm \<and> fr_invar s" "lfo_rate_ok 1"
  "int_value_ok [''octaves'', ''shape'']" "- 1" 1 for lm
proof unfold_locales
  fix s r b
  assume "trig_ok lm \<and> fr_invar s" "lfo_rate_ok 1 r"
  then show "\<exists>out s'. fractal_tick lm b r s = Some (out, s') \<and> (trig_ok lm \<and> fr_invar s') \<and> in_range (- 1) 1 (o_cv out)"
    using fractal_tick_ok [of lm s r b] by blast
next
  fix s v k
  assume "trig_ok lm \<and> fr_invar s" "int_value_ok [''octaves'', ''shape''] k v"
  then show "\<exists>s'. fractal_update k v s = Some s' \<and> trig_ok lm \<and> fr_invar s'" using fractal_update_ok [of s k v] by blast
qed

lemma fractal_new_invar: "fr_invar fractal_new"
proof -
  have "in_range 0 8 (smul (of_int_fp F32 (int i)) kPhi)" if "i < 8" for i
  proof (rule in_range_fmul [where a = 0 and b = 8 and c = 0 and d = 1])
    show "in_range 0 8 (of_int_fp F32 (int i))" using that fin_val_of_int_fp [of F32 "int i"] fin_rep_F32_int [of "int i"]
      by (simp add: in_range_def)
    show "in_range 0 1 kPhi" unfolding kPhi_def in_range_def lit_fractal by simp
  qed (auto intro: mult_unit_range [THEN conjunct2])
  from f_mod_one [OF this] have p: "list_all (in_range 0 1) (map (\<lambda>i. f_mod (smul (of_int_fp F32 (int i)) kPhi) (Fin 1)) [0..<kMaxOctaves])"
    by (auto simp: list_all_iff kMaxOctaves_def)
  have h: "list_all (in_range (- 1) 1) (map (\<lambda>i. ssub (smul (lcg_float (lcg_next (kSeeds ! i))) (Fin 2)) (Fin 1)) [0..<kMaxOctaves])"
    using bipolar_range lcg_float_range by (auto simp: list_all_iff)
  show ?thesis using p h by (simp add: fr_invar_def fractal_new_def in_range_def lit_fractal kSeeds_def, simp add: kMaxOctaves_def)
qed

lemma int_value_small: "int_value_ok keys k (Fin 8)" "int_value_ok keys k (Fin 3)"
proof -
  have "to_int32 (f_round (Fin 8)) = Some 8" "to_int32 (f_round (Fin 3)) = Some 3" by code_simp+
  then show "int_value_ok keys k (Fin 8)" "int_value_ok keys k (Fin 3)" by (simp_all only: int_value_ok_def) auto
qed

section \<open>Properties\<close>

text \<open>Whatever the mode, the register length and the DAC width it is built with, the shift register's
  output never leaves [-1, 1] over any sequence of ticks and of updates with numbers.\<close>

theorem shift_register_run_bounded:
  assumes "list_all (cmd_ok (\<lambda>r. True) (\<lambda>k v. v \<noteq> NaN)) cs"
  shows "\<exists>outs s'. mod_run shift_register_tick shift_register_update cs (shift_register_new m len dac) = Some (outs, s') \<and>
    sr_length s' \<le> 32 \<and> take_bit (sr_length s') (sr_reg s') = sr_reg s' \<and>
    list_all (\<lambda>out. in_range (- 1) 1 (o_cv out)) outs"
  using shift_register.run_bounded [where cs = cs and s = "shift_register_new m len dac"] assms shift_register_new_invar [of m len dac]
  by (auto simp: sr_invar_def)

theorem shift_register_run_bounded_witness:
  "\<exists>outs s'. mod_run shift_register_tick shift_register_update [Cmd_update ''data'' (Fin 1), Cmd_tick (Fin 0) (Fin 1)]
      (shift_register_new Sr_open 40 9) = Some (outs, s') \<and>
    sr_length s' \<le> 32 \<and> take_bit (sr_length s') (sr_reg s') = sr_reg s' \<and> list_all (\<lambda>out. in_range (- 1) 1 (o_cv out)) outs"
  by (rule shift_register_run_bounded) (simp add: cmd_ok_def)

text \<open>C18: in feedback mode the register never locks up: at every register length the tap table keeps it
  away from the all-zero state, over any sequence of ticks and of updates with numbers.\<close>

theorem lfsr_never_zero:
  assumes "list_all (cmd_ok (\<lambda>r. True) (\<lambda>k v. v \<noteq> NaN)) cs"
  shows "\<exists>outs s'. mod_run shift_register_tick shift_register_update cs (shift_register_new Sr_lfsr len dac) = Some (outs, s') \<and>
    list_all (\<lambda>out. o_state out \<noteq> 0) outs"
proof (rule lfsr_run_live [OF _ assms])
  show "lfsr_live (shift_register_new Sr_lfsr len dac)"
    using shift_register_new_invar [of Sr_lfsr len dac] by (simp add: lfsr_live_def shift_register_new_def Let_def)
qed

theorem lfsr_never_zero_witness:
  "\<exists>outs s'. mod_run shift_register_tick shift_register_update [Cmd_tick (Fin 0) (Fin 1), Cmd_tick (Fin 0) (Fin 1)]
      (shift_register_new Sr_lfsr 8 4) = Some (outs, s') \<and> list_all (\<lambda>out. o_state out \<noteq> 0) outs"
  by (rule lfsr_never_zero) (simp add: cmd_ok_def)

text \<open>The fractal source, driven at 1 Hz or faster, keeps its output in [-1, 1] for every number of
  octaves, lacunarity, persistence and shape it accepts: the rounded sum of the octaves never exceeds
  the rounded sum of their amplitudes.\<close>

theorem fractal_run_bounded:
  assumes "trig_ok lm" "list_all (cmd_ok (lfo_rate_ok 1) (int_value_ok [''octaves'', ''shape''])) cs"
  shows "\<exists>outs s'. mod_run (fractal_tick lm) fractal_update cs fractal_new = Some (outs, s') \<and>
    in_range (- 1) 1 (fr_prev_output s') \<and> list_all (\<lambda>out. in_range (- 1) 1 (o_cv out)) outs"
  using fractal.run_bounded [where lm = lm and cs = cs and s = fractal_new] assms fractal_new_invar by (auto simp: fr_invar_def)

theorem fractal_run_bounded_witness:
  "\<exists>outs s'. mod_run (fractal_tick libm_const) fractal_update [Cmd_update ''octaves'' (Fin 8), Cmd_tick (Fin 0) (Fin 100)] fractal_new = Some (outs, s') \<and>
    in_range (- 1) 1 (fr_prev_output s') \<and> list_all (\<lambda>out. in_range (- 1) 1 (o_cv out)) outs"
  by (rule fractal_run_bounded) (simp_all add: libm_const_ok cmd_ok_def lfo_rate_ok_def int_value_small)

text \<open>The stochastic source never reads or writes outside its 16 slots and keeps its output in
  [-1, 1], at any tick rate and over any sequence of updates with numbers, for any logarithm and any
  interpolation.\<close>

theorem stochastic_run_bounded:
  assumes "list_all (cmd_ok (\<lambda>r. True) (int_value_ok [''length'', ''steps''])) cs"
  shows "\<exists>outs s'. mod_run (stochastic_tick lm) stochastic_update cs stochastic_new = Some (outs, s') \<and>
    st_write_pos s' < length (st_cv_buf s') \<and> st_read_pos s' < length (st_cv_buf s') \<and> length (st_cv_buf s') = kMaxLength \<and>
    list_all (\<lambda>out. in_range (- 1) 1 (o_cv out)) outs"
  using stochastic.run_bounded [where lm = lm and cs = cs and s = stochastic_new] assms stochastic_new_invar
  by (auto simp: st_invar_def kMaxLength_def)

theorem stochastic_run_bounded_witness:
  "\<exists>outs s'. mod_run (stochastic_tick libm_const) stochastic_update [Cmd_update ''length'' (Fin 3), Cmd_tick (Fin 0) (Fin 1)] stochastic_new = Some (outs, s') \<and>
    st_write_pos s' < length (st_cv_buf s') \<and> st_read_pos s' < length (st_cv_buf s') \<and> length (st_cv_buf s') = kMaxLength \<and>
    list_all (\<lambda>out. in_range (- 1) 1 (o_cv out)) outs"
  by (rule stochastic_run_bounded) (simp add: cmd_ok_def int_value_small)

end
