(* ===== verification/Mod_Nlc.thy ===== *)
theory Mod_Nlc
  imports Mod_Register
begin

text \<open>
  The gate processors that listen to other modulators: \<open>cv_channel_decoder.cpp\<close>,
  \<open>divine_cmos_modulator.cpp\<close>, \<open>statues_modulator.cpp\<close>, \<open>cipher_modulator.cpp\<close> and
  \<open>bools_ring_modulator.cpp\<close>. The engine they point to is seen only through \<open>last_output\<close>: a view
  \<open>None\<close> is a null engine, \<open>Some look\<close> an engine whose outputs \<open>look\<close> returns.
\<close>

type_synonym engine_view = "(string \<Rightarrow> modulator_output option) option"

definition source_output :: "engine_view \<Rightarrow> string \<Rightarrow> modulator_output option" where
  "source_output eng src = (case eng of None \<Rightarrow> None | Some look \<Rightarrow> if src = [] then None else look src)"

definition read_gate_level :: "engine_view \<Rightarrow> string \<Rightarrow> fp \<Rightarrow> bool" where
  "read_gate_level eng src fallback =
     (case source_output eng src of Some out \<Rightarrow> o_gate out | None \<Rightarrow> flt (Fin (1/2)) fallback)"

definition read_gate_src :: "engine_view \<Rightarrow> string \<Rightarrow> bool" where
  "read_gate_src eng src = (case source_output eng src of Some out \<Rightarrow> o_gate out | None \<Rightarrow> False)"

definition read_cv_src :: "engine_view \<Rightarrow> string \<Rightarrow> fp \<Rightarrow> fp" where
  "read_cv_src eng src fallback = (case source_output eng src of Some out \<Rightarrow> o_cv out | None \<Rightarrow> fallback)"

text \<open>A bitmap built by a loop that sets bit \<open>i\<close> when a condition holds.\<close>

fun bitmap_of :: "nat \<Rightarrow> bool list \<Rightarrow> u32" where
  "bitmap_of i [] = 0"
| "bitmap_of i (b # bs) = (if b then push_bit i 1 else 0) OR bitmap_of (Suc i) bs"

section \<open>CV channel decoder\<close>

datatype source_field = Sf_cv | Sf_aux | Sf_gate

definition kMaxChannels :: int where
  "kMaxChannels = 8"

record cv_channel_decoder =
  cd_channels :: nat
  cd_source_id :: string
  cd_source_field :: source_field
  cd_span :: fp
  cd_space :: fp
  cd_prev_span :: fp
  cd_first_tick :: bool
  cd_clocked :: bool
  cd_clock_pending :: bool
  cd_latched_state :: u32

definition decoder_new :: "int \<Rightarrow> string \<Rightarrow> source_field \<Rightarrow> cv_channel_decoder" where
  "decoder_new channels src field = \<lparr>cd_channels = nat (max 1 (min kMaxChannels channels)), cd_source_id = src,
     cd_source_field = field, cd_span = Fin 0, cd_space = Fin 1, cd_prev_span = Fin 0, cd_first_tick = True,
     cd_clocked = False, cd_clock_pending = False, cd_latched_state = 0\<rparr>"

definition read_span :: "engine_view \<Rightarrow> cv_channel_decoder \<Rightarrow> fp" where
  "read_span eng s = (case source_output eng (cd_source_id s) of
     Some out \<Rightarrow> (case cd_source_field s of
         Sf_cv \<Rightarrow> o_cv out
       | Sf_aux \<Rightarrow> o_aux out
       | Sf_gate \<Rightarrow> if o_gate out then Fin 1 else Fin (- 1))
   | None \<Rightarrow> cd_span s)"

definition channel_active :: "cv_channel_decoder \<Rightarrow> fp \<Rightarrow> nat \<Rightarrow> bool" where
  "channel_active s sp ch =
     (let n = of_int_fp F32 (int (cd_channels s)); hw = sdiv (Fin 1) n;
          ctr = sadd (Fin (- 1)) (sdiv (sadd (smul (Fin 2) (of_int_fp F32 (int ch))) (Fin 1)) n) in
      fle (ssub ctr (smul (cd_space s) hw)) sp \<and> fle sp (sadd ctr (smul (cd_space s) hw)))"

definition decoder_tick :: "engine_view \<Rightarrow> fp \<Rightarrow> fp \<Rightarrow> cv_channel_decoder \<Rightarrow> (modulator_output \<times> cv_channel_decoder) option" where
  "decoder_tick eng beat tick_rate_hz s =
     (let sp = read_span eng s;
          velocity = (if \<not> cd_first_tick s \<and> flt (Fin 0) tick_rate_hz
                      then fmin (Fin 1) (smul (smul (f_abs (ssub sp (cd_prev_span s))) tick_rate_hz) (Fin (1/2)))
                      else Fin 0);
          bitmap = bitmap_of 0 (map (channel_active s sp) [0..<cd_channels s]);
          latched = (if cd_clocked s \<and> cd_clock_pending s then bitmap else cd_latched_state s);
          shown = (if cd_clocked s then latched else bitmap) in
      Some (output_new\<lparr>o_cv := velocity, o_aux := sp, o_gate := shown \<noteq> 0, o_state := shown\<rparr>,
        s\<lparr>cd_first_tick := False, cd_prev_span := sp, cd_latched_state := latched,
          cd_clock_pending := (if cd_clocked s then False else cd_clock_pending s)\<rparr>))"

definition decoder_update :: "string \<Rightarrow> fp \<Rightarrow> cv_channel_decoder \<Rightarrow> cv_channel_decoder option" where
  "decoder_update key v s = Some (
     if key = ''span'' then s\<lparr>cd_span := clampf (- 1) 1 v\<rparr>
     else if key = ''space'' then s\<lparr>cd_space := clampf 0 2 v\<rparr>
     else if key = ''clocked'' then s\<lparr>cd_clocked := flt (Fin (1/2)) v\<rparr>
     else if key = ''clock_tick'' \<and> flt (Fin (1/2)) v then s\<lparr>cd_clock_pending := True\<rparr>
     else s)"

section \<open>Divine CMOS\<close>

record divine_cmos_modulator =
  dc_clock1_src :: string
  dc_clock2_src :: string
  dc_gains :: "fp list"
  dc_slew :: fp
  dc_counter1 :: u8
  dc_counter2 :: u8
  dc_clock1_prev :: bool
  dc_clock2_prev :: bool
  dc_clock1_pending :: bool
  dc_clock2_pending :: bool
  dc_slew_state :: fp

definition divine_new :: "string \<Rightarrow> string \<Rightarrow> divine_cmos_modulator" where
  "divine_new c1 c2 = \<lparr>dc_clock1_src = c1, dc_clock2_src = c2, dc_gains = replicate 4 (Fin 1), dc_slew = Fin 0,
     dc_counter1 = 0, dc_counter2 = 0, dc_clock1_prev = False, dc_clock2_prev = False, dc_clock1_pending = False,
     dc_clock2_pending = False, dc_slew_state = Fin 0\<rparr>"

definition dc_read_gate :: "engine_view \<Rightarrow> string \<Rightarrow> bool \<Rightarrow> bool" where
  "dc_read_gate eng src prev = (case source_output eng src of Some out \<Rightarrow> o_gate out | None \<Rightarrow> prev)"

text \<open>One clock input: the counter, the pending flag and the previous gate after the edge detection.\<close>

definition dc_clock :: "bool \<Rightarrow> u8 \<Rightarrow> bool \<Rightarrow> bool \<Rightarrow> u8 \<times> bool" where
  "dc_clock gate counter prev pending =
     (if gate \<and> \<not> prev \<or> pending then ((counter + 1) AND 0x0F, False) else (counter, pending))"

definition dc_sums :: "fp list \<Rightarrow> u8 \<Rightarrow> fp \<times> fp" where
  "dc_sums gains bits = fold (\<lambda>i (total, raw). (sadd total (gains ! i), if bit bits i then sadd raw (gains ! i) else raw))
     [0..<4] (Fin 0, Fin 0)"

text \<open>The one-pole slew of \<open>divine_cmos\<close> and \<open>bools_ring\<close>.\<close>

definition iir_alpha :: "libm \<Rightarrow> fp \<Rightarrow> fp \<Rightarrow> fp" where
  "iir_alpha lm slew tick_rate_hz =
     (let tc = smul slew (Fin 4) in
      if flt (Fin 0) tick_rate_hz \<and> flt (Fin 0) tc then lm_exp lm (sdiv (Fin (- 1)) (smul tc tick_rate_hz)) else Fin 0)"

definition iir_step :: "fp \<Rightarrow> fp \<Rightarrow> fp \<Rightarrow> fp" where
  "iir_step alpha state target = sadd (smul alpha state) (smul (ssub (Fin 1) alpha) target)"

definition divine_tick :: "libm \<Rightarrow> engine_view \<Rightarrow> fp \<Rightarrow> fp \<Rightarrow> divine_cmos_modulator \<Rightarrow> (modulator_output \<times> divine_cmos_modulator) option" where
  "divine_tick lm eng beat tick_rate_hz s =
     (let gate1 = dc_read_gate eng (dc_clock1_src s) (dc_clock1_prev s);
          (counter1, pending1) = dc_clock gate1 (dc_counter1 s) (dc_clock1_prev s) (dc_clock1_pending s);
          gate2 = dc_read_gate eng (dc_clock2_src s) (dc_clock2_prev s);
          (counter2, pending2) = dc_clock gate2 (dc_counter2 s) (dc_clock2_prev s) (dc_clock2_pending s);
          xor_bits = (counter1 XOR counter2) AND 0x0F;
          (gain_sum, raw) = dc_sums (dc_gains s) xor_bits;
          main = (if flt (Fin 0) gain_sum then sdiv raw gain_sum else Fin 0);
          slewed = iir_step (iir_alpha lm (dc_slew s) tick_rate_hz) (dc_slew_state s) main in
      Some (output_new\<lparr>o_cv := main, o_aux := slewed, o_gate := xor_bits AND 1 \<noteq> 0, o_gate2 := xor_bits AND 2 \<noteq> 0,
          o_state := ucast xor_bits\<rparr>,
        s\<lparr>dc_counter1 := counter1, dc_clock1_pending := pending1, dc_clock1_prev := gate1,
          dc_counter2 := counter2, dc_clock2_pending := pending2, dc_clock2_prev := gate2, dc_slew_state := slewed\<rparr>))"

definition divine_update :: "string \<Rightarrow> fp \<Rightarrow> divine_cmos_modulator \<Rightarrow> divine_cmos_modulator option" where
  "divine_update key v s = Some (
     if key = ''gain0'' then s\<lparr>dc_gains := (dc_gains s)[0 := clampf 0 5 v]\<rparr>
     else if key = ''gain1'' then s\<lparr>dc_gains := (dc_gains s)[1 := clampf 0 5 v]\<rparr>
     else if key = ''gain2'' then s\<lparr>dc_gains := (dc_gains s)[2 := clampf 0 5 v]\<rparr>
     else if key = ''gain3'' then s\<lparr>dc_gains := (dc_gains s)[3 := clampf 0 5 v]\<rparr>
     else if key = ''slew'' then s\<lparr>dc_slew := clampf 0 1 v\<rparr>
     else if key = ''clock1_tick'' \<and> flt (Fin (1/2)) v then s\<lparr>dc_clock1_pending := True\<rparr>
     else if key = ''clock2_tick'' \<and> flt (Fin (1/2)) v then s\<lparr>dc_clock2_pending := True\<rparr>
     else s)"

section \<open>Statues\<close>

record statues_modulator =
  su_in_source_id :: string
  su_addr_source_id :: string
  su_slots :: "fp list"
  su_in :: fp
  su_addr :: int
  su_addr_bits :: "bool list"
  su_use_addr_bits :: bool
  su_prev_addr :: int

definition statues_new :: "string \<Rightarrow> string \<Rightarrow> statues_modulator" where
  "statues_new in_src addr_src = \<lparr>su_in_source_id = in_src, su_addr_source_id = addr_src, su_slots = replicate 8 (Fin 0),
     su_in = Fin 0, su_addr = 0, su_addr_bits = replicate 3 False, su_use_addr_bits = False, su_prev_addr = - 1\<rparr>"

text \<open>\<open>static_cast<int>(out->state) & 0x7\<close>; the bits are read only when no address source is named.\<close>

definition statues_addr :: "engine_view \<Rightarrow> statues_modulator \<Rightarrow> int" where
  "statues_addr eng s =
     (let addr = (if eng \<noteq> None \<and> su_addr_source_id s \<noteq> [] then
                    (case source_output eng (su_addr_source_id s) of
                       Some out \<Rightarrow> uint (o_state out AND 7)
                     | None \<Rightarrow> su_addr s)
                  else if su_use_addr_bits s then
                    (if su_addr_bits s ! 0 then 1 else 0) OR (if su_addr_bits s ! 1 then 2 else 0) OR (if su_addr_bits s ! 2 then 4 else 0)
                  else su_addr s) in
      max 0 (min 7 addr))"

definition statues_tick :: "engine_view \<Rightarrow> fp \<Rightarrow> fp \<Rightarrow> statues_modulator \<Rightarrow> (modulator_output \<times> statues_modulator) option" where
  "statues_tick eng beat tick_rate_hz s =
     (let in_val = read_cv_src eng (su_in_source_id s) (su_in s);
          addr = statues_addr eng s;
          slots = (su_slots s)[nat addr := in_val] in
      Some (output_new\<lparr>o_cv := slots ! nat addr, o_aux := in_val, o_gate := addr \<noteq> su_prev_addr s, o_state := of_int addr,
          o_outputs := slots @ drop 8 (o_outputs output_new)\<rparr>,
        s\<lparr>su_slots := slots, su_prev_addr := addr\<rparr>))"

definition statues_update :: "string \<Rightarrow> fp \<Rightarrow> statues_modulator \<Rightarrow> statues_modulator option" where
  "statues_update key v s =
     (if key = ''in'' then Some (s\<lparr>su_in := clampf (- 1) 1 v\<rparr>)
      else if key = ''addr'' then map_option (\<lambda>i. s\<lparr>su_addr := i, su_use_addr_bits := False\<rparr>) (clampi 0 7 v)
      else if key = ''addr0'' then Some (s\<lparr>su_addr_bits := (su_addr_bits s)[0 := flt (Fin (1/2)) v], su_use_addr_bits := True\<rparr>)
      else if key = ''addr1'' then Some (s\<lparr>su_addr_bits := (su_addr_bits s)[1 := flt (Fin (1/2)) v], su_use_addr_bits := True\<rparr>)
      else if key = ''addr2'' then Some (s\<lparr>su_addr_bits := (su_addr_bits s)[2 := flt (Fin (1/2)) v], su_use_addr_bits := True\<rparr>)
      else Some s)"

section \<open>Cipher\<close>

record cipher_modulator =
  ci_clock_src :: string
  ci_data1_src :: string
  ci_data2_src :: string
  ci_strobe_src :: string
  ci_inner_reg :: u8
  ci_output_reg :: u8
  ci_clock_prev :: bool
  ci_clock_pending :: bool
  ci_serial_out :: bool
  ci_data1 :: fp
  ci_data2 :: fp
  ci_strobe :: fp

definition cipher_new :: "string \<Rightarrow> string \<Rightarrow> string \<Rightarrow> string \<Rightarrow> cipher_modulator" where
  "cipher_new clock data1 data2 strobe = \<lparr>ci_clock_src = clock, ci_data1_src = data1, ci_data2_src = data2,
     ci_strobe_src = strobe, ci_inner_reg = 0, ci_output_reg = 0, ci_clock_prev = False, ci_clock_pending = False,
     ci_serial_out = False, ci_data1 = Fin 0, ci_data2 = Fin (- 1), ci_strobe = Fin 0\<rparr>"

definition kWeights :: "fp list" where
  "kWeights = [lit F32 (5/100), lit F32 (11/100), lit F32 (25/100), lit F32 (53/100)]"

definition kWeightSum :: fp where
  "kWeightSum = sadd (sadd (sadd (lit F32 (5/100)) (lit F32 (11/100))) (lit F32 (25/100))) (lit F32 (53/100))"

definition kCVBits :: "nat list list" where
  "kCVBits = [[0, 3, 4, 7], [0, 1, 4, 5], [1, 2, 5, 6], [2, 3, 6, 7]]"

text \<open>The sum of the weights whose bit is set, in the order of the loop.\<close>

fun weigh :: "fp \<Rightarrow> fp list \<Rightarrow> bool list \<Rightarrow> fp" where
  "weigh acc (w # ws) (b # bs) = weigh (if b then sadd acc w else acc) ws bs"
| "weigh acc ws bs = acc"

definition project_cv :: "u8 \<Rightarrow> nat \<Rightarrow> fp" where
  "project_cv reg idx = sdiv (weigh (Fin 0) kWeights (map (bit reg) (kCVBits ! idx))) kWeightSum"

definition cipher_bit_in :: "engine_view \<Rightarrow> cipher_modulator \<Rightarrow> bool" where
  "cipher_bit_in eng s =
     (let d1 = read_gate_level eng (ci_data1_src s) (ci_data1 s) in
      if ci_data2_src s \<noteq> [] \<or> fle (Fin 0) (ci_data2 s) then
        let d2 = (if ci_data2_src s \<noteq> [] then read_gate_src eng (ci_data2_src s) else flt (Fin (1/2)) (ci_data2 s)) in
        d1 \<or> d2
      else
        let fb = (bit (ci_inner_reg s) 7 \<noteq> bit (ci_inner_reg s) 0) in
        fb \<or> d1)"

definition cipher_tick :: "engine_view \<Rightarrow> fp \<Rightarrow> fp \<Rightarrow> cipher_modulator \<Rightarrow> (modulator_output \<times> cipher_modulator) option" where
  "cipher_tick eng beat tick_rate_hz s =
     (let clk = (if ci_clock_src s \<noteq> [] then read_gate_src eng (ci_clock_src s) else False);
          clock_edge = (clk \<and> \<not> ci_clock_prev s \<or> ci_clock_pending s);
          serial = (clock_edge \<and> bit (ci_inner_reg s) 7);
          inner = (if clock_edge then push_bit 1 (ci_inner_reg s) OR (if cipher_bit_in eng s then 1 else 0) else ci_inner_reg s);
          strobe_active = read_gate_level eng (ci_strobe_src s) (ci_strobe s);
          shown = (if strobe_active then ci_output_reg s else inner) in
      Some (output_new\<lparr>o_cv := project_cv shown 0, o_aux := project_cv shown 1, o_gate := serial, o_gate2 := strobe_active,
          o_state := ucast shown, o_outputs := map (project_cv shown) [0..<4] @ drop 4 (o_outputs output_new)\<rparr>,
        s\<lparr>ci_clock_prev := clk, ci_clock_pending := False, ci_serial_out := serial, ci_inner_reg := inner, ci_output_reg := shown\<rparr>))"

definition cipher_update :: "string \<Rightarrow> fp \<Rightarrow> cipher_modulator \<Rightarrow> cipher_modulator option" where
  "cipher_update key v s = Some (
     if key = ''data1'' then s\<lparr>ci_data1 := v\<rparr>
     else if key = ''data2'' then s\<lparr>ci_data2 := v\<rparr>
     else if key = ''strobe'' then s\<lparr>ci_strobe := v\<rparr>
     else if key = ''clock_tick'' \<and> flt (Fin (1/2)) v then s\<lparr>ci_clock_pending := True\<rparr>
     else if key = ''data2_enable'' then s\<lparr>ci_data2 := (if flt (Fin (1/2)) v then Fin 0 else Fin (- 1))\<rparr>
     else s)"

section \<open>Bools ring\<close>

datatype br_mode = Br_xor | Br_or | Br_and | Br_nor | Br_nand | Br_xnor

record bools_ring_modulator =
  br_mode :: br_mode
  br_src :: "string list"
  br_sample_src :: string
  br_inputs :: "fp list"
  br_slew :: fp
  br_sampled :: bool
  br_sample_pending :: bool
  br_sample_prev :: bool
  br_slew_state :: fp
  br_latched_out :: u8

definition bools_new :: "br_mode \<Rightarrow> string \<Rightarrow> string \<Rightarrow> string \<Rightarrow> string \<Rightarrow> string \<Rightarrow> bools_ring_modulator" where
  "bools_new m s0 s1 s2 s3 sample = \<lparr>br_mode = m, br_src = [s0, s1, s2, s3], br_sample_src = sample, br_inputs = replicate 4 (Fin 0),
     br_slew = Fin 0, br_sampled = False, br_sample_pending = False, br_sample_prev = False, br_slew_state = Fin 0, br_latched_out = 0\<rparr>"

fun apply_logic :: "br_mode \<Rightarrow> bool \<Rightarrow> bool \<Rightarrow> bool" where
  "apply_logic Br_xor a b = (a \<noteq> b)"
| "apply_logic Br_or a b = (a \<or> b)"
| "apply_logic Br_and a b = (a \<and> b)"
| "apply_logic Br_nor a b = (\<not> (a \<or> b))"
| "apply_logic Br_nand a b = (\<not> (a \<and> b))"
| "apply_logic Br_xnor a b = (\<not> (a \<noteq> b))"

definition kStepWeights :: "fp list" where
  "kStepWeights = [lit F32 (55/100), lit F32 (109/100), lit F32 (219/100), lit F32 (437/100)]"

definition kStepMax :: fp where
  "kStepMax = sadd (sadd (sadd (lit F32 (55/100)) (lit F32 (109/100))) (lit F32 (219/100))) (lit F32 (437/100))"

definition ring_bits :: "br_mode \<Rightarrow> bool list \<Rightarrow> u8" where
  "ring_bits m ins = ucast (bitmap_of 0 (map (\<lambda>i. apply_logic m (ins ! i) (ins ! ((i + 1) mod 4))) [0..<4]))"

definition step_norm :: "u8 \<Rightarrow> fp" where
  "step_norm bits = sdiv (weigh (Fin 0) kStepWeights (map (bit bits) [0..<4])) kStepMax"

definition bools_tick :: "libm \<Rightarrow> engine_view \<Rightarrow> fp \<Rightarrow> fp \<Rightarrow> bools_ring_modulator \<Rightarrow> (modulator_output \<times> bools_ring_modulator) option" where
  "bools_tick lm eng beat tick_rate_hz s =
     (let ins = map (\<lambda>i. read_gate_level eng (br_src s ! i) (br_inputs s ! i)) [0..<4];
          bits = ring_bits (br_mode s) ins;
          sgate = (if br_sample_src s \<noteq> [] then read_gate_level eng (br_sample_src s) (Fin 0) else False);
          edge = (sgate \<and> \<not> br_sample_prev s \<or> br_sample_pending s);
          latched = (if br_sampled s \<and> edge then bits else br_latched_out s);
          shown = (if br_sampled s then latched else bits);
          slewed = iir_step (iir_alpha lm (br_slew s) tick_rate_hz) (br_slew_state s) (step_norm shown) in
      Some (output_new\<lparr>o_cv := step_norm shown, o_aux := slewed, o_gate := shown AND 1 \<noteq> 0, o_gate2 := shown AND 2 \<noteq> 0,
          o_state := ucast shown\<rparr>,
        s\<lparr>br_sample_prev := (if br_sampled s then sgate else br_sample_prev s),
          br_sample_pending := (if br_sampled s then False else br_sample_pending s),
          br_latched_out := latched, br_slew_state := slewed\<rparr>))"

definition bools_update :: "string \<Rightarrow> fp \<Rightarrow> bools_ring_modulator \<Rightarrow> bools_ring_modulator option" where
  "bools_update key v s = Some (
     if key = ''in0'' then s\<lparr>br_inputs := (br_inputs s)[0 := v]\<rparr>
     else if key = ''in1'' then s\<lparr>br_inputs := (br_inputs s)[1 := v]\<rparr>
     else if key = ''in2'' then s\<lparr>br_inputs := (br_inputs s)[2 := v]\<rparr>
     else if key = ''in3'' then s\<lparr>br_inputs := (br_inputs s)[3 := v]\<rparr>
     else if key = ''slew'' then s\<lparr>br_slew := clampf 0 1 v\<rparr>
     else if key = ''sampled'' then s\<lparr>br_sampled := flt (Fin (1/2)) v\<rparr>
     else if key = ''sample_tick'' \<and> flt (Fin (1/2)) v then s\<lparr>br_sample_pending := True\<rparr>
     else s)"

end
