(* ===== verification/Mod_Chaos.thy ===== *)
theory Mod_Chaos
  imports Mod_Nlc
begin

text \<open>
  The chaotic sources and the partition matrix: \<open>sloth_chaos_modulator.cpp\<close>,
  \<open>squid_axon_modulator.cpp\<close>, \<open>genie_modulator.cpp\<close> and \<open>lets_splosh_modulator.cpp\<close>.
\<close>

section \<open>Sloth chaos\<close>

datatype sloth_variant = Torpor | Apathy | Inertia | Triple

record sloth_state =
  ss_x :: fp
  ss_w :: fp
  ss_y :: fp
  ss_z :: fp
  ss_z_prev_positive :: bool

record sloth_chaos_modulator =
  sc_variant :: sloth_variant
  sc_cv_src :: string
  sc_states :: "sloth_state list"
  sc_knob :: fp
  sc_cv_in :: fp

definition kTimeDilation :: "fp list" where
  "kTimeDilation = [Fin 1, lit F32 (274/1000), lit F32 (97/10000)]"

definition kAlpha :: fp where "kAlpha = lit F32 (35/100)"
definition kBeta :: fp where "kBeta = lit F32 (25/100)"
definition kGamma :: fp where "kGamma = lit F32 (15/100)"
definition kVRange :: fp where "kVRange = Fin 12"
definition kZHigh :: fp where "kZHigh = lit F32 (1138/100)"
definition kZLow :: fp where "kZLow = lit F32 (- 1064/100)"

definition sloth_state_new :: sloth_state where
  "sloth_state_new = \<lparr>ss_x = lit F32 (1/100), ss_w = Fin 0, ss_y = Fin 0, ss_z = kZHigh, ss_z_prev_positive = True\<rparr>"

definition sloth_new :: "sloth_variant \<Rightarrow> string \<Rightarrow> sloth_chaos_modulator" where
  "sloth_new v src = \<lparr>sc_variant = v, sc_cv_src = src, sc_states = replicate 3 sloth_state_new, sc_knob = Fin (1/2), sc_cv_in = Fin 0\<rparr>"

definition sloth_step :: "fp \<Rightarrow> fp \<Rightarrow> fp \<Rightarrow> fp \<Rightarrow> sloth_state \<Rightarrow> sloth_state" where
  "sloth_step h K z_bias cv_in s =
     (let z = (if flt z_bias (sadd (ss_x s) cv_in) then kZHigh else kZLow);
          dx = smul (ssub (ss_y s) (smul (ss_x s) K)) kAlpha;
          dw = smul (ssub z (ss_x s)) kBeta;
          dy = smul (fneg (ss_w s)) kGamma in
      s\<lparr>ss_z := z, ss_x := sadd (ss_x s) (smul dx h), ss_w := sadd (ss_w s) (smul dw h), ss_y := sadd (ss_y s) (smul dy h)\<rparr>)"

text \<open>\<open>x_norm\<close>, \<open>y_norm\<close> and \<open>w_norm\<close> of a node voltage.\<close>

definition volt_norm :: "fp \<Rightarrow> fp" where
  "volt_norm v = clampf 0 1 (sdiv (sadd v kVRange) (smul (Fin 2) kVRange))"

definition sloth_index :: "sloth_variant \<Rightarrow> nat" where
  "sloth_index v = (case v of Triple \<Rightarrow> 0 | Torpor \<Rightarrow> 0 | Apathy \<Rightarrow> 1 | Inertia \<Rightarrow> 2)"

text \<open>Four Euler steps of one circuit.\<close>

definition sloth_integrate :: "fp \<Rightarrow> fp \<Rightarrow> fp \<Rightarrow> fp \<Rightarrow> sloth_state list \<Rightarrow> nat \<Rightarrow> sloth_state list" where
  "sloth_integrate tick_rate_hz K z_bias cv_in ss i =
     (let eff_dt = (if flt (Fin 0) tick_rate_hz then sdiv (kTimeDilation ! i) tick_rate_hz else Fin 0);
          h = sdiv eff_dt (Fin 4) in
      ss[i := (sloth_step h K z_bias cv_in ^^ 4) (ss ! i)])"

definition lobe :: "sloth_state \<Rightarrow> bool" where
  "lobe s = flt (Fin 0) (ss_z s)"

definition sloth_single_output :: "sloth_state \<Rightarrow> modulator_output" where
  "sloth_single_output s =
     (let lobe_now = lobe s in
      output_new\<lparr>o_cv := volt_norm (ss_x s), o_aux := volt_norm (ss_y s), o_gate := lobe_now,
        o_gate2 := (lobe_now \<noteq> ss_z_prev_positive s), o_state := (if lobe_now then 1 else 0),
        o_outputs := [volt_norm (ss_x s), volt_norm (ss_y s), volt_norm (ss_w s), if lobe_now then Fin 1 else Fin 0]
          @ drop 4 (o_outputs output_new)\<rparr>)"

definition sloth_triple_output :: "sloth_state list \<Rightarrow> modulator_output" where
  "sloth_triple_output ss =
     (let combined_v = smul (lit F32 (7/10)) (ssub (ss_z (ss ! 0)) (sadd (ss_z (ss ! 1)) (ss_z (ss ! 2))));
          combined = clampf 0 1 (sdiv (sadd combined_v (Fin 16)) (Fin 32)) in
      output_new\<lparr>o_cv := volt_norm (ss_x (ss ! 0)), o_aux := combined, o_gate := lobe (ss ! 0),
        o_state := (if lobe (ss ! 0) then 1 else 0) OR (if lobe (ss ! 1) then 2 else 0) OR (if lobe (ss ! 2) then 4 else 0),
        o_outputs := [volt_norm (ss_x (ss ! 0)), volt_norm (ss_y (ss ! 0)), volt_norm (ss_x (ss ! 1)), volt_norm (ss_y (ss ! 1)),
          volt_norm (ss_x (ss ! 2)), volt_norm (ss_y (ss ! 2)), combined] @ drop 7 (o_outputs output_new)\<rparr>)"

definition sloth_tick :: "engine_view \<Rightarrow> fp \<Rightarrow> fp \<Rightarrow> sloth_chaos_modulator \<Rightarrow> (modulator_output \<times> sloth_chaos_modulator) option" where
  "sloth_tick eng beat tick_rate_hz s =
     (let cv_in = read_cv_src eng (sc_cv_src s) (sc_cv_in s);
          K = sadd (Fin 1) (smul (ssub (sc_knob s) (Fin (1/2))) (lit F32 (4/10)));
          z_bias = smul (ssub (sc_knob s) (Fin (1/2))) (Fin 4);
          i = sloth_index (sc_variant s) in
      if sc_variant s \<noteq> Triple then
        let ss = sloth_integrate tick_rate_hz K z_bias cv_in (sc_states s) i; t = ss ! i in
        Some (sloth_single_output t, s\<lparr>sc_states := ss[i := t\<lparr>ss_z_prev_positive := lobe t\<rparr>]\<rparr>)
      else
        let ss = fold (\<lambda>vi ss. sloth_integrate tick_rate_hz K z_bias cv_in ss vi) [0..<3] (sc_states s) in
        Some (sloth_triple_output ss, s\<lparr>sc_states := map (\<lambda>t. t\<lparr>ss_z_prev_positive := lobe t\<rparr>) ss\<rparr>))"

definition sloth_update :: "string \<Rightarrow> fp \<Rightarrow> sloth_chaos_modulator \<Rightarrow> sloth_chaos_modulator option" where
  "sloth_update key v s = Some (
     if key = ''knob'' then s\<lparr>sc_knob := clampf 0 1 v\<rparr>
     else if key = ''cv_in'' then s\<lparr>sc_cv_in := v\<rparr>
     else s)"

section \<open>Squid axon\<close>

record squid_axon_modulator =
  sq_clock_src :: string
  sq_in1_src :: string
  sq_in2_src :: string
  sq_in3_src :: string
  sq_stages :: "fp list"
  sq_counter :: int
  sq_nl_fb :: fp
  sq_lin_fb :: fp
  sq_in1 :: fp
  sq_in2 :: fp
  sq_in3 :: fp
  sq_in3_patched :: bool
  sq_clock_prev :: bool
  sq_clock_pending :: bool

definition squid_new :: "string \<Rightarrow> string \<Rightarrow> string \<Rightarrow> string \<Rightarrow> squid_axon_modulator" where
  "squid_new clock i1 i2 i3 = \<lparr>sq_clock_src = clock, sq_in1_src = i1, sq_in2_src = i2, sq_in3_src = i3, sq_stages = replicate 4 (Fin 0),
     sq_counter = 0, sq_nl_fb = Fin 0, sq_lin_fb = Fin 0, sq_in1 = Fin 0, sq_in2 = Fin 0, sq_in3 = Fin 0, sq_in3_patched = False,
     sq_clock_prev = False, sq_clock_pending = False\<rparr>"

definition nl_feedback :: "fp \<Rightarrow> fp \<Rightarrow> fp" where
  "nl_feedback nl_fb out4 =
     (if flt nl_fb (lit F32 (1/10000)) then Fin 0
      else
        let threshold = fmax (Fin 0) (ssub (Fin 1) (sdiv nl_fb (Fin 4))); excess = ssub out4 threshold in
        if fle excess (Fin 0) then Fin 0 else smul (smul (lit F32 (- 7/10)) excess) excess)"

definition squid_mix :: "engine_view \<Rightarrow> squid_axon_modulator \<Rightarrow> fp" where
  "squid_mix eng s =
     (let in1 = read_cv_src eng (sq_in1_src s) (sq_in1 s); in2 = read_cv_src eng (sq_in2_src s) (sq_in2 s);
          out4 = sq_stages s ! 3;
          in3 = (if \<not> sq_in3_patched s \<and> sq_in3_src s = [] then out4 else read_cv_src eng (sq_in3_src s) (sq_in3 s));
          nl = nl_feedback (sq_nl_fb s) out4; lin = smul (sq_lin_fb s) out4 in
      clampf 0 1 (sadd (sadd (sadd (sadd in1 in2) in3) nl) lin))"

definition squid_shift :: "fp \<Rightarrow> fp list \<Rightarrow> fp list" where
  "squid_shift mix st = [mix, st ! 0, st ! 1, st ! 2]"

definition squid_tick :: "engine_view \<Rightarrow> fp \<Rightarrow> fp \<Rightarrow> squid_axon_modulator \<Rightarrow> (modulator_output \<times> squid_axon_modulator) option" where
  "squid_tick eng beat tick_rate_hz s =
     (let clk = read_gate_src eng (sq_clock_src s);
          edge = (clk \<and> \<not> sq_clock_prev s \<or> sq_clock_pending s);
          s1 = s\<lparr>sq_clock_prev := clk, sq_clock_pending := False\<rparr>;
          s2 = (if edge then s1\<lparr>sq_stages := squid_shift (squid_mix eng s1) (sq_stages s1), sq_counter := (sq_counter s1 + 1) mod 4\<rparr> else s1);
          st = sq_stages s2 in
      Some (output_new\<lparr>o_cv := st ! 0, o_aux := st ! 3, o_gate := flt (Fin (1/2)) (st ! 0), o_state := of_int (sq_counter s2),
          o_outputs := [st ! 0, st ! 1, st ! 2, st ! 3] @ drop 4 (o_outputs output_new)\<rparr>, s2))"

definition squid_update :: "string \<Rightarrow> fp \<Rightarrow> squid_axon_modulator \<Rightarrow> squid_axon_modulator option" where
  "squid_update key v s = Some (
     if key = ''nl_fb'' then s\<lparr>sq_nl_fb := clampf 0 4 v\<rparr>
     else if key = ''lin_fb'' then s\<lparr>sq_lin_fb := clampf 0 1 v\<rparr>
     else if key = ''in1'' then s\<lparr>sq_in1 := v\<rparr>
     else if key = ''in2'' then s\<lparr>sq_in2 := v\<rparr>
     else if key = ''in3'' then s\<lparr>sq_in3 := v\<rparr>
     else if key = ''in3_patched'' then s\<lparr>sq_in3_patched := flt (Fin (1/2)) v\<rparr>
     else if key = ''clock_tick'' \<and> flt (Fin (1/2)) v then s\<lparr>sq_clock_pending := True\<rparr>
     else s)"

section \<open>Genie\<close>

definition kMaxN :: nat where
  "kMaxN = 8"

record genie_modulator =
  ge_n :: nat
  ge_in_src :: "string list"
  ge_sense :: "fp list"
  ge_response :: "fp list"
  ge_gain :: "fp list"
  ge_ext_in :: "fp list"
  ge_state :: "fp list"

definition genie_new :: "int \<Rightarrow> string list option \<Rightarrow> genie_modulator" where
  "genie_new n in_src = \<lparr>ge_n = nat (max 2 (min (int kMaxN) n)),
     ge_in_src = (case in_src of None \<Rightarrow> replicate kMaxN [] | Some srcs \<Rightarrow> map (nth srcs) [0..<kMaxN]),
     ge_sense = replicate kMaxN (Fin (5/2)), ge_response = replicate kMaxN (Fin 3), ge_gain = replicate kMaxN (lit F32 (6/10)),
     ge_ext_in = replicate kMaxN (Fin 0), ge_state = replicate kMaxN (Fin 0)\<rparr>"

definition neuron :: "fp \<Rightarrow> fp \<Rightarrow> fp \<Rightarrow> fp" where
  "neuron input sense response =
     (let x = sadd input sense; rect = clampf 0 10 x; comp = (if fle (Fin 0) x then response else fneg response) in
      ssub rect comp)"

definition neuron_norm :: "fp \<Rightarrow> fp \<Rightarrow> fp" where
  "neuron_norm response raw =
     (let lo = fneg response; hi = fmax response (ssub (Fin 10) response) in
      if feq hi lo then Fin (1/2) else clampf 0 1 (sdiv (ssub raw lo) (ssub hi lo)))"

definition genie_input :: "engine_view \<Rightarrow> genie_modulator \<Rightarrow> nat \<Rightarrow> fp" where
  "genie_input eng s i =
     (if ge_in_src s ! i = [] then smul (ge_gain s ! i) (ge_state s ! ((i + ge_n s - 1) mod ge_n s))
      else read_cv_src eng (ge_in_src s ! i) (ge_ext_in s ! i))"

definition genie_tick :: "engine_view \<Rightarrow> fp \<Rightarrow> fp \<Rightarrow> genie_modulator \<Rightarrow> (modulator_output \<times> genie_modulator) option" where
  "genie_tick eng beat tick_rate_hz s =
     (let n = ge_n s;
          st = map (\<lambda>i. neuron (genie_input eng s i) (ge_sense s ! i) (ge_response s ! i)) [0..<n] @ drop n (ge_state s);
          n3 = (if 3 \<le> n then st ! 2 else st ! 0);
          diff = ssub (sadd (st ! 0) n3) (st ! 1);
          d_pos = fmax (Fin 0) diff in
      Some (output_new\<lparr>o_cv := neuron_norm (ge_response s ! 0) (st ! 0), o_aux := clampf 0 1 (sdiv d_pos (Fin 17)),
          o_gate := flt (Fin 0) diff, o_gate2 := flt diff (Fin 0),
          o_state := bitmap_of 0 (map (\<lambda>i. flt (Fin 0) (st ! i)) [0..<n]),
          o_outputs := map (\<lambda>i. neuron_norm (ge_response s ! i) (st ! i)) [0..<n] @ drop n (o_outputs output_new)\<rparr>,
        s\<lparr>ge_state := st\<rparr>))"

definition starts_with :: "string \<Rightarrow> string \<Rightarrow> bool" where
  "starts_with p s = (length p \<le> length s \<and> take (length p) s = p)"

text \<open>\<open>key.back() - '0'\<close> when it is an index.\<close>

definition last_digit :: "string \<Rightarrow> nat option" where
  "last_digit key = (let i = int (of_char (last key)) - 48 in if 0 \<le> i \<and> i < int kMaxN then Some (nat i) else None)"

definition genie_update :: "string \<Rightarrow> fp \<Rightarrow> genie_modulator \<Rightarrow> genie_modulator option" where
  "genie_update key v s = Some (
     if starts_with ''sense'' key then
       (case last_digit key of Some i \<Rightarrow> s\<lparr>ge_sense := (ge_sense s)[i := clampf 0 5 v]\<rparr> | None \<Rightarrow> s)
     else if starts_with ''response'' key then
       (case last_digit key of Some i \<Rightarrow> s\<lparr>ge_response := (ge_response s)[i := clampf 1 10 v]\<rparr> | None \<Rightarrow> s)
     else if starts_with ''gain'' key then
       (case last_digit key of Some i \<Rightarrow> s\<lparr>ge_gain := (ge_gain s)[i := clampf 0 1 v]\<rparr> | None \<Rightarrow> s)
     else if starts_with ''in'' key then
       (case last_digit key of Some i \<Rightarrow> s\<lparr>ge_ext_in := (ge_ext_in s)[i := v]\<rparr> | None \<Rightarrow> s)
     else s)"

section \<open>Let's splosh\<close>

record lets_splosh_modulator =
  ls_src :: "string list"
  ls_inputs :: "fp list"

definition splosh_new :: "string \<Rightarrow> string \<Rightarrow> string \<Rightarrow> string \<Rightarrow> lets_splosh_modulator" where
  "splosh_new c t n b = \<lparr>ls_src = [c, t, n, b], ls_inputs = replicate 4 (Fin 0)\<rparr>"

text \<open>The two sums over the inputs whose bit of \<open>m\<close> is set or clear.\<close>

definition splosh_sums :: "fp list \<Rightarrow> nat \<Rightarrow> fp \<times> fp" where
  "splosh_sums ins m = fold (\<lambda>i (pos, neg). if bit m i then (sadd pos (ins ! i), neg) else (pos, sadd neg (ins ! i)))
     [0..<4] (Fin 0, Fin 0)"

definition splosh_output :: "fp list \<Rightarrow> nat \<Rightarrow> fp" where
  "splosh_output ins m = (case splosh_sums ins m of (pos, neg) \<Rightarrow> fmax (Fin 0) (ssub pos neg))"

definition splosh_tick :: "engine_view \<Rightarrow> fp \<Rightarrow> fp \<Rightarrow> lets_splosh_modulator \<Rightarrow> (modulator_output \<times> lets_splosh_modulator) option" where
  "splosh_tick eng beat tick_rate_hz s =
     (let ins = map (\<lambda>i. read_cv_src eng (ls_src s ! i) (ls_inputs s ! i)) [0..<4];
          outs = map (splosh_output ins) [0..<16] in
      Some (output_new\<lparr>o_cv := outs ! 7, o_aux := outs ! 15, o_gate := flt (Fin 0) (outs ! 15),
          o_state := bitmap_of 0 (map (flt (Fin (1/2))) ins), o_outputs := outs\<rparr>, s))"

definition splosh_update :: "string \<Rightarrow> fp \<Rightarrow> lets_splosh_modulator \<Rightarrow> lets_splosh_modulator option" where
  "splosh_update key v s = Some (
     if key = ''c'' then s\<lparr>ls_inputs := (ls_inputs s)[0 := v]\<rparr>
     else if key = ''t'' then s\<lparr>ls_inputs := (ls_inputs s)[1 := v]\<rparr>
     else if key = ''n'' then s\<lparr>ls_inputs := (ls_inputs s)[2 := v]\<rparr>
     else if key = ''b'' then s\<lparr>ls_inputs := (ls_inputs s)[3 := v]\<rparr>
     else s)"

end
