(* ===== verification/Edn.thy ===== *)
theory Edn
  imports Floats
begin

text \<open>
  The EDN values the control messages carry. The parser and the map type belong to a library
  outside the sources; the datatype has one constructor per alternative that the sources test with
  \<open>is<T>()\<close>, and the library's two operations, \<open>edn::parse\<close> and \<open>edn::map::find_kw\<close>, are parameters.
\<close>

datatype edn =
    Edn_nil
  | Edn_bool bool
  | Edn_int int
  | Edn_double fp
  | Edn_string string
  | Edn_keyword string
  | Edn_vector "edn list"
  | Edn_map "(edn \<times> edn) list"
  | Edn_tagged string "edn option"
  | Edn_other

type_synonym edn_map = "(edn \<times> edn) list"

record edn_lib =
  ed_parse :: "u8 list \<Rightarrow> edn option"
  ed_find_kw :: "edn_map \<Rightarrow> string \<Rightarrow> edn option"

text \<open>What the sources rely on: \<open>find_kw\<close> returns the value of an entry whose key is that keyword.\<close>

definition find_kw_ok :: "edn_lib \<Rightarrow> bool" where
  "find_kw_ok L = (\<forall>m k. ed_find_kw L m k = map_of m (Edn_keyword k))"

text \<open>A library with this lookup and a given table of parsed texts.\<close>

definition edn_table :: "(u8 list \<times> edn) list \<Rightarrow> edn_lib" where
  "edn_table t = \<lparr>ed_parse = map_of t, ed_find_kw = \<lambda>m k. map_of m (Edn_keyword k)\<rparr>"

lemma edn_table_ok: "find_kw_ok (edn_table t)"
  by (simp add: find_kw_ok_def edn_table_def)

definition edn_is_map :: "edn \<Rightarrow> edn_map option" where
  "edn_is_map v = (case v of Edn_map m \<Rightarrow> Some m | _ \<Rightarrow> None)"

text \<open>The value as a \<open>float\<close> or \<open>double\<close> when it is a number, as the handlers' getters convert it.\<close>

definition edn_float :: "edn \<Rightarrow> fp option" where
  "edn_float v = (case v of Edn_double d \<Rightarrow> Some (to_float d) | Edn_int i \<Rightarrow> Some (of_int_fp F32 i) | _ \<Rightarrow> None)"

definition edn_double :: "edn \<Rightarrow> fp option" where
  "edn_double v = (case v of Edn_double d \<Rightarrow> Some d | Edn_int i \<Rightarrow> Some (of_int_fp F64 i) | _ \<Rightarrow> None)"

definition get_int :: "edn_lib \<Rightarrow> edn_map \<Rightarrow> string \<Rightarrow> int \<Rightarrow> int" where
  "get_int L m kw d = (case ed_find_kw L m kw of Some (Edn_int i) \<Rightarrow> i | _ \<Rightarrow> d)"

definition get_float :: "edn_lib \<Rightarrow> edn_map \<Rightarrow> string \<Rightarrow> fp \<Rightarrow> fp" where
  "get_float L m kw d = (case ed_find_kw L m kw of Some v \<Rightarrow> (case edn_float v of Some x \<Rightarrow> x | None \<Rightarrow> d) | None \<Rightarrow> d)"

definition get_double :: "edn_lib \<Rightarrow> edn_map \<Rightarrow> string \<Rightarrow> fp \<Rightarrow> fp" where
  "get_double L m kw d = (case ed_find_kw L m kw of Some v \<Rightarrow> (case edn_double v of Some x \<Rightarrow> x | None \<Rightarrow> d) | None \<Rightarrow> d)"

text \<open>A keyword's name or a string, empty otherwise.\<close>

definition edn_name :: "edn \<Rightarrow> string" where
  "edn_name v = (case v of Edn_keyword k \<Rightarrow> k | Edn_string s \<Rightarrow> s | _ \<Rightarrow> [])"

text \<open>A message body: \<open>None\<close> when it is empty, does not parse or is not a map.\<close>

definition payload_map :: "edn_lib \<Rightarrow> u8 list \<Rightarrow> edn_map option" where
  "payload_map L payload = (if payload = [] then None else case ed_parse L payload of Some v \<Rightarrow> edn_is_map v | None \<Rightarrow> None)"

end
