(* ===== verification/Graph_Modulator.thy ===== *)
theory Graph_Modulator
  imports Mod_Nlc Edn "HOL-Library.AList"
begin

text \<open>
  Control graphs (\<open>graph_modulator.hpp\<close>, \<open>graph_modulator.cpp\<close>): an EDN expression is compiled to a
  list of nodes and interpreted once per tick.
\<close>

section \<open>Data\<close>

datatype cg_kind =
    Const_val | Param_ref | Mod_ref | Beat_in | Beat_phase | Phasor | Sin | Cos | Tri | Saw | Square | Scale | Clamp
  | Add | Mul | Neg | Abs_val | Mix | Slew | Sample_hold | Threshold | Comparator

record cg_node =
  cg_type :: cg_kind
  cg_inputs :: "int list"
  cg_args :: "fp list"
  cg_param_key :: string
  cg_state :: "fp list"

definition node_new :: "cg_kind \<Rightarrow> cg_node" where
  "node_new k = \<lparr>cg_type = k, cg_inputs = replicate 4 (- 1), cg_args = replicate 4 (Fin 0), cg_param_key = [], cg_state = replicate 2 (Fin 0)\<rparr>"

definition const_node :: "fp \<Rightarrow> cg_node" where
  "const_node c = (node_new Const_val)\<lparr>cg_args := (replicate 4 (Fin 0))[0 := c]\<rparr>"

record control_graph =
  gr_nodes :: "cg_node list"
  gr_params :: "(string \<times> fp) list"
  gr_out_cv :: int
  gr_out_aux :: int
  gr_out_gate :: int
  gr_out_gate2 :: int

section \<open>Parsing\<close>

definition push_node :: "cg_node \<Rightarrow> cg_node list \<Rightarrow> int \<times> cg_node list" where
  "push_node n g = (int (length g), g @ [n])"

text \<open>
  The operators with sub-expressions: their kind and, per input slot, the constant \<open>child_or_const\<close>
  uses when the argument is missing; \<open>None\<close> is \<open>child\<close>.
\<close>

definition op_slots :: "string \<Rightarrow> (cg_kind \<times> fp option list) option" where
  "op_slots op =
     (if op = ''beat-phase'' then Some (Beat_phase, [Some (Fin 1)])
      else if op = ''phasor'' then Some (Phasor, [Some (Fin 1)])
      else if op = ''sin'' then Some (Sin, [None])
      else if op = ''cos'' then Some (Cos, [None])
      else if op = ''tri'' then Some (Tri, [None])
      else if op = ''saw'' then Some (Saw, [None])
      else if op = ''square'' then Some (Square, [None, Some (Fin (1/2))])
      else if op = ''scale'' then Some (Scale, [None, Some (Fin 0), Some (Fin 1)])
      else if op = ''clamp'' then Some (Clamp, [None, Some (Fin 0), Some (Fin 1)])
      else if op = ''add'' then Some (Add, [None, None])
      else if op = ''mul'' then Some (Mul, [None, None])
      else if op = ''neg'' then Some (Neg, [None])
      else if op = ''abs'' then Some (Abs_val, [None])
      else if op = ''mix'' then Some (Mix, [None, None, Some (Fin (1/2))])
      else if op = ''slew'' then Some (Slew, [None, Some (lit F32 (1/100)), Some (lit F32 (1/100))])
      else if op = ''sample-hold'' then Some (Sample_hold, [None, None])
      else if op = ''threshold'' then Some (Threshold, [None, Some (Fin (1/2))])
      else if op = ''comparator'' then Some (Comparator, [None, None])
      else None)"

text \<open>The operators without sub-expressions.\<close>

definition first_keyword :: "edn list \<Rightarrow> string" where
  "first_keyword args = (case args of Edn_keyword k # _ \<Rightarrow> k | _ \<Rightarrow> [])"

definition mod_out_field :: "edn list \<Rightarrow> fp" where
  "mod_out_field args = (case args of
     _ # Edn_keyword f # _ \<Rightarrow> if f = ''aux'' then Fin 1 else if f = ''gate'' then Fin 2 else if f = ''gate2'' then Fin 3 else Fin 0
   | _ \<Rightarrow> Fin 0)"

definition leaf_node :: "string \<Rightarrow> edn list \<Rightarrow> cg_node option" where
  "leaf_node op args =
     (if op = ''const'' then Some (const_node (case args of Edn_double d # _ \<Rightarrow> to_float d | _ \<Rightarrow> Fin 0))
      else if op = ''param'' then Some ((node_new Param_ref)\<lparr>cg_param_key := first_keyword args\<rparr>)
      else if op = ''mod-out'' then
        Some ((node_new Mod_ref)\<lparr>cg_param_key := first_keyword args, cg_args := (replicate 4 (Fin 0))[0 := mod_out_field args]\<rparr>)
      else if op = ''beat'' then Some (node_new Beat_in)
      else None)"

definition fill_inputs :: "int list \<Rightarrow> cg_node \<Rightarrow> cg_node" where
  "fill_inputs is n = n\<lparr>cg_inputs := is @ drop (length is) (cg_inputs n)\<rparr>"

fun parse_node :: "edn \<Rightarrow> cg_node list \<Rightarrow> int \<times> cg_node list"
  and parse_children :: "fp option list \<Rightarrow> edn list \<Rightarrow> cg_node list \<Rightarrow> int list \<times> cg_node list" where
  "parse_node (Edn_double d) g = push_node (const_node (to_float d)) g"
| "parse_node (Edn_int i) g = push_node (const_node (of_int_fp F32 i)) g"
| "parse_node (Edn_vector (Edn_keyword op # args)) g =
     (case leaf_node op args of
        Some n \<Rightarrow> push_node n g
      | None \<Rightarrow> (case op_slots op of
          Some (k, ds) \<Rightarrow> (case parse_children ds args g of (is, g1) \<Rightarrow> push_node (fill_inputs is (node_new k)) g1)
        | None \<Rightarrow> (- 1, g)))"
| "parse_node v g = (- 1, g)"
| "parse_children [] args g = ([], g)"
| "parse_children (None # ds) [] g = (case parse_children ds [] g of (is, g1) \<Rightarrow> (- 1 # is, g1))"
| "parse_children (Some c # ds) [] g =
     (case push_node (const_node c) g of (i, g1) \<Rightarrow> (case parse_children ds [] g1 of (is, g2) \<Rightarrow> (i # is, g2)))"
| "parse_children (d # ds) (a # args) g =
     (case parse_node a g of (i, g1) \<Rightarrow> (case parse_children ds args g1 of (is, g2) \<Rightarrow> (i # is, g2)))"

definition parse_out :: "edn_lib \<Rightarrow> edn_map \<Rightarrow> string \<Rightarrow> cg_node list \<Rightarrow> int \<times> cg_node list" where
  "parse_out L m kw g = (case ed_find_kw L m kw of Some v \<Rightarrow> parse_node v g | None \<Rightarrow> (- 1, g))"

definition parse_control_graph :: "edn_lib \<Rightarrow> edn \<Rightarrow> (string \<times> fp) list \<Rightarrow> control_graph" where
  "parse_control_graph L expr params = (case expr of
     Edn_map m \<Rightarrow>
       (let (cv, g1) = parse_out L m ''cv'' []; (aux, g2) = parse_out L m ''aux'' g1;
            (gate, g3) = parse_out L m ''gate'' g2; (gate2, g4) = parse_out L m ''gate2'' g3 in
        \<lparr>gr_nodes = g4, gr_params = params, gr_out_cv = cv, gr_out_aux = aux, gr_out_gate = gate, gr_out_gate2 = gate2\<rparr>)
   | _ \<Rightarrow>
       (let (cv, g) = parse_node expr [] in
        \<lparr>gr_nodes = g, gr_params = params, gr_out_cv = cv, gr_out_aux = - 1, gr_out_gate = - 1, gr_out_gate2 = - 1\<rparr>))"

section \<open>Evaluation\<close>

definition kTwoPi_graph :: fp where
  "kTwoPi_graph = lit F32 (6283185307/1000000000)"

definition node_in :: "cg_node \<Rightarrow> fp list \<Rightarrow> nat \<Rightarrow> fp" where
  "node_in n vals slot = (let idx = cg_inputs n ! slot in if 0 \<le> idx \<and> idx < int (length vals) then vals ! nat idx else Fin 0)"

definition mod_ref_value :: "engine_view \<Rightarrow> cg_node \<Rightarrow> fp option" where
  "mod_ref_value eng n = (case eng of
     None \<Rightarrow> Some (Fin 0)
   | Some look \<Rightarrow> (case look (cg_param_key n) of
       None \<Rightarrow> Some (Fin 0)
     | Some out \<Rightarrow> map_option (\<lambda>field.
         if field = 1 then o_aux out
         else if field = 2 then (if o_gate out then Fin 1 else Fin 0)
         else if field = 3 then (if o_gate2 out then Fin 1 else Fin 0)
         else if 4 \<le> field \<and> field < 4 + int kMaxOutputs then o_outputs out ! nat (field - 4)
         else o_cv out) (to_int32 (cg_args n ! 0))))"

text \<open>
  One node: its value and the node with its state advanced. \<open>None\<close> is undefined behaviour: a field
  number that does not fit an \<open>int\<close>, or \<open>std::clamp\<close> with its bounds in the wrong order.
\<close>

definition eval_node :: "libm \<Rightarrow> engine_view \<Rightarrow> (string \<times> fp) list \<Rightarrow> fp \<Rightarrow> fp \<Rightarrow> fp list \<Rightarrow> cg_node \<Rightarrow> (fp \<times> cg_node) option" where
  "eval_node lm eng params beat dt vals n =
     (let inp = node_in n vals; st = cg_state n in
      case cg_type n of
        Const_val \<Rightarrow> Some (cg_args n ! 0, n)
      | Param_ref \<Rightarrow> Some (case map_of params (cg_param_key n) of Some v \<Rightarrow> v | None \<Rightarrow> Fin 0, n)
      | Mod_ref \<Rightarrow> map_option (\<lambda>v. (v, n)) (mod_ref_value eng n)
      | Beat_in \<Rightarrow> Some (to_float beat, n)
      | Beat_phase \<Rightarrow> Some (if fle (inp 0) (Fin 0) then Fin 0 else f_mod (sdiv (to_float beat) (inp 0)) (Fin 1), n)
      | Phasor \<Rightarrow>
          (let ph = sadd (st ! 0) (smul (inp 0) dt); ph1 = (if fle (Fin 1) ph then ssub ph (f_floor ph) else ph) in
           Some (st ! 0, n\<lparr>cg_state := st[0 := ph1]\<rparr>))
      | Sin \<Rightarrow> Some (lm_sin lm (smul (inp 0) kTwoPi_graph), n)
      | Cos \<Rightarrow> Some (lm_cos lm (smul (inp 0) kTwoPi_graph), n)
      | Tri \<Rightarrow> Some (if flt (inp 0) (Fin (1/2)) then ssub (smul (Fin 4) (inp 0)) (Fin 1) else ssub (Fin 3) (smul (Fin 4) (inp 0)), n)
      | Saw \<Rightarrow> Some (ssub (smul (inp 0) (Fin 2)) (Fin 1), n)
      | Square \<Rightarrow> Some (if flt (inp 0) (inp 1) then Fin 1 else Fin (- 1), n)
      | Scale \<Rightarrow> Some (sadd (inp 1) (smul (inp 0) (ssub (inp 2) (inp 1))), n)
      | Clamp \<Rightarrow> (if flt (inp 2) (inp 1) then None else Some (fclamp (inp 0) (inp 1) (inp 2), n))
      | Add \<Rightarrow> Some (sadd (inp 0) (inp 1), n)
      | Mul \<Rightarrow> Some (smul (inp 0) (inp 1), n)
      | Neg \<Rightarrow> Some (fneg (inp 0), n)
      | Abs_val \<Rightarrow> Some (f_abs (inp 0), n)
      | Mix \<Rightarrow> (let t = clampf 0 1 (inp 2) in Some (sadd (smul (inp 0) (ssub (Fin 1) t)) (smul (inp 1) t), n))
      | Slew \<Rightarrow>
          (let target = inp 0; rise = inp 1; fall = inp 2; cur = st ! 0;
               nxt = (if flt cur target then (if flt (Fin 0) rise then fmin (sadd cur (sdiv dt rise)) target else target)
                      else (if flt (Fin 0) fall then fmax (ssub cur (sdiv dt fall)) target else target)) in
           Some (nxt, n\<lparr>cg_state := st[0 := nxt]\<rparr>))
      | Sample_hold \<Rightarrow>
          (let held = (if flt (Fin (1/2)) (inp 1) \<and> fle (st ! 1) (Fin (1/2)) then inp 0 else st ! 0) in
           Some (held, n\<lparr>cg_state := st[0 := held, 1 := inp 1]\<rparr>))
      | Threshold \<Rightarrow> Some (if flt (inp 1) (inp 0) then Fin 1 else Fin 0, n)
      | Comparator \<Rightarrow> Some (if flt (inp 1) (inp 0) then Fin 1 else Fin 0, n))"

record graph_modulator =
  gm_graph :: control_graph
  gm_values :: "fp list"

definition graph_new :: "control_graph \<Rightarrow> graph_modulator" where
  "graph_new g = \<lparr>gm_graph = g, gm_values = replicate (length (gr_nodes g)) (Fin 0)\<rparr>"

text \<open>The forward pass from node \<open>i\<close> on.\<close>

fun eval_nodes :: "libm \<Rightarrow> engine_view \<Rightarrow> (string \<times> fp) list \<Rightarrow> fp \<Rightarrow> fp \<Rightarrow> nat \<Rightarrow> cg_node list \<Rightarrow> fp list \<Rightarrow> (cg_node list \<times> fp list) option" where
  "eval_nodes lm eng params beat dt i [] vals = Some ([], vals)"
| "eval_nodes lm eng params beat dt i (n # ns) vals = (case eval_node lm eng params beat dt vals n of
     None \<Rightarrow> None
   | Some (v, n') \<Rightarrow> (case eval_nodes lm eng params beat dt (Suc i) ns (vals[i := v]) of
       None \<Rightarrow> None
     | Some (ns', vals') \<Rightarrow> Some (n' # ns', vals')))"

definition out_value :: "fp list \<Rightarrow> int \<Rightarrow> fp" where
  "out_value vals idx = (if 0 \<le> idx then vals ! nat idx else Fin 0)"

definition resize :: "nat \<Rightarrow> fp list \<Rightarrow> fp list" where
  "resize n xs = take n xs @ replicate (n - length xs) (Fin 0)"

definition graph_tick :: "libm \<Rightarrow> engine_view \<Rightarrow> fp \<Rightarrow> fp \<Rightarrow> graph_modulator \<Rightarrow> (modulator_output \<times> graph_modulator) option" where
  "graph_tick lm eng beat tick_rate_hz s =
     (let g = gm_graph s; dt = (if flt (Fin 0) tick_rate_hz then sdiv (Fin 1) tick_rate_hz else Fin 0);
          vals0 = resize (length (gr_nodes g)) (gm_values s) in
      case eval_nodes lm eng (gr_params g) beat dt 0 (gr_nodes g) vals0 of
        None \<Rightarrow> None
      | Some (ns, vals) \<Rightarrow>
        Some (output_new\<lparr>o_cv := out_value vals (gr_out_cv g), o_aux := out_value vals (gr_out_aux g),
            o_gate := (0 \<le> gr_out_gate g \<and> flt (Fin (1/2)) (out_value vals (gr_out_gate g))),
            o_gate2 := (0 \<le> gr_out_gate2 g \<and> flt (Fin (1/2)) (out_value vals (gr_out_gate2 g)))\<rparr>,
          s\<lparr>gm_graph := g\<lparr>gr_nodes := ns\<rparr>, gm_values := vals\<rparr>))"

definition graph_update :: "string \<Rightarrow> fp \<Rightarrow> graph_modulator \<Rightarrow> graph_modulator option" where
  "graph_update key v s = Some (s\<lparr>gm_graph := (gm_graph s)\<lparr>gr_params := AList.update key v (gr_params (gm_graph s))\<rparr>\<rparr>)"

section \<open>The compiled order\<close>

definition node_before :: "nat \<Rightarrow> cg_node \<Rightarrow> bool" where
  "node_before i n = (length (cg_inputs n) = 4 \<and> list_all (\<lambda>x. - 1 \<le> x \<and> x < int i) (cg_inputs n))"

definition topo :: "cg_node list \<Rightarrow> bool" where
  "topo g = (\<forall>i < length g. node_before i (g ! i))"

lemma topo_Nil [simp]: "topo []"
  by (simp add: topo_def)

lemma topo_snoc: "topo (g @ [n]) \<longleftrightarrow> topo g \<and> node_before (length g) n"
  by (auto simp: topo_def nth_append less_Suc_eq)

lemma no_inputs_before: "cg_inputs n = replicate 4 (- 1) \<Longrightarrow> node_before i n"
  by (simp add: node_before_def list_all_iff)

lemma const_node_before [simp]: "node_before i (const_node c)"
  by (rule no_inputs_before) (simp add: const_node_def node_new_def)

lemma leaf_node_before: "leaf_node op args = Some n \<Longrightarrow> node_before i n"
  by (rule no_inputs_before) (auto simp: leaf_node_def node_new_def const_node_def split: if_splits)

lemma op_slots_length: "op_slots op = Some (k, ds) \<Longrightarrow> length ds \<le> 3"
  by (auto simp: op_slots_def split: if_splits)

lemma fill_inputs_before:
  "length is \<le> 4 \<Longrightarrow> list_all (\<lambda>x. - 1 \<le> x \<and> x < int i) is \<Longrightarrow> node_before i (fill_inputs is (node_new k))"
  by (auto simp: node_before_def fill_inputs_def node_new_def list_all_iff)

definition parse_ok :: "cg_node list \<Rightarrow> cg_node list \<Rightarrow> int list \<Rightarrow> bool" where
  "parse_ok g g' is = ((\<exists>ns. g' = g @ ns) \<and> list_all (\<lambda>x. - 1 \<le> x \<and> x < int (length g')) is \<and> (topo g \<longrightarrow> topo g'))"

lemma parse_ok_push: "node_before (length g) n \<Longrightarrow> push_node n g = (i, g') \<Longrightarrow> parse_ok g g' [i]"
  by (auto simp: parse_ok_def push_node_def topo_snoc)

lemma parse_ok_trans: "parse_ok g g1 is \<Longrightarrow> parse_ok g1 g2 js \<Longrightarrow> parse_ok g g2 (is @ js)"
  by (fastforce simp: parse_ok_def list_all_iff)

lemma parse_ok_skip: "parse_ok g g' is \<Longrightarrow> parse_ok g g' (- 1 # is)"
  by (auto simp: parse_ok_def)

lemma parse_topo:
  shows "parse_node v g = (i, g') \<Longrightarrow> parse_ok g g' [i]"
    and "parse_children ds args g = (is, g') \<Longrightarrow> parse_ok g g' is \<and> length is = length ds"
proof (induction v g and ds args g arbitrary: i g' and "is" g' rule: parse_node_parse_children.induct)
  case (3 op args g)
  show ?case
  proof (cases "leaf_node op args")
    case (Some n)
    then show ?thesis using 3(2) leaf_node_before [of op args n] by (auto intro: parse_ok_push)
  next
    case None
    note leaf = this
    show ?thesis
    proof (cases "op_slots op")
      case None
      then show ?thesis using 3(2) leaf by (auto simp: parse_ok_def)
    next
      case (Some kd)
      obtain k ds where kd: "kd = (k, ds)" by fastforce
      obtain "is" g1 where c: "parse_children ds args g = (is, g1)" by fastforce
      have p: "parse_ok g g1 is" "length is = length ds" using 3(1) [OF leaf Some kd [symmetric] c] by auto
      have "push_node (fill_inputs is (node_new k)) g1 = (i, g')" using 3(2) leaf Some kd c by simp
      moreover have "node_before (length g1) (fill_inputs is (node_new k))"
        using p op_slots_length [of op k ds] Some kd by (intro fill_inputs_before) (auto simp: parse_ok_def)
      ultimately have "parse_ok g1 g' [i]" by (intro parse_ok_push) auto
      with p(1) show ?thesis by (auto simp: parse_ok_def)
    qed
  qed
next
  case (6 ds g)
  then show ?case by (auto intro: parse_ok_skip split: prod.splits)
next
  case (7 c ds g)
  obtain j g1 where p: "push_node (const_node c) g = (j, g1)" by fastforce
  obtain js g2 where c: "parse_children ds [] g1 = (js, g2)" by fastforce
  from 7(1) [OF p [symmetric] c] parse_ok_push [OF _ p] 7(2) p c show ?case by (auto dest: parse_ok_trans)
next
  case (8 d ds a args g)
  obtain j g1 where p: "parse_node a g = (j, g1)" by fastforce
  obtain js g2 where c: "parse_children ds args g1 = (js, g2)" by fastforce
  from 8(1) [OF p] 8(2) [OF p [symmetric] c] 8(3) p c show ?case by (auto dest: parse_ok_trans)
qed (auto simp: parse_ok_def push_node_def topo_snoc split: prod.splits)

text \<open>The outputs of a compiled graph, whatever the shape of its expression.\<close>

definition graph_outs :: "control_graph \<Rightarrow> int list" where
  "graph_outs g = [gr_out_cv g, gr_out_aux g, gr_out_gate g, gr_out_gate2 g]"

lemma parse_graph_ok: "parse_ok [] (gr_nodes (parse_control_graph L expr params)) (graph_outs (parse_control_graph L expr params))"
proof (cases "\<exists>m. expr = Edn_map m")
  case True
  then obtain m where m: "expr = Edn_map m" by blast
  have out: "parse_ok g g' [i]" if "parse_out L m kw g = (i, g')" for kw g i g'
    using that parse_topo(1) by (auto simp: parse_out_def parse_ok_def split: option.splits)
  obtain i1 g1 where p1: "parse_out L m ''cv'' [] = (i1, g1)" by fastforce
  obtain i2 g2 where p2: "parse_out L m ''aux'' g1 = (i2, g2)" by fastforce
  obtain i3 g3 where p3: "parse_out L m ''gate'' g2 = (i3, g3)" by fastforce
  obtain i4 g4 where p4: "parse_out L m ''gate2'' g3 = (i4, g4)" by fastforce
  have "parse_ok [] g4 ((([i1] @ [i2]) @ [i3]) @ [i4])"
    by (rule parse_ok_trans [OF parse_ok_trans [OF parse_ok_trans [OF out [OF p1] out [OF p2]] out [OF p3]] out [OF p4]])
  then show ?thesis using m p1 p2 p3 p4 by (auto simp: parse_control_graph_def graph_outs_def)
next
  case False
  obtain i g where p: "parse_node expr [] = (i, g)" by fastforce
  have "parse_control_graph L expr params =
    \<lparr>gr_nodes = g, gr_params = params, gr_out_cv = i, gr_out_aux = - 1, gr_out_gate = - 1, gr_out_gate2 = - 1\<rparr>"
    using False p by (cases expr) (auto simp: parse_control_graph_def)
  then show ?thesis using parse_topo(1) [OF p] by (simp add: parse_ok_def graph_outs_def)
qed

section \<open>Properties\<close>

text \<open>Whatever the expression, the compiled graph is in topological order: every input of a node is
  absent or an earlier node, and every output is absent or a node, so one forward pass reads only values
  computed in the same pass.\<close>

theorem parse_control_graph_topological:
  "topo (gr_nodes (parse_control_graph L expr params)) \<and>
   list_all (\<lambda>x. - 1 \<le> x \<and> x < int (length (gr_nodes (parse_control_graph L expr params))))
     [gr_out_cv (parse_control_graph L expr params), gr_out_aux (parse_control_graph L expr params),
      gr_out_gate (parse_control_graph L expr params), gr_out_gate2 (parse_control_graph L expr params)]"
  using parse_graph_ok [of L expr params] by (simp add: parse_ok_def graph_outs_def)

text \<open>An unknown operator inside an expression does not empty the graph, as the header says of parse
  errors: the graph keeps its nodes and the failed input counts as zero.\<close>

theorem graph_parse_error_keeps_nodes:
  "gr_nodes (parse_control_graph L (Edn_vector [Edn_keyword ''add'', Edn_double (Fin 1), Edn_vector [Edn_keyword ''bogus'']]) []) \<noteq> [] \<and>
   gr_out_cv (parse_control_graph L (Edn_vector [Edn_keyword ''add'', Edn_double (Fin 1), Edn_vector [Edn_keyword ''bogus'']]) []) = 1"
  by (simp add: parse_control_graph_def leaf_node_def op_slots_def push_node_def)

end
