(* ===== verification/Engine.thy ===== *)
theory Engine
  imports Mod_Chaos Graph_Modulator
begin

text \<open>
  The modulator engine (\<open>modulator_engine.hpp\<close>, \<open>modulator_engine.cpp\<close>) and the registry of extension
  types (\<open>modulator_registry.hpp\<close>).
\<close>

section \<open>Modulators\<close>

text \<open>The classes behind \<open>abstract_modulator\<close>; \<open>M_ext\<close> are the types an application registers.\<close>

datatype 'e modulator =
    M_slope slope_modulator
  | M_segment segment_modulator
  | M_slew slew_modulator
  | M_shift_register shift_register_modulator
  | M_fractal fractal_modulator
  | M_stochastic stochastic_modulator
  | M_graph graph_modulator
  | M_decoder cv_channel_decoder
  | M_divine divine_cmos_modulator
  | M_statues statues_modulator
  | M_cipher cipher_modulator
  | M_bools bools_ring_modulator
  | M_sloth sloth_chaos_modulator
  | M_squid squid_axon_modulator
  | M_genie genie_modulator
  | M_splosh lets_splosh_modulator
  | M_ext 'e

record 'e mod_env =
  me_libm :: libm
  me_ext_tick :: "engine_view \<Rightarrow> fp \<Rightarrow> fp \<Rightarrow> 'e \<Rightarrow> (modulator_output \<times> 'e) option"
  me_ext_update :: "string \<Rightarrow> fp \<Rightarrow> 'e \<Rightarrow> 'e option"

definition re_wrap :: "('s \<Rightarrow> 'e modulator) \<Rightarrow> (modulator_output \<times> 's) option \<Rightarrow> (modulator_output \<times> 'e modulator) option" where
  "re_wrap c r = map_option (\<lambda>(out, s). (out, c s)) r"

fun mod_tick :: "'e mod_env \<Rightarrow> engine_view \<Rightarrow> fp \<Rightarrow> fp \<Rightarrow> 'e modulator \<Rightarrow> (modulator_output \<times> 'e modulator) option" where
  "mod_tick E eng b r (M_slope s) = re_wrap M_slope (slope_tick (me_libm E) b r s)"
| "mod_tick E eng b r (M_segment s) = re_wrap M_segment (segment_tick b r s)"
| "mod_tick E eng b r (M_slew s) = re_wrap M_slew (slew_tick (me_libm E) b r s)"
| "mod_tick E eng b r (M_shift_register s) = re_wrap M_shift_register (shift_register_tick b r s)"
| "mod_tick E eng b r (M_fractal s) = re_wrap M_fractal (fractal_tick (me_libm E) b r s)"
| "mod_tick E eng b r (M_stochastic s) = re_wrap M_stochastic (stochastic_tick (me_libm E) b r s)"
| "mod_tick E eng b r (M_graph s) = re_wrap M_graph (graph_tick (me_libm E) eng b r s)"
| "mod_tick E eng b r (M_decoder s) = re_wrap M_decoder (decoder_tick eng b r s)"
| "mod_tick E eng b r (M_divine s) = re_wrap M_divine (divine_tick (me_libm E) eng b r s)"
| "mod_tick E eng b r (M_statues s) = re_wrap M_statues (statues_tick eng b r s)"
| "mod_tick E eng b r (M_cipher s) = re_wrap M_cipher (cipher_tick eng b r s)"
| "mod_tick E eng b r (M_bools s) = re_wrap M_bools (bools_tick (me_libm E) eng b r s)"
| "mod_tick E eng b r (M_sloth s) = re_wrap M_sloth (sloth_tick eng b r s)"
| "mod_tick E eng b r (M_squid s) = re_wrap M_squid (squid_tick eng b r s)"
| "mod_tick E eng b r (M_genie s) = re_wrap M_genie (genie_tick eng b r s)"
| "mod_tick E eng b r (M_splosh s) = re_wrap M_splosh (splosh_tick eng b r s)"
| "mod_tick E eng b r (M_ext s) = re_wrap M_ext (me_ext_tick E eng b r s)"

fun mod_update :: "'e mod_env \<Rightarrow> string \<Rightarrow> fp \<Rightarrow> 'e modulator \<Rightarrow> 'e modulator option" where
  "mod_update E k v (M_slope s) = map_option M_slope (slope_update k v s)"
| "mod_update E k v (M_segment s) = map_option M_segment (segment_update k v s)"
| "mod_update E k v (M_slew s) = map_option M_slew (slew_update k v s)"
| "mod_update E k v (M_shift_register s) = map_option M_shift_register (shift_register_update k v s)"
| "mod_update E k v (M_fractal s) = map_option M_fractal (fractal_update k v s)"
| "mod_update E k v (M_stochastic s) = map_option M_stochastic (stochastic_update k v s)"
| "mod_update E k v (M_graph s) = map_option M_graph (graph_update k v s)"
| "mod_update E k v (M_decoder s) = map_option M_decoder (decoder_update k v s)"
| "mod_update E k v (M_divine s) = map_option M_divine (divine_update k v s)"
| "mod_update E k v (M_statues s) = map_option M_statues (statues_update k v s)"
| "mod_update E k v (M_cipher s) = map_option M_cipher (cipher_update k v s)"
| "mod_update E k v (M_bools s) = map_option M_bools (bools_update k v s)"
| "mod_update E k v (M_sloth s) = map_option M_sloth (sloth_update k v s)"
| "mod_update E k v (M_squid s) = map_option M_squid (squid_update k v s)"
| "mod_update E k v (M_genie s) = map_option M_genie (genie_update k v s)"
| "mod_update E k v (M_splosh s) = map_option M_splosh (splosh_update k v s)"
| "mod_update E k v (M_ext s) = map_option M_ext (me_ext_update E k v s)"

section \<open>The registry\<close>

type_synonym 'e modulator_registry = "(string \<times> 'e) list"

definition register_type :: "string \<Rightarrow> 'e \<Rightarrow> 'e modulator_registry \<Rightarrow> 'e modulator_registry" where
  "register_type name fresh reg = AList.update name fresh reg"

text \<open>A factory is a value: the modulator it constructs.\<close>

definition registry_make :: "'e modulator_registry \<Rightarrow> string \<Rightarrow> 'e option" where
  "registry_make reg name = map_of reg name"

definition registry_contains :: "'e modulator_registry \<Rightarrow> string \<Rightarrow> bool" where
  "registry_contains reg name = (map_of reg name \<noteq> None)"

section \<open>The engine\<close>

text \<open>The published table and the outputs recorded by the tick thread.\<close>

record 'e modulator_engine =
  en_mods :: "string \<rightharpoonup> 'e modulator"
  en_tick_order :: "string list"
  en_last_outputs :: "string \<rightharpoonup> modulator_output"

definition engine_new :: "'e modulator_engine" where
  "engine_new = \<lparr>en_mods = \<lambda>_. None, en_tick_order = [], en_last_outputs = \<lambda>_. None\<rparr>"

definition engine_start :: "string \<Rightarrow> 'e modulator \<Rightarrow> 'e modulator_engine \<Rightarrow> 'e modulator_engine" where
  "engine_start mid m e =
     e\<lparr>en_tick_order := (if en_mods e mid = None then en_tick_order e @ [mid] else en_tick_order e),
       en_mods := (en_mods e)(mid \<mapsto> m)\<rparr>"

definition engine_stop :: "string \<Rightarrow> 'e modulator_engine \<Rightarrow> 'e modulator_engine" where
  "engine_stop mid e = e\<lparr>en_mods := (en_mods e)(mid := None), en_tick_order := removeAll mid (en_tick_order e)\<rparr>"

definition update_param :: "'e mod_env \<Rightarrow> string \<Rightarrow> string \<Rightarrow> fp \<Rightarrow> 'e modulator_engine \<Rightarrow> 'e modulator_engine option" where
  "update_param E mid key v e = (case en_mods e mid of
     None \<Rightarrow> Some e
   | Some m \<Rightarrow> map_option (\<lambda>m'. e\<lparr>en_mods := (en_mods e)(mid \<mapsto> m')\<rparr>) (mod_update E key v m))"

definition last_output :: "'e modulator_engine \<Rightarrow> string \<Rightarrow> modulator_output option" where
  "last_output e mid = en_last_outputs e mid"

definition engine_size :: "'e modulator_engine \<Rightarrow> nat" where
  "engine_size e = card (dom (en_mods e))"

text \<open>The loop of \<open>tick\<close> over the order of the table; the callbacks are the returned list.\<close>

fun tick_all :: "'e mod_env \<Rightarrow> fp \<Rightarrow> fp \<Rightarrow> string list \<Rightarrow> 'e modulator_engine \<Rightarrow> ((string \<times> modulator_output) list \<times> 'e modulator_engine) option" where
  "tick_all E b r [] e = Some ([], e)"
| "tick_all E b r (mid # ids) e = (case en_mods e mid of
     None \<Rightarrow> tick_all E b r ids e
   | Some m \<Rightarrow> (case mod_tick E (Some (last_output e)) b r m of
       None \<Rightarrow> None
     | Some (out, m') \<Rightarrow>
         (case tick_all E b r ids (e\<lparr>en_mods := (en_mods e)(mid \<mapsto> m'), en_last_outputs := (en_last_outputs e)(mid \<mapsto> out)\<rparr>) of
            None \<Rightarrow> None
          | Some (outs, e') \<Rightarrow> Some ((mid, out) # outs, e'))))"

definition engine_tick :: "'e mod_env \<Rightarrow> fp \<Rightarrow> fp \<Rightarrow> 'e modulator_engine \<Rightarrow> ((string \<times> modulator_output) list \<times> 'e modulator_engine) option" where
  "engine_tick E b r e = tick_all E b r (en_tick_order e) e"

section \<open>The table in tick order\<close>

text \<open>
  Abstractly the engine is the list of its modulators in tick order: starting replaces in place or
  appends, stopping deletes, a tick threads the recorded outputs through the list.
\<close>

definition engine_wf :: "'e modulator_engine \<Rightarrow> bool" where
  "engine_wf e = (distinct (en_tick_order e) \<and> set (en_tick_order e) = dom (en_mods e))"

definition active :: "'e modulator_engine \<Rightarrow> (string \<times> 'e modulator) list" where
  "active e = map (\<lambda>i. (i, the (en_mods e i))) (en_tick_order e)"

fun spec_tick :: "'e mod_env \<Rightarrow> fp \<Rightarrow> fp \<Rightarrow> (string \<times> 'e modulator) list \<Rightarrow> (string \<rightharpoonup> modulator_output) \<Rightarrow>
    ((string \<times> modulator_output) list \<times> (string \<times> 'e modulator) list) option" where
  "spec_tick E b r [] seen = Some ([], [])"
| "spec_tick E b r ((i, m) # ms) seen = (case mod_tick E (Some seen) b r m of
     None \<Rightarrow> None
   | Some (out, m') \<Rightarrow> (case spec_tick E b r ms (seen(i \<mapsto> out)) of
       None \<Rightarrow> None
     | Some (outs, ms') \<Rightarrow> Some ((i, out) # outs, (i, m') # ms')))"

lemma engine_new_wf [simp]: "engine_wf engine_new"
  by (simp add: engine_wf_def engine_new_def)

lemma engine_start_wf: "engine_wf e \<Longrightarrow> engine_wf (engine_start i m e)"
  by (auto simp: engine_wf_def engine_start_def domIff)

lemma engine_stop_wf: "engine_wf e \<Longrightarrow> engine_wf (engine_stop i e)"
  by (auto simp: engine_wf_def engine_stop_def distinct_removeAll)

lemma update_param_wf: "engine_wf e \<Longrightarrow> update_param E i k v e = Some e' \<Longrightarrow> engine_wf e'"
  by (auto simp: engine_wf_def update_param_def split: option.splits if_splits)

lemma active_keys [simp]: "map fst (active e) = en_tick_order e"
  by (simp add: active_def comp_def)

lemma map_of_active: "engine_wf e \<Longrightarrow> map_of (active e) = en_mods e"
proof
  fix i assume wf: "engine_wf e"
  show "map_of (active e) i = en_mods e i"
  proof (cases "i \<in> set (en_tick_order e)")
    case True
    then have "(i, the (en_mods e i)) \<in> set (active e)" by (auto simp: active_def)
    then have "map_of (active e) i = Some (the (en_mods e i))" using wf by (intro map_of_is_SomeI) (simp_all add: engine_wf_def)
    then show ?thesis using True wf by (auto simp: engine_wf_def)
  next
    case False
    then have "map_of (active e) i = None" by (metis active_keys map_of_eq_None_iff list.set_map)
    then show ?thesis using False wf by (auto simp: engine_wf_def)
  qed
qed

text \<open>Two tables with the same keys in the same order and the same lookups are the same list.\<close>

lemma alist_eqI:
  assumes "map fst xs = map fst ys" "distinct (map fst xs)" "map_of xs = map_of ys"
  shows "xs = ys"
proof (rule nth_equalityI)
  show len: "length xs = length ys" using assms(1) by (metis length_map)
  fix i assume i: "i < length xs"
  have k: "fst (xs ! i) = fst (ys ! i)" using assms(1) i len by (metis nth_map)
  have "map_of xs (fst (xs ! i)) = Some (snd (xs ! i))" using assms(2) i by (simp add: map_of_eq_Some_iff)
  moreover have "map_of ys (fst (ys ! i)) = Some (snd (ys ! i))" using assms(1,2) i len by (simp add: map_of_eq_Some_iff)
  ultimately have "snd (xs ! i) = snd (ys ! i)" using assms(3) k by simp
  then show "xs ! i = ys ! i" using k by (simp add: prod_eq_iff)
qed

lemma active_start: "engine_wf e \<Longrightarrow> active (engine_start i m e) = AList.update i m (active e)"
proof (rule alist_eqI)
  assume wf: "engine_wf e"
  show "map fst (active (engine_start i m e)) = map fst (AList.update i m (active e))"
    using wf by (auto simp: update_keys engine_start_def engine_wf_def domIff)
  show "distinct (map fst (active (engine_start i m e)))" using engine_start_wf [OF wf, of i m] by (simp add: engine_wf_def)
  show "map_of (active (engine_start i m e)) = map_of (AList.update i m (active e))"
    using map_of_active [OF wf] map_of_active [OF engine_start_wf [OF wf]] by (simp add: update_conv' engine_start_def)
qed

lemma active_stop: "engine_wf e \<Longrightarrow> active (engine_stop i e) = AList.delete i (active e)"
proof (rule alist_eqI)
  assume wf: "engine_wf e"
  show "map fst (active (engine_stop i e)) = map fst (AList.delete i (active e))"
    by (simp add: delete_keys engine_stop_def)
  show "distinct (map fst (active (engine_stop i e)))" using engine_stop_wf [OF wf, of i] by (simp add: engine_wf_def)
  show "map_of (active (engine_stop i e)) = map_of (AList.delete i (active e))"
    using map_of_active [OF wf] map_of_active [OF engine_stop_wf [OF wf]] by (simp add: delete_conv' engine_stop_def)
qed

lemma engine_size_active: "engine_wf e \<Longrightarrow> engine_size e = length (active e)"
  by (metis active_keys distinct_card engine_size_def engine_wf_def length_map)

lemma last_output_eq: "last_output e = en_last_outputs e"
  by (simp add: fun_eq_iff last_output_def)

lemma spec_tick_keys: "spec_tick E b r ms seen = Some (outs, ms') \<Longrightarrow> map fst ms' = map fst ms \<and> map fst outs = map fst ms"
  by (induction ms arbitrary: seen outs ms') (auto split: option.splits prod.splits)

lemma tick_all_spec:
  assumes "distinct ids" "set ids \<subseteq> dom (en_mods e)"
  shows "tick_all E b r ids e = (case spec_tick E b r (map (\<lambda>i. (i, the (en_mods e i))) ids) (en_last_outputs e) of
     None \<Rightarrow> None
   | Some (outs, ms) \<Rightarrow> Some (outs, e\<lparr>en_mods := en_mods e ++ map_of ms, en_last_outputs := en_last_outputs e ++ map_of (rev outs)\<rparr>))"
  using assms
proof (induction ids arbitrary: e)
  case (Cons i ids)
  then obtain m where m: "en_mods e i = Some m" by auto
  show ?case
  proof (cases "mod_tick E (Some (en_last_outputs e)) b r m")
    case (Some om)
    obtain out m' where om: "om = (out, m')" by fastforce
    define f g where "f = (en_last_outputs e)(i \<mapsto> out)" and "g = (en_mods e)(i \<mapsto> m')"
    let ?ms = "map (\<lambda>i. (i, the (en_mods e i))) ids" and ?e = "e\<lparr>en_mods := g, en_last_outputs := f\<rparr>"
    have same: "map (\<lambda>j. (j, the (g j))) ids = ?ms" using Cons.prems(1) by (auto simp: g_def)
    have sel: "en_mods ?e = g" "en_last_outputs ?e = f"
      "?e\<lparr>en_mods := x, en_last_outputs := y\<rparr> = e\<lparr>en_mods := x, en_last_outputs := y\<rparr>" for x y by simp_all
    have "distinct ids" "set ids \<subseteq> dom g" using Cons.prems by (auto simp: g_def)
    then have IH: "tick_all E b r ids ?e = (case spec_tick E b r ?ms f of None \<Rightarrow> None
      | Some (outs, ms) \<Rightarrow> Some (outs, e\<lparr>en_mods := g ++ map_of ms, en_last_outputs := f ++ map_of (rev outs)\<rparr>))"
      using Cons.IH [of ?e] by (simp only: sel same)
    have step: "tick_all E b r (i # ids) e = (case tick_all E b r ids ?e of None \<Rightarrow> None | Some (outs, e') \<Rightarrow> Some ((i, out) # outs, e'))"
      using m Some om by (simp add: last_output_eq f_def g_def)
    have spec: "spec_tick E b r (map (\<lambda>i. (i, the (en_mods e i))) (i # ids)) (en_last_outputs e) =
      (case spec_tick E b r ?ms f of None \<Rightarrow> None | Some (outs, ms') \<Rightarrow> Some ((i, out) # outs, (i, m') # ms'))"
      using m Some om by (simp add: f_def)
    show ?thesis
    proof (cases "spec_tick E b r ?ms f")
      case None
      then show ?thesis unfolding step spec IH by simp
    next
      case (Some oms)
      then obtain outs ms where oms: "oms = (outs, ms)" by fastforce
      have "map fst ms = ids" using Some oms spec_tick_keys [of E b r ?ms f outs ms] by (simp add: comp_def)
      then have "i \<notin> dom (map_of ms)" using Cons.prems(1) by (force simp: dom_map_of_conv_image_fst)
      then have "g ++ map_of ms = en_mods e ++ (map_of ms)(i \<mapsto> m')"
        by (auto simp: g_def fun_eq_iff map_add_def domIff split: option.splits)
      moreover have "f ++ map_of (rev outs) = en_last_outputs e ++ map_of (rev outs @ [(i, out)])"
        by (auto simp: f_def fun_eq_iff map_add_def split: option.splits)
      ultimately show ?thesis using Some oms unfolding step spec IH by simp
    qed
  qed (use m in \<open>simp add: last_output_eq\<close>)
qed simp

lemma engine_tick_spec:
  assumes "engine_wf e"
  shows "engine_tick E b r e = (case spec_tick E b r (active e) (en_last_outputs e) of
     None \<Rightarrow> None
   | Some (outs, ms) \<Rightarrow> Some (outs, e\<lparr>en_mods := en_mods e ++ map_of ms, en_last_outputs := en_last_outputs e ++ map_of (rev outs)\<rparr>))"
  unfolding engine_tick_def active_def using assms by (intro tick_all_spec) (simp_all add: engine_wf_def)

lemma engine_tick_cases:
  assumes "engine_wf e" "engine_tick E b r e = Some (outs, e')"
  obtains ms where "spec_tick E b r (active e) (en_last_outputs e) = Some (outs, ms)"
    "e' = e\<lparr>en_mods := en_mods e ++ map_of ms, en_last_outputs := en_last_outputs e ++ map_of (rev outs)\<rparr>"
    "map fst ms = en_tick_order e" "map fst outs = en_tick_order e"
  using assms spec_tick_keys [of E b r "active e" "en_last_outputs e" outs] by (auto simp: engine_tick_spec split: option.splits prod.splits)

lemma engine_tick_wf: "engine_wf e \<Longrightarrow> engine_tick E b r e = Some (outs, e') \<Longrightarrow> engine_wf e'"
proof -
  assume wf: "engine_wf e" and t: "engine_tick E b r e = Some (outs, e')"
  obtain ms where ms: "e' = e\<lparr>en_mods := en_mods e ++ map_of ms, en_last_outputs := en_last_outputs e ++ map_of (rev outs)\<rparr>"
    "map fst ms = en_tick_order e" by (rule engine_tick_cases [OF wf t])
  have "dom (map_of ms) = set (en_tick_order e)" unfolding ms(2) [symmetric] by (simp add: dom_map_of_conv_image_fst)
  then show ?thesis using wf ms(1) by (simp add: engine_wf_def)
qed

lemma active_tick:
  assumes "engine_wf e" "spec_tick E b r (active e) (en_last_outputs e) = Some (outs, ms)" "map fst ms = en_tick_order e"
  shows "active (e\<lparr>en_mods := en_mods e ++ map_of ms, en_last_outputs := lst\<rparr>) = ms"
proof (rule alist_eqI)
  let ?e = "e\<lparr>en_mods := en_mods e ++ map_of ms, en_last_outputs := lst\<rparr>"
  have d: "dom (map_of ms) = dom (en_mods e)" using assms(1,3) by (auto simp: dom_map_of_conv_image_fst engine_wf_def simp flip: list.set_map)
  then have wf: "engine_wf ?e" using assms(1) by (simp add: engine_wf_def)
  show "map fst (active ?e) = map fst ms" "distinct (map fst (active ?e))" using assms(1,3) by (simp_all add: engine_wf_def)
  have "en_mods e ++ map_of ms = map_of ms" using d by (auto simp: fun_eq_iff map_add_def domIff split: option.splits)
  then show "map_of (active ?e) = map_of ms" using map_of_active [OF wf] by simp
qed

lemma spec_tick_nth:
  "spec_tick E b r ms seen = Some (outs, ms') \<Longrightarrow> k < length ms \<Longrightarrow>
   mod_tick E (Some (seen ++ map_of (rev (take k outs)))) b r (snd (ms ! k)) = Some (snd (outs ! k), snd (ms' ! k))"
proof (induction ms arbitrary: seen outs ms' k)
  case (Cons im ms)
  obtain i m where im: "im = (i, m)" by fastforce
  with Cons.prems(1) obtain out m' outs1 ms1 where s: "mod_tick E (Some seen) b r m = Some (out, m')"
    "spec_tick E b r ms (seen(i \<mapsto> out)) = Some (outs1, ms1)" "outs = (i, out) # outs1" "ms' = (i, m') # ms1"
    by (auto split: option.splits prod.splits)
  show ?case
  proof (cases k)
    case (Suc j)
    have eq: "seen(i \<mapsto> out) ++ map_of (rev (take j outs1)) = seen ++ map_of (rev (take k outs))"
      unfolding s(3) Suc by (auto simp: fun_eq_iff map_add_def split: option.splits)
    have "j < length ms" using Cons.prems(2) Suc by simp
    from Cons.IH [OF s(2) this] show ?thesis unfolding eq using Suc s(3,4) by simp
  qed (use s im in simp)
qed simp

section \<open>The interface of the table\<close>

text \<open>A table of named modulators that the control thread edits: what it holds, in tick order, after any edits.\<close>

datatype 'm table_edit = Put string 'm | Del string

fun table_spec :: "'m table_edit \<Rightarrow> (string \<times> 'm) list \<Rightarrow> (string \<times> 'm) list" where
  "table_spec (Put i m) xs = AList.update i m xs"
| "table_spec (Del i) xs = AList.delete i xs"

locale modulator_table =
  fixes inv :: "'s \<Rightarrow> bool" and content :: "'s \<Rightarrow> (string \<times> 'm) list" and put :: "string \<Rightarrow> 'm \<Rightarrow> 's \<Rightarrow> 's" and del :: "string \<Rightarrow> 's \<Rightarrow> 's"
  assumes put_inv: "inv s \<Longrightarrow> inv (put i m s)" and del_inv: "inv s \<Longrightarrow> inv (del i s)"
    and content_distinct: "inv s \<Longrightarrow> distinct (map fst (content s))"
    and put_content: "inv s \<Longrightarrow> content (put i m s) = AList.update i m (content s)"
    and del_content: "inv s \<Longrightarrow> content (del i s) = AList.delete i (content s)"
begin

fun edit :: "'m table_edit \<Rightarrow> 's \<Rightarrow> 's" where
  "edit (Put i m) s = put i m s"
| "edit (Del i) s = del i s"

lemma edits_content: "inv s \<Longrightarrow> inv (fold edit es s) \<and> content (fold edit es s) = fold table_spec es (content s)"
proof (induction es arbitrary: s)
  case (Cons c es)
  have "inv (edit c s)" "content (edit c s) = table_spec c (content s)"
    using Cons.prems by (cases c; simp add: put_inv del_inv put_content del_content)+
  with Cons.IH [of "edit c s"] show ?case by simp
qed simp

text \<open>Replacing a modulator keeps every position; the last edit of a name decides what it holds.\<close>

lemma put_keeps_order: "inv s \<Longrightarrow> i \<in> fst ` set (content s) \<Longrightarrow> map fst (content (put i m s)) = map fst (content s)"
  by (simp add: put_content update_keys)

lemma lookup_put: "inv s \<Longrightarrow> map_of (content (put i m s)) j = (if j = i then Some m else map_of (content s) j)"
  by (simp add: put_content update_conv')

lemma lookup_del: "inv s \<Longrightarrow> map_of (content (del i s)) j = (if j = i then None else map_of (content s) j)"
  by (simp add: del_content delete_conv')

end

interpretation engine_table: modulator_table engine_wf active engine_start engine_stop
  by unfold_locales (simp_all add: engine_start_wf engine_stop_wf active_start active_stop, simp add: engine_wf_def)

fun engine_edit :: "'e modulator table_edit \<Rightarrow> 'e modulator_engine \<Rightarrow> 'e modulator_engine" where
  "engine_edit (Put i m) e = engine_start i m e"
| "engine_edit (Del i) e = engine_stop i e"

lemma engine_edit_eq: "engine_edit c = engine_table.edit c"
  by (cases c) (simp_all add: fun_eq_iff)

section \<open>Properties\<close>

text \<open>C21: the engine implements an ordered table: after any sequence of starts and stops the active
  modulators, in tick order, are what replacing in place, appending and deleting in a list gives, and
  size() is their number.\<close>

theorem engine_refines_table:
  "active (fold engine_edit es engine_new) = fold table_spec es [] \<and>
   engine_size (fold engine_edit es engine_new) = length (fold table_spec es [])"
proof -
  have f: "fold engine_edit es = fold engine_table.edit es" using engine_edit_eq by (metis ext)
  have "engine_wf (fold engine_edit es engine_new)" "active (fold engine_edit es engine_new) = fold table_spec es []"
    using engine_table.edits_content [OF engine_new_wf, of es] by (simp_all add: f active_def engine_new_def)
  then show ?thesis by (simp add: engine_size_active)
qed

text \<open>C22: a tick calls every active modulator exactly once, in tick order; the k-th sees the outputs of
  this tick for those before it and the outputs of earlier ticks for itself and those after it; every
  output is recorded and reported once.\<close>

theorem engine_tick_order:
  assumes "engine_wf e" "engine_tick E b r e = Some (outs, e')"
  shows "map fst outs = en_tick_order e \<and> en_tick_order e' = en_tick_order e \<and> engine_wf e' \<and>
    last_output e' = last_output e ++ map_of (rev outs) \<and>
    (\<forall>k < length outs. \<exists>m m'. en_mods e (fst (outs ! k)) = Some m \<and> en_mods e' (fst (outs ! k)) = Some m' \<and>
       mod_tick E (Some (last_output e ++ map_of (rev (take k outs)))) b r m = Some (snd (outs ! k), m'))"
proof -
  obtain ms where ms: "spec_tick E b r (active e) (en_last_outputs e) = Some (outs, ms)"
    "e' = e\<lparr>en_mods := en_mods e ++ map_of ms, en_last_outputs := en_last_outputs e ++ map_of (rev outs)\<rparr>"
    "map fst ms = en_tick_order e" "map fst outs = en_tick_order e" by (rule engine_tick_cases [OF assms])
  have wf: "engine_wf e'" by (rule engine_tick_wf [OF assms])
  have act: "active e' = ms" unfolding ms(2) by (rule active_tick [OF assms(1) ms(1,3)])
  have nth: "en_mods s (fst (outs ! k)) = Some (snd (active s ! k))"
    if "engine_wf s" "en_tick_order s = en_tick_order e" "k < length outs" for s :: "'e modulator_engine" and k
  proof -
    have "length (active s) = length outs" using that(2) ms(4) by (metis active_keys length_map)
    moreover have "fst (outs ! k) = fst (active s ! k)" using that(2,3) ms(4) calculation by (metis active_keys nth_map)
    ultimately show ?thesis using that map_of_active [OF that(1)]
      by (metis active_keys engine_wf_def map_of_eq_Some_iff nth_mem prod.collapse)
  qed
  have "length (active e) = length outs" using ms(4) by (metis active_keys length_map)
  then show ?thesis using ms wf act nth [OF assms(1)] nth [OF wf] spec_tick_nth [OF ms(1)] by (simp add: last_output_eq)
qed

definition plain_env :: "unit mod_env" where
  "plain_env = \<lparr>me_libm = libm_const, me_ext_tick = \<lambda>eng b r s. Some (output_new, s), me_ext_update = \<lambda>k v s. Some s\<rparr>"

definition one_statue :: "unit modulator_engine" where
  "one_statue = engine_start ''a'' (M_statues (statues_new [] [])) engine_new"

theorem engine_tick_order_witness:
  "\<exists>outs e'. engine_tick plain_env (Fin 0) (Fin 100) one_statue = Some (outs, e') \<and> map fst outs = [''a''] \<and> engine_wf e'"
proof -
  have wf: "engine_wf one_statue" unfolding one_statue_def by (intro engine_start_wf engine_new_wf)
  have "\<exists>outs e'. engine_tick plain_env (Fin 0) (Fin 100) one_statue = Some (outs, e')"
    by (simp add: engine_tick_def one_statue_def engine_start_def engine_new_def re_wrap_def statues_tick_def Let_def)
  then obtain outs e' where t: "engine_tick plain_env (Fin 0) (Fin 100) one_statue = Some (outs, e')" by blast
  have "en_tick_order one_statue = [''a'']" by (simp add: one_statue_def engine_start_def engine_new_def)
  with engine_tick_order [OF wf t] t show ?thesis by auto
qed

end
