(* ===== verification/Modulator_Start.thy ===== *)
theory Modulator_Start
  imports Engine
begin

text \<open>
  The \<open>msg_modulator_start\<close>, \<open>msg_modulator_stop\<close> and \<open>msg_modulator_update\<close> branches of
  \<open>rt_control_thread::dispatch_message\<close>: building a modulator from an EDN map. The result of a
  branch is \<open>None\<close> for undefined behaviour, \<open>Some None\<close> when no modulator is started.
\<close>

fun updates :: "'e mod_env \<Rightarrow> (string \<times> fp) list \<Rightarrow> 'e modulator \<Rightarrow> 'e modulator option" where
  "updates E [] m = Some m"
| "updates E ((k, v) # kvs) m = (case mod_update E k v m of None \<Rightarrow> None | Some m' \<Rightarrow> updates E kvs m')"

definition started :: "'e modulator option \<Rightarrow> 'e modulator option option" where
  "started r = map_option Some r"

text \<open>\<open>static_cast<int>\<close> of an \<open>int64_t\<close> keeps the low 32 bits.\<close>

definition wrap32 :: "int \<Rightarrow> int" where
  "wrap32 i = sint (of_int i :: 32 word)"

text \<open>A keyword parameter looked up in a table, and the name of a source \<open>[:source ...]\<close>.\<close>

definition get_choice :: "edn_lib \<Rightarrow> (string \<times> 'a) list \<Rightarrow> edn_map \<Rightarrow> string \<Rightarrow> 'a \<Rightarrow> 'a" where
  "get_choice L table m kw d = (case ed_find_kw L m kw of
     Some (Edn_keyword k) \<Rightarrow> (case map_of table k of Some x \<Rightarrow> x | None \<Rightarrow> d)
   | _ \<Rightarrow> d)"

definition get_src :: "edn_lib \<Rightarrow> edn_map \<Rightarrow> string \<Rightarrow> string" where
  "get_src L m kw = (case ed_find_kw L m kw of Some (Edn_vector (Edn_keyword k # _)) \<Rightarrow> k | _ \<Rightarrow> [])"

definition get_ins_src :: "edn_lib \<Rightarrow> edn_map \<Rightarrow> string \<Rightarrow> string" where
  "get_ins_src L m kw = (case ed_find_kw L m ''ins'' of Some (Edn_map ins) \<Rightarrow> get_src L ins kw | _ \<Rightarrow> [])"

definition digit_key :: "string \<Rightarrow> nat \<Rightarrow> string" where
  "digit_key prefix i = prefix @ [char_of (48 + i)]"

section \<open>The built-in types\<close>

definition start_slope :: "edn_lib \<Rightarrow> 'e mod_env \<Rightarrow> edn_map \<Rightarrow> 'e modulator option option" where
  "start_slope L E m = started (updates E
     [(''rate'', get_float L m ''rate'' (Fin 1)), (''shape'', get_float L m ''shape'' (Fin 0)),
      (''slope'', get_float L m ''slope'' (Fin 0)), (''smoothness'', get_float L m ''smoothness'' (Fin 0)),
      (''depth'', get_float L m ''depth'' (Fin 1)), (''bipolar'', get_float L m ''bipolar'' (Fin 1))] (M_slope slope_new))"

definition seg_types :: "(string \<times> seg_type) list" where
  "seg_types = [(''ramp'', Seg_ramp), (''step'', Seg_step), (''hold'', Seg_hold), (''alt'', Seg_alt)]"

definition segment_item :: "edn_lib \<Rightarrow> edn_map \<Rightarrow> segment_def" where
  "segment_item L sm = \<lparr>sd_kind = get_choice L seg_types sm ''type'' Seg_ramp,
     sd_primary = get_float L sm ''primary'' (Fin (1/2)), sd_secondary = get_float L sm ''secondary'' (Fin (1/2)),
     sd_loop = (case ed_find_kw L sm ''loop'' of None \<Rightarrow> False | Some Edn_nil \<Rightarrow> False | Some (Edn_bool b) \<Rightarrow> b | Some _ \<Rightarrow> True)\<rparr>"

fun segment_items :: "edn_lib \<Rightarrow> edn list \<Rightarrow> segment_def list" where
  "segment_items L [] = []"
| "segment_items L (v # vs) = (case v of Edn_map sm \<Rightarrow> segment_item L sm # segment_items L vs | _ \<Rightarrow> segment_items L vs)"

definition start_segment :: "edn_lib \<Rightarrow> edn_map \<Rightarrow> 'e modulator option option" where
  "start_segment L m = (case ed_find_kw L m ''segments'' of
     Some (Edn_vector items) \<Rightarrow>
       (let defs = segment_items L items in
        if defs = [] then Some None else started (map_option M_segment (segment_new defs)))
   | _ \<Rightarrow> Some None)"

definition start_slew :: "edn_lib \<Rightarrow> 'e mod_env \<Rightarrow> edn_map \<Rightarrow> 'e modulator option option" where
  "start_slew L E m = started (updates E
     [(''rise'', get_float L m ''rise'' (lit F32 (1/10))), (''fall'', get_float L m ''fall'' (lit F32 (1/10))),
      (''cycle'', get_float L m ''cycle'' (Fin 0)), (''depth'', get_float L m ''depth'' (Fin 1))] (M_slew slew_new))"

definition sr_modes :: "(string \<times> sr_mode) list" where
  "sr_modes = [(''lfsr'', Sr_lfsr), (''rungler'', Sr_rungler), (''turing'', Sr_turing), (''open'', Sr_open)]"

definition start_shift_register :: "edn_lib \<Rightarrow> 'e mod_env \<Rightarrow> edn_map \<Rightarrow> 'e modulator option option" where
  "start_shift_register L E m =
     (case (to_int32 (get_float L m ''length'' (Fin 16)), to_int32 (get_float L m ''dac_bits'' (Fin 3))) of
        (Some len, Some dac) \<Rightarrow> started (updates E
          [(''clock_rate'', get_float L m ''clock_rate'' (Fin 2)), (''data'', get_float L m ''data'' (Fin (1/2))),
           (''param'', get_float L m ''param'' (Fin (1/2))), (''depth'', get_float L m ''depth'' (Fin 1))]
          (M_shift_register (shift_register_new (get_choice L sr_modes m ''mode'' Sr_turing) len dac)))
      | _ \<Rightarrow> None)"

definition start_fractal :: "edn_lib \<Rightarrow> 'e mod_env \<Rightarrow> edn_map \<Rightarrow> 'e modulator option option" where
  "start_fractal L E m = started (updates E
     [(''base_rate'', get_float L m ''base_rate'' (lit F32 (1/10))), (''octaves'', get_float L m ''octaves'' (Fin 4)),
      (''lacunarity'', get_float L m ''lacunarity'' (Fin 2)), (''persistence'', get_float L m ''persistence'' (Fin (1/2))),
      (''depth'', get_float L m ''depth'' (Fin 1))] (M_fractal fractal_new))"

definition start_stochastic :: "edn_lib \<Rightarrow> 'e mod_env \<Rightarrow> edn_map \<Rightarrow> 'e modulator option option" where
  "start_stochastic L E m = started (updates E
     [(''rate'', get_float L m ''rate'' (Fin 2)), (''bias'', get_float L m ''bias'' (Fin (1/2))),
      (''spread'', get_float L m ''spread'' (Fin (1/2))), (''deja_vu'', get_float L m ''deja_vu'' (Fin 0)),
      (''length'', get_float L m ''length'' (Fin 8)), (''depth'', get_float L m ''depth'' (Fin 1))] (M_stochastic stochastic_new))"

definition graph_params :: "edn_map \<Rightarrow> (string \<times> fp) list" where
  "graph_params entries = fold (\<lambda>(k, v) ps. case (k, edn_float v) of (Edn_keyword n, Some x) \<Rightarrow> AList.update n x ps | _ \<Rightarrow> ps) entries []"

definition start_graph :: "edn_lib \<Rightarrow> edn_map \<Rightarrow> 'e modulator option option" where
  "start_graph L m = (case ed_find_kw L m ''graph'' of
     None \<Rightarrow> Some None
   | Some g \<Rightarrow>
       (let params = (case ed_find_kw L m ''params'' of Some (Edn_map ps) \<Rightarrow> graph_params ps | _ \<Rightarrow> []) in
        Some (Some (M_graph (graph_new (parse_control_graph L g params))))))"

definition decoder_field :: "edn list \<Rightarrow> source_field" where
  "decoder_field vec = (case vec of
     _ # Edn_keyword f # _ \<Rightarrow> if f = ''gate'' then Sf_gate else if f = ''aux'' then Sf_aux else Sf_cv
   | _ \<Rightarrow> Sf_cv)"

definition start_decoder :: "edn_lib \<Rightarrow> 'e mod_env \<Rightarrow> edn_map \<Rightarrow> 'e modulator option option" where
  "start_decoder L E m =
     (let channels = (case ed_find_kw L m ''channels'' of
            Some (Edn_int i) \<Rightarrow> Some (wrap32 i) | Some (Edn_double d) \<Rightarrow> to_int32 d | _ \<Rightarrow> Some 1);
          vec = (case ed_find_kw L m ''span'' of Some (Edn_vector items) \<Rightarrow> items | _ \<Rightarrow> []);
          static = (case ed_find_kw L m ''span'' of Some v \<Rightarrow> (case edn_float v of Some x \<Rightarrow> [(''span'', x)] | None \<Rightarrow> []) | None \<Rightarrow> []) in
      case channels of
        None \<Rightarrow> None
      | Some n \<Rightarrow> started (updates E
          ([(''space'', get_float L m ''space'' (Fin 1)), (''clocked'', get_float L m ''clocked'' (Fin 0))] @ static)
          (M_decoder (decoder_new n (first_keyword vec) (decoder_field vec)))))"

definition gain_updates :: "edn_lib \<Rightarrow> edn_map \<Rightarrow> (string \<times> fp) list" where
  "gain_updates L m = (case ed_find_kw L m ''gains'' of
     Some (Edn_vector items) \<Rightarrow>
       map (\<lambda>i. (digit_key ''gain'' i, case edn_float (items ! i) of Some g \<Rightarrow> g | None \<Rightarrow> Fin 1)) [0..<min 4 (length items)]
   | _ \<Rightarrow> [])"

definition start_divine :: "edn_lib \<Rightarrow> 'e mod_env \<Rightarrow> edn_map \<Rightarrow> 'e modulator option option" where
  "start_divine L E m = started (updates E (gain_updates L m @ [(''slew'', get_float L m ''slew'' (Fin 0))])
     (M_divine (divine_new (get_src L m ''clock1'') (get_src L m ''clock2''))))"

definition start_statues :: "edn_lib \<Rightarrow> edn_map \<Rightarrow> 'e modulator option option" where
  "start_statues L m = Some (Some (M_statues (statues_new (get_src L m ''in'') (get_src L m ''addr''))))"

definition start_cipher :: "edn_lib \<Rightarrow> edn_map \<Rightarrow> 'e modulator option option" where
  "start_cipher L m = Some (Some (M_cipher
     (cipher_new (get_src L m ''clock'') (get_src L m ''data1'') (get_src L m ''data2'') (get_src L m ''strobe''))))"

definition br_modes :: "(string \<times> br_mode) list" where
  "br_modes = [(''xor'', Br_xor), (''or'', Br_or), (''and'', Br_and), (''nor'', Br_nor), (''nand'', Br_nand), (''xnor'', Br_xnor)]"

definition start_bools :: "edn_lib \<Rightarrow> 'e mod_env \<Rightarrow> edn_map \<Rightarrow> 'e modulator option option" where
  "start_bools L E m = started (updates E [(''slew'', get_float L m ''slew'' (Fin 0))]
     (M_bools (bools_new (get_choice L br_modes m ''mode'' Br_xor)
       (get_ins_src L m ''in0'') (get_ins_src L m ''in1'') (get_ins_src L m ''in2'') (get_ins_src L m ''in3'') [])))"

definition sloth_variants :: "(string \<times> sloth_variant) list" where
  "sloth_variants = [(''torpor'', Torpor), (''apathy'', Apathy), (''inertia'', Inertia), (''triple'', Triple)]"

definition start_sloth :: "edn_lib \<Rightarrow> 'e mod_env \<Rightarrow> edn_map \<Rightarrow> 'e modulator option option" where
  "start_sloth L E m = started (updates E [(''knob'', get_float L m ''knob'' (Fin (1/2)))]
     (M_sloth (sloth_new (get_choice L sloth_variants m ''variant'' Torpor) (get_src L m ''cv''))))"

definition start_squid :: "edn_lib \<Rightarrow> 'e mod_env \<Rightarrow> edn_map \<Rightarrow> 'e modulator option option" where
  "start_squid L E m = started (updates E
     ([(''nl_fb'', get_float L m ''nl-fb'' (Fin 0)), (''lin_fb'', get_float L m ''lin-fb'' (Fin 0))] @
      (if ed_find_kw L m ''in3'' \<noteq> None then [(''in3_patched'', Fin 1)] else []))
     (M_squid (squid_new (get_src L m ''clock'') (get_src L m ''in1'') (get_src L m ''in2'') (get_src L m ''in3''))))"

text \<open>\<open>apply_vec_param\<close>: one update per element that is a double.\<close>

definition vec_updates :: "edn_lib \<Rightarrow> edn_map \<Rightarrow> string \<Rightarrow> string \<Rightarrow> (string \<times> fp) list" where
  "vec_updates L m kw prefix = (case ed_find_kw L m kw of
     Some (Edn_vector items) \<Rightarrow>
       concat (map (\<lambda>i. case items ! i of Edn_double d \<Rightarrow> [(digit_key prefix i, to_float d)] | _ \<Rightarrow> []) [0..<min kMaxN (length items)])
   | _ \<Rightarrow> [])"

definition start_genie :: "edn_lib \<Rightarrow> 'e mod_env \<Rightarrow> edn_map \<Rightarrow> 'e modulator option option" where
  "start_genie L E m = (case to_int32 (get_float L m ''n'' (Fin 3)) of
     None \<Rightarrow> None
   | Some n \<Rightarrow> started (updates E
       (vec_updates L m ''gains'' ''gain'' @ vec_updates L m ''sense'' ''sense'' @ vec_updates L m ''response'' ''response'')
       (M_genie (genie_new n None))))"

definition start_splosh :: "edn_lib \<Rightarrow> edn_map \<Rightarrow> 'e modulator option option" where
  "start_splosh L m = Some (Some (M_splosh
     (splosh_new (get_ins_src L m ''c'') (get_ins_src L m ''t'') (get_ins_src L m ''n'') (get_ins_src L m ''b''))))"

section \<open>Extension types\<close>

definition ext_updates :: "edn_map \<Rightarrow> (string \<times> fp) list" where
  "ext_updates entries = concat (map (\<lambda>(k, v). case (k, edn_float v) of
     (Edn_keyword n, Some x) \<Rightarrow> if n = ''id'' \<or> n = ''type'' then [] else [(n, x)]
   | _ \<Rightarrow> []) entries)"

definition start_ext :: "'e mod_env \<Rightarrow> 'e modulator_registry option \<Rightarrow> string \<Rightarrow> edn_map \<Rightarrow> 'e modulator option option" where
  "start_ext E reg type_name m = (case reg of
     None \<Rightarrow> Some None
   | Some r \<Rightarrow> (case registry_make r type_name of
       None \<Rightarrow> Some None
     | Some x \<Rightarrow> started (updates E (ext_updates m) (M_ext x))))"

definition build_modulator :: "edn_lib \<Rightarrow> 'e mod_env \<Rightarrow> 'e modulator_registry option \<Rightarrow> string \<Rightarrow> edn_map \<Rightarrow> 'e modulator option option" where
  "build_modulator L E reg type_name m =
     (if type_name = ''slope'' then start_slope L E m
      else if type_name = ''segment'' then start_segment L m
      else if type_name = ''slew'' then start_slew L E m
      else if type_name = ''shift-register'' then start_shift_register L E m
      else if type_name = ''fractal'' then start_fractal L E m
      else if type_name = ''stochastic'' then start_stochastic L E m
      else if type_name = ''graph'' then start_graph L m
      else if type_name = ''cv-channel-decoder'' then start_decoder L E m
      else if type_name = ''divine-cmos'' then start_divine L E m
      else if type_name = ''statues'' then start_statues L m
      else if type_name = ''cipher'' then start_cipher L m
      else if type_name = ''bools-ring'' then start_bools L E m
      else if type_name = ''sloth-chaos'' then start_sloth L E m
      else if type_name = ''squid-axon'' then start_squid L E m
      else if type_name = ''genie'' then start_genie L E m
      else if type_name = ''lets-splosh'' then start_splosh L m
      else start_ext E reg type_name m)"

section \<open>The three messages\<close>

definition handle_modulator_start ::
  "edn_lib \<Rightarrow> 'e mod_env \<Rightarrow> 'e modulator_registry option \<Rightarrow> edn_map \<Rightarrow> 'e modulator_engine \<Rightarrow> 'e modulator_engine option" where
  "handle_modulator_start L E reg m e =
     (case (ed_find_kw L m ''id'', ed_find_kw L m ''type'') of
        (Some id_v, Some type_v) \<Rightarrow>
          (let name = edn_name id_v; type_name = (case type_v of Edn_keyword k \<Rightarrow> k | _ \<Rightarrow> []) in
           if name = [] then Some e
           else (case build_modulator L E reg type_name m of
             None \<Rightarrow> None
           | Some None \<Rightarrow> Some e
           | Some (Some md) \<Rightarrow> Some (engine_start name md e)))
      | _ \<Rightarrow> Some e)"

definition handle_modulator_stop :: "edn_lib \<Rightarrow> edn_map \<Rightarrow> 'e modulator_engine \<Rightarrow> 'e modulator_engine" where
  "handle_modulator_stop L m e = (case ed_find_kw L m ''id'' of
     None \<Rightarrow> e
   | Some v \<Rightarrow> if edn_name v = [] then e else engine_stop (edn_name v) e)"

definition handle_modulator_update :: "edn_lib \<Rightarrow> 'e mod_env \<Rightarrow> edn_map \<Rightarrow> 'e modulator_engine \<Rightarrow> 'e modulator_engine option" where
  "handle_modulator_update L E m e =
     (case (ed_find_kw L m ''id'', ed_find_kw L m ''key'', ed_find_kw L m ''value'') of
        (Some id_v, Some key_v, Some value_v) \<Rightarrow>
          (let name = edn_name id_v; key = edn_name key_v in
           if name = [] \<or> key = [] then Some e
           else update_param E name key (case edn_float value_v of Some x \<Rightarrow> x | None \<Rightarrow> Fin 0) e)
      | _ \<Rightarrow> Some e)"

end
