(* ===== verification/Float_Bits.thy ===== *)
theory Float_Bits
  imports Floats
begin

text \<open>
  The bit pattern of a binary32 value, which \<open>std::memcpy\<close> between a \<open>float\<close> and a
  \<open>uint32_t\<close> exposes (\<open>osc_encode.hpp\<close>, \<open>osc_server.cpp\<close>).
\<close>

definition pack32 :: "bool \<Rightarrow> nat \<Rightarrow> nat \<Rightarrow> u32" where
  "pack32 neg b m = of_nat ((if neg then 2 ^ 31 else 0) + b * 2 ^ 23 + m)"

definition f32_mant :: "rat \<Rightarrow> nat" where
  "f32_mant r = nat \<lfloor>\<bar>r\<bar> / 2 powi ulp_exp F32 r\<rfloor>"

fun f32_bits :: "fp \<Rightarrow> u32" where
  "f32_bits (Fin r) =
     (if r = 0 then 0
      else if f32_mant r < 2 ^ 23 then pack32 (r < 0) 0 (f32_mant r)
      else pack32 (r < 0) (nat (ulp_exp F32 r + 150)) (f32_mant r - 2 ^ 23))"
| "f32_bits NegZero = pack32 True 0 0"
| "f32_bits PInf = pack32 False 255 0"
| "f32_bits NInf = pack32 True 255 0"
| "f32_bits NaN = pack32 False 255 (2 ^ 22)"

definition bits_f32 :: "u32 \<Rightarrow> fp" where
  "bits_f32 w =
     (let neg = (2 ^ 31 \<le> unat w); b = unat w div 2 ^ 23 mod 256; m = unat w mod 2 ^ 23 in
      if b = 255 then (if m = 0 then f_inf neg else NaN)
      else if b = 0 then mk_fin neg ((if neg then -1 else 1) * of_nat m * 2 powi (- 149))
      else mk_fin neg ((if neg then -1 else 1) * of_nat (2 ^ 23 + m) * 2 powi (int b - 150)))"

text \<open>A value a \<open>float\<close> variable can hold.\<close>

fun is_float :: "fp \<Rightarrow> bool" where
  "is_float (Fin r) = (to_float (Fin r) = Fin r)"
| "is_float _ = True"

lemma pack32_fields:
  assumes "b < 256" "m < 2 ^ 23"
  shows "2 ^ 31 \<le> unat (pack32 neg b m) \<longleftrightarrow> neg"
    and "unat (pack32 neg b m) div 2 ^ 23 mod 256 = b"
    and "unat (pack32 neg b m) mod 2 ^ 23 = m"
proof -
  let ?n = "(if neg then 2 ^ 31 else 0) + b * 2 ^ 23 + m"
  have u: "unat (pack32 neg b m) = ?n"
    using assms unfolding pack32_def unat_of_nat by auto
  have n: "?n = ((if neg then 256 else 0) + b) * 2 ^ 23 + m" by simp
  show "2 ^ 31 \<le> unat (pack32 neg b m) \<longleftrightarrow> neg" unfolding u using assms by auto
  show "unat (pack32 neg b m) div 2 ^ 23 mod 256 = b"
    unfolding u n using assms by (simp add: div_mult_self3 del: power_numeral)
  show "unat (pack32 neg b m) mod 2 ^ 23 = m" unfolding u n using assms by (simp del: power_numeral)
qed

lemma f32_mant_value:
  assumes "rep F32 r"
  shows "of_nat (f32_mant r) * 2 powi ulp_exp F32 r = \<bar>r\<bar>" "f32_mant r < 2 ^ 24"
    "f32_mant r < 2 ^ 23 \<Longrightarrow> ulp_exp F32 r = - 149"
proof -
  let ?u = "ulp_exp F32 r"
  have "rnd_val F32 \<bar>r\<bar> = \<bar>r\<bar>" using assms rep_uminus [OF assms] by (simp add: abs_if rnd_val_id)
  moreover have uabs: "ulp_exp F32 \<bar>r\<bar> = ?u" by (simp add: ulp_exp_def)
  ultimately have v: "of_int (rne (\<bar>r\<bar> / 2 powi ?u)) * 2 powi ?u = \<bar>r\<bar>" by (simp add: rnd_val_def)
  then have q: "\<bar>r\<bar> / 2 powi ?u = of_int (rne (\<bar>r\<bar> / 2 powi ?u))" by (simp add: divide_eq_eq)
  have "0 \<le> \<bar>r\<bar> / 2 powi ?u" by simp
  with q have m: "of_nat (f32_mant r) = \<bar>r\<bar> / 2 powi ?u"
    unfolding f32_mant_def by (metis floor_of_int of_int_0_le_iff of_nat_nat)
  then show val: "of_nat (f32_mant r) * 2 powi ?u = \<bar>r\<bar>" by simp
  have "\<bar>r\<bar> < 2 ^ 24 * 2 powi ?u"
    using ulp_exp_spec(2) [OF fmt_ok_F32, of r] by (simp add: F32_def power_int_add)
  then have "of_nat (f32_mant r) < (of_nat (2 ^ 24) :: rat)" using m by (simp add: divide_less_eq)
  then show "f32_mant r < 2 ^ 24" by (simp only: of_nat_less_iff)
  assume "f32_mant r < 2 ^ 23"
  then have "of_nat (f32_mant r) < (of_nat (2 ^ 23) :: rat)" by (simp only: of_nat_less_iff)
  then have "\<bar>r\<bar> < 2 ^ 23 * 2 powi ?u" using m by (simp add: divide_less_eq)
  also have "\<dots> = 2 powi (?u + int (prec F32) - 1)" by (simp add: F32_def power_int_add power_int_diff)
  finally show "?u = - 149" using ulp_exp_spec(3) [OF fmt_ok_F32, of r] by (simp add: F32_def)
qed

lemma is_float_rep:
  assumes "is_float (Fin r)"
  shows "rep F32 r" "\<bar>r\<bar> < 2 ^ 128"
proof -
  have "rnd F32 (r < 0) r = Fin r" using assms by simp
  then have v: "rnd_val F32 r = r" and b: "\<not> 2 ^ 128 \<le> r" "\<not> r \<le> - (2 ^ 128)"
    by (auto simp: rnd_def Let_def mk_fin_def F32_def split: if_splits)
  show "rep F32 r" using v rep_rnd_val [OF fmt_ok_F32, of r] by simp
  show "\<bar>r\<bar> < 2 ^ 128" using b by (simp add: abs_less_iff)
qed

lemma f32_exp_bound:
  assumes "rep F32 r" "\<bar>r\<bar> < 2 ^ 128" "2 ^ 23 \<le> f32_mant r"
  shows "ulp_exp F32 r \<le> 104"
proof (rule ccontr)
  assume "\<not> ulp_exp F32 r \<le> 104"
  then have "(2::rat) powi 105 \<le> 2 powi ulp_exp F32 r" by (intro power_int_increasing) auto
  moreover have "(of_nat (2 ^ 23) :: rat) \<le> of_nat (f32_mant r)" using assms(3) by (simp only: of_nat_le_iff)
  ultimately have "of_nat (2 ^ 23) * 2 powi 105 \<le> of_nat (f32_mant r) * (2::rat) powi ulp_exp F32 r"
    by (intro mult_mono) auto
  with f32_mant_value(1) [OF assms(1)] assms(2) show False by simp
qed

lemma f32_bits_roundtrip:
  assumes "is_float x" "x \<noteq> NaN"
  shows "bits_f32 (f32_bits x) = x"
proof (cases x)
  case (Fin r)
  note R = is_float_rep [OF assms(1) [unfolded Fin]]
  note M = f32_mant_value [OF R(1)]
  have sg: "(if r < 0 then - 1 else 1) * \<bar>r\<bar> = r" by simp
  have mkr: "mk_fin (r < 0) r = Fin r" by (simp add: mk_fin_def)
  show ?thesis
  proof (cases "r = 0")
    case True
    then show ?thesis using Fin by (simp add: bits_f32_def mk_fin_def)
  next
    case False
    show ?thesis
    proof (cases "f32_mant r < 2 ^ 23")
      case True
      then have "of_nat (f32_mant r) * (2::rat) powi (- 149) = \<bar>r\<bar>" using M by simp
      with True False Fin sg mkr show ?thesis
        using pack32_fields [of 0 "f32_mant r" "r < 0"] by (simp add: bits_f32_def Let_def mult.assoc)
    next
      case False
      let ?b = "nat (ulp_exp F32 r + 150)" and ?m = "f32_mant r - 2 ^ 23"
      have b: "?b < 255" "?b \<noteq> 0" "int ?b - 150 = ulp_exp F32 r"
        using f32_exp_bound [OF R] False ulp_exp_spec(1) [OF fmt_ok_F32, of r] by (auto simp: F32_def)
      have m: "?m < 2 ^ 23" "2 ^ 23 + ?m = f32_mant r" using M(2) False by auto
      show ?thesis
        using False \<open>r \<noteq> 0\<close> Fin b m M(1) sg mkr pack32_fields [of ?b ?m "r < 0"]
        by (simp add: bits_f32_def Let_def mult.assoc del: of_nat_add)
    qed
  qed
qed (use pack32_fields [of 0 0 True] pack32_fields [of 255 0 False] pack32_fields [of 255 0 True] assms(2) in
  \<open>simp_all add: bits_f32_def Let_def mk_fin_def f_inf_def\<close>)

end
