(* ===== verification/Small_Vector.thy ===== *)
theory Small_Vector
  imports Prelude
begin

text \<open>
  \<open>include/nomos/rt/small_vector.hpp\<close>: a fixed-capacity inline vector whose mutators refuse
  instead of growing. The capacity is the template argument.
\<close>

record 'a small_vector =
  sv_data :: "'a list"
  sv_size :: nat

definition sv_new :: "nat \<Rightarrow> 'a \<Rightarrow> 'a small_vector" where
  "sv_new cap d = \<lparr>sv_data = replicate cap d, sv_size = 0\<rparr>"

definition sv_push_back :: "nat \<Rightarrow> 'a small_vector \<Rightarrow> 'a \<Rightarrow> bool \<times> 'a small_vector" where
  "sv_push_back cap v x =
     (if sv_size v = cap then (False, v)
      else (True, v\<lparr>sv_data := (sv_data v)[sv_size v := x], sv_size := sv_size v + 1\<rparr>))"

fun sv_copy :: "'a list \<Rightarrow> nat \<Rightarrow> 'a list \<Rightarrow> 'a list" where
  "sv_copy d i [] = d"
| "sv_copy d i (x # xs) = sv_copy (d[i := x]) (Suc i) xs"

definition sv_append :: "nat \<Rightarrow> 'a small_vector \<Rightarrow> 'a list \<Rightarrow> bool \<times> 'a small_vector" where
  "sv_append cap v xs =
     (if cap - sv_size v < length xs then (False, v)
      else (True, v\<lparr>sv_data := sv_copy (sv_data v) (sv_size v) xs, sv_size := sv_size v + length xs\<rparr>))"

definition sv_clear :: "'a small_vector \<Rightarrow> 'a small_vector" where
  "sv_clear v = v\<lparr>sv_size := 0\<rparr>"

fun sv_of_list :: "nat \<Rightarrow> 'a small_vector \<Rightarrow> 'a list \<Rightarrow> 'a small_vector" where
  "sv_of_list cap v [] = v"
| "sv_of_list cap v (x # xs) =
     (if sv_size v = cap then v
      else sv_of_list cap (v\<lparr>sv_data := (sv_data v)[sv_size v := x], sv_size := sv_size v + 1\<rparr>) xs)"

definition sv_full :: "nat \<Rightarrow> 'a small_vector \<Rightarrow> bool" where
  "sv_full cap v = (sv_size v = cap)"

definition sv_invar :: "nat \<Rightarrow> 'a small_vector \<Rightarrow> bool" where
  "sv_invar cap v = (length (sv_data v) = cap \<and> sv_size v \<le> cap)"

definition sv_list :: "'a small_vector \<Rightarrow> 'a list" where
  "sv_list v = take (sv_size v) (sv_data v)"

lemma sv_length: "sv_invar cap v \<Longrightarrow> length (sv_list v) = sv_size v"
  by (simp add: sv_invar_def sv_list_def)

lemma length_sv_copy [simp]: "length (sv_copy d i xs) = length d"
  by (induction d i xs rule: sv_copy.induct) auto

lemma take_sv_copy: "i + length xs \<le> length d \<Longrightarrow> take (i + length xs) (sv_copy d i xs) = take i d @ xs"
proof (induction d i xs rule: sv_copy.induct)
  case (2 d i x xs)
  then have "take (Suc i) (d[i := x]) = take i d @ [x]" by (simp add: take_Suc_conv_app_nth)
  with 2 show ?case by simp
qed simp

text \<open>A mutator that refuses leaves the vector as it was; one that accepts appends.\<close>

lemma sv_push_back_spec:
  assumes "sv_invar cap v"
  shows "fst (sv_push_back cap v x) \<longleftrightarrow> length (sv_list v) < cap"
    and "sv_invar cap (snd (sv_push_back cap v x))"
    and "sv_list (snd (sv_push_back cap v x)) = (if length (sv_list v) < cap then sv_list v @ [x] else sv_list v)"
  using assms sv_length [OF assms]
  by (auto simp: sv_push_back_def sv_invar_def sv_list_def take_Suc_conv_app_nth)

lemma sv_append_spec:
  assumes "sv_invar cap v"
  shows "fst (sv_append cap v xs) \<longleftrightarrow> length (sv_list v) + length xs \<le> cap"
    and "sv_invar cap (snd (sv_append cap v xs))"
    and "sv_list (snd (sv_append cap v xs)) =
      (if length (sv_list v) + length xs \<le> cap then sv_list v @ xs else sv_list v)"
  using assms sv_length [OF assms] take_sv_copy [of "sv_size v" xs "sv_data v"]
  by (auto simp: sv_append_def sv_invar_def sv_list_def)

lemma sv_clear_spec: "sv_invar cap v \<Longrightarrow> sv_invar cap (sv_clear v)" "sv_list (sv_clear v) = []"
  by (simp_all add: sv_clear_def sv_invar_def sv_list_def)

lemma sv_new_spec: "sv_invar cap (sv_new cap d)" "sv_list (sv_new cap d) = []"
  by (simp_all add: sv_new_def sv_invar_def sv_list_def)

end
