(* ===== verification/Queue_Interface.thy ===== *)
theory Queue_Interface
  imports Prelude
begin

text \<open>
  What the clients of \<open>spsc_queue\<close> rely on: a bounded first-in first-out queue. The loops
  the clients run on a queue (push a batch, pop until empty, pop at most so many) are
  stated over the two operations; the locale proves what they do once.
\<close>

section \<open>Client loops\<close>

text \<open>Pushing a batch; a refused item is dropped, as every caller ignores the result.\<close>

fun push_all :: "('q \<Rightarrow> 'a \<Rightarrow> bool \<times> 'q) \<Rightarrow> 'q \<Rightarrow> 'a list \<Rightarrow> 'q" where
  "push_all psh q [] = q"
| "push_all psh q (x # xs) = push_all psh (snd (psh q x)) xs"

text \<open>\<open>while (auto ev = q.pop()) \<dots>\<close>: the loop returns only if the queue runs empty.\<close>

partial_function (option) pop_all :: "('q \<Rightarrow> 'a option \<times> 'q) \<Rightarrow> 'q \<Rightarrow> ('a list \<times> 'q) option" where
  "pop_all pp q = (case pp q of
     (None, q') \<Rightarrow> Some ([], q')
   | (Some x, q') \<Rightarrow> Option.bind (pop_all pp q') (\<lambda>(xs, q''). Some (x # xs, q'')))"

text \<open>\<open>while (count < max) { ev = q.pop(); if (!ev) break; \<dots> }\<close>\<close>

fun pop_upto :: "('q \<Rightarrow> 'a option \<times> 'q) \<Rightarrow> nat \<Rightarrow> 'q \<Rightarrow> 'a list \<times> 'q" where
  "pop_upto pp 0 q = ([], q)"
| "pop_upto pp (Suc n) q = (case pp q of
     (None, q') \<Rightarrow> ([], q')
   | (Some x, q') \<Rightarrow> (case pop_upto pp n q' of (xs, q'') \<Rightarrow> (x # xs, q'')))"

section \<open>The contract\<close>

locale bounded_fifo =
  fixes psh :: "'q \<Rightarrow> 'a \<Rightarrow> bool \<times> 'q"
    and pp :: "'q \<Rightarrow> 'a option \<times> 'q"
    and items :: "'q \<Rightarrow> 'a list"
    and invar :: "'q \<Rightarrow> bool"
    and room :: nat
  assumes push_room: "invar q \<Longrightarrow> length (items q) < room \<Longrightarrow>
      \<exists>q'. psh q x = (True, q') \<and> items q' = items q @ [x] \<and> invar q'"
    and push_full: "invar q \<Longrightarrow> \<not> length (items q) < room \<Longrightarrow> psh q x = (False, q)"
    and pop_empty: "invar q \<Longrightarrow> items q = [] \<Longrightarrow> pp q = (None, q)"
    and pop_cons: "invar q \<Longrightarrow> items q = x # xs \<Longrightarrow>
      \<exists>q'. pp q = (Some x, q') \<and> items q' = xs \<and> invar q'"
begin

lemma push_invar: "invar q \<Longrightarrow> invar (snd (psh q x))"
  using push_room [of q x] push_full [of q x] by fastforce

lemma push_items: "invar q \<Longrightarrow> items (snd (psh q x)) = take room (items q @ [x]) \<or> room < length (items q)"
  using push_room [of q x] push_full [of q x] by fastforce

lemma push_all_spec:
  "invar q \<Longrightarrow> length (items q) \<le> room \<Longrightarrow>
   invar (push_all psh q xs) \<and> items (push_all psh q xs) = take room (items q @ xs)"
proof (induction xs arbitrary: q)
  case Nil
  then show ?case by simp
next
  case (Cons x xs)
  show ?case
  proof (cases "length (items q) < room")
    case True
    then obtain q' where q': "psh q x = (True, q')" "items q' = items q @ [x]" "invar q'"
      using push_room Cons.prems(1) by blast
    with True show ?thesis using Cons.IH [of q'] by simp
  next
    case False
    with Cons.prems show ?thesis using push_full [of q x] Cons.IH [of q] by simp
  qed
qed

lemma pop_all_spec:
  "invar q \<Longrightarrow> \<exists>q'. pop_all pp q = Some (items q, q') \<and> items q' = [] \<and> invar q'"
proof (induction "items q" arbitrary: q)
  case Nil
  then have "pp q = (None, q)" by (simp add: pop_empty)
  with Nil show ?case by (simp add: pop_all.simps)
next
  case (Cons x xs)
  then obtain q' where q': "pp q = (Some x, q')" "items q' = xs" "invar q'" using pop_cons [of q x xs] by auto
  then obtain q'' where "pop_all pp q' = Some (xs, q'')" "items q'' = []" "invar q''" using Cons.hyps(1) [of q'] by auto
  with q' Cons.hyps(2) show ?case by (simp add: pop_all.simps [of pp q])
qed

lemma pop_upto_spec:
  "invar q \<Longrightarrow> \<exists>q'. pop_upto pp n q = (take n (items q), q') \<and> items q' = drop n (items q) \<and> invar q'"
proof (induction n arbitrary: q)
  case 0
  then show ?case by simp
next
  case (Suc n)
  show ?case
  proof (cases "items q")
    case Nil
    with Suc.prems show ?thesis by (simp add: pop_empty)
  next
    case (Cons x xs)
    then obtain q' where q': "pp q = (Some x, q')" "items q' = xs" "invar q'" using pop_cons [OF Suc.prems Cons] by blast
    then show ?thesis using Suc.IH [of q'] Cons by auto
  qed
qed

text \<open>First in, first out: what is accepted comes out in the order it went in.\<close>

lemma fifo:
  assumes "invar q" "length (items q) \<le> room"
  shows "\<exists>q'. pop_all pp (push_all psh q xs) = Some (take room (items q @ xs), q') \<and> items q' = []"
  using push_all_spec [OF assms, of xs] pop_all_spec [of "push_all psh q xs"] by auto

end

end
