(* ===== verification/Spsc_Queue.thy ===== *)
theory Spsc_Queue
  imports Queue_Interface
begin

text \<open>
  \<open>include/nomos/rt/spsc_queue.hpp\<close>: the lock-free single-producer single-consumer ring
  buffer that carries every message between the control thread and the audio thread.
\<close>

section \<open>The ring buffer\<close>

record 'a spsc =
  head :: u64
  tail :: u64
  slots :: "'a list"

definition q_mask :: "nat \<Rightarrow> u64" where
  "q_mask cap = of_nat cap - 1"

definition q_new :: "nat \<Rightarrow> 'a \<Rightarrow> 'a spsc" where
  "q_new cap d = \<lparr>head = 0, tail = 0, slots = replicate cap d\<rparr>"

definition q_push :: "nat \<Rightarrow> 'a spsc \<Rightarrow> 'a \<Rightarrow> bool \<times> 'a spsc" where
  "q_push cap q item =
     (let h = head q; nxt = (h + 1) AND q_mask cap in
      if nxt = tail q then (False, q)
      else (True, q\<lparr>slots := (slots q)[unat h := item], head := nxt\<rparr>))"

definition q_pop :: "nat \<Rightarrow> 'a spsc \<Rightarrow> 'a option \<times> 'a spsc" where
  "q_pop cap q =
     (let t = tail q in
      if t = head q then (None, q)
      else (Some (slots q ! unat t), q\<lparr>tail := (t + 1) AND q_mask cap\<rparr>))"

definition q_empty :: "'a spsc \<Rightarrow> bool" where
  "q_empty q = (head q = tail q)"

definition q_size :: "nat \<Rightarrow> 'a spsc \<Rightarrow> u64" where
  "q_size cap q = (head q - tail q) AND q_mask cap"

text \<open>The two static assertions, and the index ranges every operation keeps.\<close>

definition q_capacity_ok :: "nat \<Rightarrow> bool" where
  "q_capacity_ok cap = (\<exists>n. cap = 2 ^ n \<and> 1 \<le> n \<and> n < 64)"

definition q_invar :: "nat \<Rightarrow> 'a spsc \<Rightarrow> bool" where
  "q_invar cap q = (q_capacity_ok cap \<and> length (slots q) = cap \<and> unat (head q) < cap \<and> unat (tail q) < cap)"

text \<open>The abstract queue: the slots from the tail up to the head, cyclically.\<close>

definition ring_count :: "nat \<Rightarrow> nat \<Rightarrow> nat \<Rightarrow> nat" where
  "ring_count cap h t = (h + cap - t) mod cap"

definition ring_list :: "nat \<Rightarrow> 'a list \<Rightarrow> nat \<Rightarrow> nat \<Rightarrow> 'a list" where
  "ring_list cap xs h t = map (\<lambda>i. xs ! ((t + i) mod cap)) [0..<ring_count cap h t]"

definition q_list :: "nat \<Rightarrow> 'a spsc \<Rightarrow> 'a list" where
  "q_list cap q = ring_list cap (slots q) (unat (head q)) (unat (tail q))"

section \<open>Arithmetic of the ring\<close>

lemma ring_count_less: "0 < cap \<Longrightarrow> ring_count cap h t < cap"
  by (simp add: ring_count_def)

lemma ring_count_eq: "h < cap \<Longrightarrow> t < cap \<Longrightarrow> ring_count cap h t = (if t \<le> h then h - t else h + cap - t)"
  by (auto simp: ring_count_def mod_if)

lemma ring_count_0_iff: "h < cap \<Longrightarrow> t < cap \<Longrightarrow> ring_count cap h t = 0 \<longleftrightarrow> h = t"
  by (auto simp: ring_count_eq)

lemma ring_full_iff: "h < cap \<Longrightarrow> t < cap \<Longrightarrow> Suc h mod cap = t \<longleftrightarrow> ring_count cap h t = cap - 1"
  by (auto simp: ring_count_eq mod_if)

lemma ring_count_push:
  "h < cap \<Longrightarrow> t < cap \<Longrightarrow> Suc h mod cap \<noteq> t \<Longrightarrow> ring_count cap (Suc h mod cap) t = ring_count cap h t + 1"
  by (auto simp: ring_count_eq mod_if split: if_splits)

lemma ring_count_pop:
  "h < cap \<Longrightarrow> t < cap \<Longrightarrow> h \<noteq> t \<Longrightarrow> ring_count cap h t = ring_count cap h (Suc t mod cap) + 1"
  by (auto simp: ring_count_eq mod_if split: if_splits)

lemma ring_head_index: "h < cap \<Longrightarrow> t < cap \<Longrightarrow> (t + ring_count cap h t) mod cap = h"
  by (auto simp: ring_count_eq)

lemma ring_list_write:
  assumes "h < cap" "t < cap" "length xs = cap"
  shows "ring_list cap (xs[h := x]) h t = ring_list cap xs h t"
proof -
  have "h \<noteq> (t + i) mod cap" if "i < ring_count cap h t" for i
    using assms(1,2) that mod_wrap [of "t + i" cap] by (auto simp: ring_count_eq split: if_splits)
  then show ?thesis by (auto simp: ring_list_def)
qed

lemma ring_list_push:
  assumes "h < cap" "t < cap" "length xs = cap" "Suc h mod cap \<noteq> t"
  shows "ring_list cap xs (Suc h mod cap) t = ring_list cap xs h t @ [xs ! h]"
  using ring_count_push [OF assms(1,2,4)] ring_head_index [OF assms(1,2)] by (simp add: ring_list_def)

lemma ring_list_pop:
  assumes "h < cap" "t < cap" "h \<noteq> t"
  shows "ring_list cap xs h t = xs ! t # ring_list cap xs h (Suc t mod cap)"
proof -
  have "map (\<lambda>i. xs ! ((t + i) mod cap)) [0..<Suc n] = xs ! t # map (\<lambda>i. xs ! ((Suc t mod cap + i) mod cap)) [0..<n]" for n
    using assms(2) by (simp add: upt_conv_Cons map_Suc_upt [symmetric] mod_simps ac_simps del: upt_Suc)
  then show ?thesis using ring_count_pop [OF assms] by (simp add: ring_list_def del: upt_Suc)
qed

lemma length_ring_list [simp]: "length (ring_list cap xs h t) = ring_count cap h t"
  by (simp add: ring_list_def)

section \<open>Sequential correctness\<close>

lemma unat_next_index:
  assumes "q_capacity_ok cap" "unat i < cap"
  shows "unat ((i + 1) AND q_mask cap) = Suc (unat i) mod cap"
proof -
  obtain n where n: "cap = 2 ^ n" "1 \<le> n" "n < 64" using assms(1) by (auto simp: q_capacity_ok_def)
  have "(2 ^ n :: nat) dvd 2 ^ 64" using n by (intro le_imp_power_dvd) simp
  then show ?thesis using unat_and_mask [of "i + 1" n]
    by (simp add: n q_mask_def unat_word_ariths mod_mod_cancel del: power_numeral)
qed

lemma unat_index_diff:
  assumes "q_capacity_ok cap" "unat h < cap" "unat t < cap"
  shows "unat ((h - t) AND q_mask cap) = ring_count cap (unat h) (unat t)"
proof -
  obtain n where n: "cap = 2 ^ n" "1 \<le> n" "n < 64" using assms(1) by (auto simp: q_capacity_ok_def)
  have dvd: "(2 ^ n :: int) dvd 2 ^ 64" using n by (intro le_imp_power_dvd) simp
  have "int (unat ((h - t) AND q_mask cap)) = uint (h - t) mod 2 ^ n"
    using unat_and_mask [of "h - t" n] by (simp add: n q_mask_def zmod_int)
  also have "\<dots> = (uint h - uint t) mod 2 ^ n"
    by (simp add: uint_word_ariths mod_mod_cancel [OF dvd] del: power_numeral)
  also have "\<dots> = (uint h - uint t + 2 ^ n) mod 2 ^ n" by simp
  also have "\<dots> = int ((unat h + cap - unat t) mod cap)"
    using assms(3) by (simp add: n zmod_int algebra_simps)
  finally show ?thesis by (simp only: ring_count_def of_nat_eq_iff)
qed

lemma index_eq_iff: "unat (a::u64) = unat b \<longleftrightarrow> a = b"
  by (simp add: word_unat_eq_iff)

lemma q_push_full:
  assumes "q_invar cap q" "length (q_list cap q) = cap - 1"
  shows "q_push cap q x = (False, q)"
proof -
  have "unat ((head q + 1) AND q_mask cap) = unat (tail q)"
    using assms by (simp add: q_invar_def unat_next_index q_list_def ring_full_iff)
  then show ?thesis by (simp add: q_push_def index_eq_iff)
qed

lemma q_push_room:
  assumes "q_invar cap q" "length (q_list cap q) < cap - 1"
  shows "\<exists>q'. q_push cap q x = (True, q') \<and> q_list cap q' = q_list cap q @ [x] \<and> q_invar cap q'"
proof -
  let ?h = "unat (head q)" and ?t = "unat (tail q)"
  have b: "?h < cap" "?t < cap" "length (slots q) = cap" "q_capacity_ok cap" using assms(1) by (auto simp: q_invar_def)
  have nf: "Suc ?h mod cap \<noteq> ?t" using assms(2) b by (simp add: q_list_def ring_full_iff)
  then have "(head q + 1) AND q_mask cap \<noteq> tail q" using unat_next_index [OF b(4,1)] by metis
  moreover have "ring_list cap ((slots q)[?h := x]) (Suc ?h mod cap) ?t = ring_list cap (slots q) ?h ?t @ [x]"
    using b nf by (simp add: ring_list_push ring_list_write)
  ultimately show ?thesis using b unat_next_index [OF b(4,1)]
    by (simp add: q_push_def Let_def q_list_def q_invar_def)
qed

lemma q_pop_empty: "q_invar cap q \<Longrightarrow> q_list cap q = [] \<Longrightarrow> q_pop cap q = (None, q)"
  by (simp add: q_list_def ring_list_def q_invar_def ring_count_0_iff q_pop_def index_eq_iff)

lemma q_pop_cons:
  assumes "q_invar cap q" "q_list cap q = x # xs"
  shows "\<exists>q'. q_pop cap q = (Some x, q') \<and> q_list cap q' = xs \<and> q_invar cap q'"
proof -
  let ?h = "unat (head q)" and ?t = "unat (tail q)"
  have b: "?h < cap" "?t < cap" "length (slots q) = cap" "q_capacity_ok cap" using assms(1) by (auto simp: q_invar_def)
  have "ring_count cap ?h ?t = length (x # xs)" using assms(2) length_ring_list by (metis q_list_def)
  then have ne: "?h \<noteq> ?t" using ring_count_0_iff [OF b(1,2)] by auto
  then have "tail q \<noteq> head q" by auto
  then show ?thesis using b ring_list_pop [OF b(1,2) ne, of "slots q"] unat_next_index [OF b(4,2)] assms(2)
    by (simp add: q_pop_def Let_def q_list_def q_invar_def)
qed

lemma q_list_length: "q_invar cap q \<Longrightarrow> length (q_list cap q) \<le> cap - 1"
  using ring_count_less [of cap "unat (head q)" "unat (tail q)"] by (simp add: q_invar_def q_list_def)

interpretation spsc: bounded_fifo "q_push cap" "q_pop cap" "q_list cap" "q_invar cap" "cap - 1"
  for cap :: nat
proof unfold_locales
  fix q :: "'a spsc" and x
  assume "q_invar cap q" "\<not> length (q_list cap q) < cap - 1"
  then show "q_push cap q x = (False, q)" using q_list_length [of cap q] by (intro q_push_full) auto
qed (rule q_push_room q_pop_empty q_pop_cons; assumption)+

lemma q_new_invar: "q_capacity_ok cap \<Longrightarrow> q_invar cap (q_new cap d)"
  by (auto simp: q_invar_def q_new_def q_capacity_ok_def)

lemma q_new_list: "q_list cap (q_new cap d) = []"
  by (cases cap) (simp_all add: q_list_def q_new_def ring_list_def ring_count_def)

section \<open>Two threads\<close>

text \<open>
  \<open>push\<close> runs on the producer thread and \<open>pop\<close> on the consumer thread at the same time.
  One step is one access to memory the other thread can see: a load or a store of \<open>head_\<close>
  or \<open>tail_\<close>, or an access to a slot. The release store of an index and the acquire load
  of it by the other thread order the slot accesses, so the steps interleave. \<open>sent\<close> and
  \<open>rcvd\<close> record the items whose push returned true and whose pop returned them.
\<close>

datatype 'a producer = P_idle | P_head 'a u64 | P_room 'a u64 u64 | P_store 'a u64

datatype 'a consumer = C_idle | C_tail u64 | C_read u64 | C_store 'a u64

record 'a spsc_sys =
  ring :: "'a spsc"
  pstate :: "'a producer"
  cstate :: "'a consumer"
  sent :: "'a list"
  rcvd :: "'a list"

definition sys_init :: "nat \<Rightarrow> 'a \<Rightarrow> 'a spsc_sys" where
  "sys_init cap d = \<lparr>ring = q_new cap d, pstate = P_idle, cstate = C_idle, sent = [], rcvd = []\<rparr>"

inductive spsc_step :: "nat \<Rightarrow> 'a spsc_sys \<Rightarrow> 'a spsc_sys \<Rightarrow> bool" for cap :: nat where
  push_load_head: "pstate s = P_idle \<Longrightarrow>
     spsc_step cap s (s\<lparr>pstate := P_head x (head (ring s))\<rparr>)"
| push_full: "pstate s = P_head x h \<Longrightarrow> (h + 1) AND q_mask cap = tail (ring s) \<Longrightarrow>
     spsc_step cap s (s\<lparr>pstate := P_idle\<rparr>)"
| push_load_tail: "pstate s = P_head x h \<Longrightarrow> (h + 1) AND q_mask cap \<noteq> tail (ring s) \<Longrightarrow>
     spsc_step cap s (s\<lparr>pstate := P_room x h ((h + 1) AND q_mask cap)\<rparr>)"
| push_write_slot: "pstate s = P_room x h nxt \<Longrightarrow>
     spsc_step cap s (s\<lparr>ring := (ring s)\<lparr>slots := (slots (ring s))[unat h := x]\<rparr>, pstate := P_store x nxt\<rparr>)"
| push_store_head: "pstate s = P_store x nxt \<Longrightarrow>
     spsc_step cap s (s\<lparr>ring := (ring s)\<lparr>head := nxt\<rparr>, pstate := P_idle, sent := sent s @ [x]\<rparr>)"
| pop_load_tail: "cstate s = C_idle \<Longrightarrow>
     spsc_step cap s (s\<lparr>cstate := C_tail (tail (ring s))\<rparr>)"
| pop_empty: "cstate s = C_tail t \<Longrightarrow> t = head (ring s) \<Longrightarrow>
     spsc_step cap s (s\<lparr>cstate := C_idle\<rparr>)"
| pop_load_head: "cstate s = C_tail t \<Longrightarrow> t \<noteq> head (ring s) \<Longrightarrow>
     spsc_step cap s (s\<lparr>cstate := C_read t\<rparr>)"
| pop_read_slot: "cstate s = C_read t \<Longrightarrow>
     spsc_step cap s (s\<lparr>cstate := C_store (slots (ring s) ! unat t) t\<rparr>)"
| pop_store_tail: "cstate s = C_store x t \<Longrightarrow>
     spsc_step cap s (s\<lparr>ring := (ring s)\<lparr>tail := (t + 1) AND q_mask cap\<rparr>, cstate := C_idle, rcvd := rcvd s @ [x]\<rparr>)"

inductive spsc_reach :: "nat \<Rightarrow> 'a \<Rightarrow> 'a spsc_sys \<Rightarrow> bool" for cap :: nat and d :: 'a where
  start: "spsc_reach cap d (sys_init cap d)"
| step: "spsc_reach cap d s \<Longrightarrow> spsc_step cap s s' \<Longrightarrow> spsc_reach cap d s'"

text \<open>What each thread knows while it is inside its operation.\<close>

fun prod_knows :: "nat \<Rightarrow> 'a spsc \<Rightarrow> 'a producer \<Rightarrow> bool" where
  "prod_knows cap q P_idle = True"
| "prod_knows cap q (P_head x h) = (h = head q)"
| "prod_knows cap q (P_room x h nxt) =
     (h = head q \<and> nxt = (h + 1) AND q_mask cap \<and> nxt \<noteq> tail q)"
| "prod_knows cap q (P_store x nxt) =
     (nxt = (head q + 1) AND q_mask cap \<and> nxt \<noteq> tail q \<and> slots q ! unat (head q) = x)"

fun cons_knows :: "'a spsc \<Rightarrow> 'a consumer \<Rightarrow> bool" where
  "cons_knows q C_idle = True"
| "cons_knows q (C_tail t) = (t = tail q)"
| "cons_knows q (C_read t) = (t = tail q \<and> t \<noteq> head q)"
| "cons_knows q (C_store x t) = (t = tail q \<and> t \<noteq> head q \<and> x = slots q ! unat t)"

definition sys_invar :: "nat \<Rightarrow> 'a spsc_sys \<Rightarrow> bool" where
  "sys_invar cap s = (q_invar cap (ring s) \<and> prod_knows cap (ring s) (pstate s) \<and>
     cons_knows (ring s) (cstate s) \<and> sent s = rcvd s @ q_list cap (ring s))"

lemma sys_invar_init: "q_capacity_ok cap \<Longrightarrow> sys_invar cap (sys_init cap d)"
  using q_new_invar [of cap d] by (simp add: sys_invar_def sys_init_def q_new_list)

text \<open>Writing the slot at the head is invisible to the consumer.\<close>

lemma q_list_write_head:
  "q_invar cap q \<Longrightarrow> q_list cap (q\<lparr>slots := (slots q)[unat (head q) := x]\<rparr>) = q_list cap q"
  by (simp add: q_invar_def q_list_def ring_list_write)

lemma q_invar_write: "q_invar cap q \<Longrightarrow> q_invar cap (q\<lparr>slots := (slots q)[i := x]\<rparr>)"
  by (simp add: q_invar_def)

lemma q_list_store_head:
  assumes "q_invar cap q" "(head q + 1) AND q_mask cap \<noteq> tail q"
  shows "q_list cap (q\<lparr>head := (head q + 1) AND q_mask cap\<rparr>) = q_list cap q @ [slots q ! unat (head q)]"
proof -
  have "Suc (unat (head q)) mod cap \<noteq> unat (tail q)"
    using assms unat_next_index [of cap "head q"] by (metis index_eq_iff q_invar_def)
  with assms(1) show ?thesis by (simp add: q_invar_def q_list_def unat_next_index ring_list_push)
qed

lemma q_list_store_tail:
  assumes "q_invar cap q" "tail q \<noteq> head q"
  shows "q_list cap q = slots q ! unat (tail q) # q_list cap (q\<lparr>tail := (tail q + 1) AND q_mask cap\<rparr>)"
proof -
  have "unat (head q) \<noteq> unat (tail q)" using assms(2) by (simp add: index_eq_iff)
  with assms(1) show ?thesis by (simp add: q_invar_def q_list_def unat_next_index ring_list_pop [of _ cap])
qed

lemma next_index_less: "q_invar cap q \<Longrightarrow> unat i < cap \<Longrightarrow> unat ((i + 1) AND q_mask cap) < cap"
  by (auto simp: q_invar_def unat_next_index)

lemma next_index_inj:
  assumes "q_capacity_ok cap" "unat a < cap" "unat b < cap" "(a + 1) AND q_mask cap = (b + 1) AND q_mask cap"
  shows "a = b"
proof -
  have "Suc (unat a) mod cap = Suc (unat b) mod cap"
    using assms unat_next_index [of cap a] unat_next_index [of cap b] by simp
  with assms(2,3) have "unat a = unat b" by (simp add: mod_Suc split: if_splits)
  then show ?thesis by (simp add: index_eq_iff)
qed

lemma spsc_step_invar: "spsc_step cap s s' \<Longrightarrow> sys_invar cap s \<Longrightarrow> sys_invar cap s'"
proof (induction rule: spsc_step.induct)
  case (push_write_slot s x h nxt)
  then show ?case
    by (cases "cstate s") (auto simp: sys_invar_def q_list_write_head q_invar_write q_invar_def nth_list_update index_eq_iff)
next
  case (push_store_head s x nxt)
  then have q: "q_invar cap (ring s)" "nxt = (head (ring s) + 1) AND q_mask cap" "nxt \<noteq> tail (ring s)"
    by (auto simp: sys_invar_def)
  then have "cons_knows (ring s) (cstate s) \<Longrightarrow> cons_knows ((ring s)\<lparr>head := nxt\<rparr>) (cstate s)"
    by (cases "cstate s") auto
  with push_store_head q show ?case
    by (auto simp: sys_invar_def q_list_store_head q_invar_def unat_next_index)
next
  case (pop_store_tail s x t)
  then have q: "q_invar cap (ring s)" "t = tail (ring s)" "tail (ring s) \<noteq> head (ring s)"
    by (auto simp: sys_invar_def)
  have "prod_knows cap (ring s) (pstate s) \<Longrightarrow>
        prod_knows cap ((ring s)\<lparr>tail := (t + 1) AND q_mask cap\<rparr>) (pstate s)"
    using q next_index_inj [of cap "head (ring s)" "tail (ring s)"]
    by (cases "pstate s") (auto simp: q_invar_def)
  with pop_store_tail q show ?case using q_list_store_tail [OF q(1,3)]
    by (auto simp: sys_invar_def q_invar_def unat_next_index)
qed (auto simp: sys_invar_def)

lemma spsc_reach_invar: "spsc_reach cap d s \<Longrightarrow> q_capacity_ok cap \<Longrightarrow> sys_invar cap s"
  by (induction rule: spsc_reach.induct) (auto intro: sys_invar_init spsc_step_invar)

lemma spsc_push_run:
  assumes "spsc_reach cap d s" "pstate s = P_idle" "(head (ring s) + 1) AND q_mask cap \<noteq> tail (ring s)"
  shows "spsc_reach cap d (s\<lparr>ring := snd (q_push cap (ring s) x), sent := sent s @ [x]\<rparr>)"
proof -
  let ?h = "head (ring s)" let ?n = "(?h + 1) AND q_mask cap"
  let ?s1 = "s\<lparr>pstate := P_head x ?h\<rparr>" let ?s2 = "s\<lparr>pstate := P_room x ?h ?n\<rparr>"
  let ?r = "(ring s)\<lparr>slots := (slots (ring s))[unat ?h := x]\<rparr>"
  let ?s3 = "s\<lparr>ring := ?r, pstate := P_store x ?n\<rparr>"
  have "spsc_reach cap d ?s1" using assms(1) spsc_step.push_load_head [OF assms(2)] by (rule spsc_reach.step)
  moreover have "spsc_step cap ?s1 ?s2" using spsc_step.push_load_tail [of ?s1 x ?h cap] assms(3) by simp
  moreover have "spsc_step cap ?s2 ?s3" using spsc_step.push_write_slot [of ?s2 x ?h ?n cap] by simp
  moreover have "spsc_step cap ?s3 (?s3\<lparr>ring := ?r\<lparr>head := ?n\<rparr>, pstate := P_idle, sent := sent s @ [x]\<rparr>)"
    using spsc_step.push_store_head [of ?s3 x ?n cap] by simp
  ultimately have "spsc_reach cap d (?s3\<lparr>ring := ?r\<lparr>head := ?n\<rparr>, pstate := P_idle, sent := sent s @ [x]\<rparr>)"
    by (blast intro: spsc_reach.step)
  moreover have "?s3\<lparr>ring := ?r\<lparr>head := ?n\<rparr>, pstate := P_idle, sent := sent s @ [x]\<rparr> =
    s\<lparr>ring := snd (q_push cap (ring s) x), sent := sent s @ [x]\<rparr>"
    using assms(2,3) by (cases s) (simp add: q_push_def Let_def)
  ultimately show ?thesis by simp
qed

inductive_cases spsc_stepE: "spsc_step cap s s'"

section \<open>Properties\<close>

text \<open>C1: with the producer and the consumer interleaved step by step, in every reachable state
  what the consumer has received followed by what the ring still holds is exactly what the
  producer has sent, in order: nothing is lost, duplicated, reordered or torn, and at most
  \<open>Capacity - 1\<close> items are in flight.\<close>

theorem spsc_concurrent_fifo:
  assumes "q_capacity_ok cap" "spsc_reach cap d s"
  shows "sent s = rcvd s @ q_list cap (ring s) \<and> length (sent s) - length (rcvd s) \<le> cap - 1"
proof -
  have "sys_invar cap s" using assms by (rule spsc_reach_invar [rotated])
  then show ?thesis using q_list_length [of cap "ring s"] by (simp add: sys_invar_def)
qed

lemma q_capacity_ok_4: "q_capacity_ok 4"
  unfolding q_capacity_ok_def by (rule exI [of _ 2]) simp

theorem spsc_concurrent_fifo_witness:
  "\<exists>s. spsc_reach 4 (0::nat) s \<and> sent s = [7] \<and>
     sent s = rcvd s @ q_list 4 (ring s) \<and> length (sent s) - length (rcvd s) \<le> 4 - 1"
proof -
  have "spsc_reach 4 (0::nat) (sys_init 4 0)" by (rule spsc_reach.start)
  then have r: "spsc_reach 4 (0::nat) ((sys_init 4 0)\<lparr>ring := snd (q_push 4 (ring (sys_init 4 0)) 7),
       sent := sent (sys_init 4 0) @ [7]\<rparr>)"
    by (rule spsc_push_run) (simp_all add: sys_init_def q_new_def q_mask_def)
  moreover have "sent ((sys_init 4 0)\<lparr>ring := snd (q_push 4 (ring (sys_init 4 0)) 7),
       sent := sent (sys_init 4 0) @ [7]\<rparr>) = [7]" by (simp add: sys_init_def)
  ultimately show ?thesis using spsc_concurrent_fifo [OF q_capacity_ok_4 r] by blast
qed

text \<open>C2: a push is refused only when the ring holds \<open>Capacity - 1\<close> items at the moment the
  producer reads the tail, whatever the consumer is doing.\<close>

theorem spsc_refused_only_when_full:
  assumes "q_capacity_ok cap" "spsc_reach cap d s"
    and "spsc_step cap s s'" "pstate s = P_head x h" "pstate s' = P_idle"
  shows "length (q_list cap (ring s)) = cap - 1"
proof -
  have i: "q_invar cap (ring s)" "h = head (ring s)"
    using spsc_reach_invar [OF assms(2,1)] assms(4) by (auto simp: sys_invar_def)
  have "(h + 1) AND q_mask cap = tail (ring s)"
    using assms(3) by (rule spsc_stepE) (use assms(4,5) in auto)
  then have "Suc (unat (head (ring s))) mod cap = unat (tail (ring s))"
    using i unat_next_index [of cap "head (ring s)"] by (simp add: q_invar_def)
  then show ?thesis using i(1) by (simp add: q_invar_def q_list_def ring_full_iff)
qed

theorem spsc_refused_only_when_full_witness:
  "\<exists>s s'. spsc_reach 2 (0::nat) s \<and> spsc_step 2 s s' \<and> (\<exists>x h. pstate s = P_head x h) \<and> pstate s' = P_idle \<and>
     length (q_list 2 (ring s)) = 2 - 1"
proof -
  have c: "q_capacity_ok 2" unfolding q_capacity_ok_def by (rule exI [of _ 1]) simp
  let ?s1 = "(sys_init 2 0)\<lparr>ring := snd (q_push 2 (ring (sys_init 2 (0::nat))) 7), sent := sent (sys_init 2 0) @ [7]\<rparr>"
  have "spsc_reach 2 (0::nat) (sys_init 2 0)" by (rule spsc_reach.start)
  then have "spsc_reach 2 (0::nat) ?s1"
    by (rule spsc_push_run) (simp_all add: sys_init_def q_new_def q_mask_def)
  then have r: "spsc_reach 2 (0::nat) (?s1\<lparr>pstate := P_head 8 (head (ring ?s1))\<rparr>)"
    using spsc_step.push_load_head [of ?s1 2 8] by (simp add: spsc_reach.step sys_init_def)
  have st: "spsc_step 2 (?s1\<lparr>pstate := P_head 8 (head (ring ?s1))\<rparr>) (?s1\<lparr>pstate := P_head 8 (head (ring ?s1)), pstate := P_idle\<rparr>)"
  proof (rule spsc_step.push_full)
    show "(head (ring ?s1) + 1) AND q_mask 2 = tail (ring (?s1\<lparr>pstate := P_head 8 (head (ring ?s1))\<rparr>))"
      by code_simp
  qed simp
  have ph: "pstate (?s1\<lparr>pstate := P_head 8 (head (ring ?s1))\<rparr>) = P_head 8 (head (ring ?s1))" by simp
  have pi: "pstate (?s1\<lparr>pstate := P_head 8 (head (ring ?s1)), pstate := P_idle\<rparr>) = P_idle" by simp
  show ?thesis using r st ph pi spsc_refused_only_when_full [OF c r st ph pi] by blast
qed

text \<open>Run one after the other, the operations are a bounded first-in first-out queue:
  pushing a batch and popping until empty returns the accepted prefix in order, and the pop
  loop terminates.\<close>

theorem spsc_fifo:
  assumes "q_invar cap q"
  shows "\<exists>q'. pop_all (q_pop cap) (push_all (q_push cap) q xs) = Some (take (cap - 1) (q_list cap q @ xs), q')
     \<and> q_list cap q' = [] \<and> q_size cap q = of_nat (length (q_list cap q))"
proof -
  have "unat (q_size cap q) = length (q_list cap q)"
    using assms by (simp add: q_size_def q_list_def q_invar_def unat_index_diff)
  then have "q_size cap q = of_nat (length (q_list cap q))" by (rule word_eq_of_nat)
  then show ?thesis using spsc.fifo [OF assms q_list_length [OF assms], of xs] by simp
qed

theorem spsc_fifo_witness:
  "q_invar 4 (q_new 4 (0::nat)) \<and>
   (\<exists>q'. pop_all (q_pop 4) (push_all (q_push 4) (q_new 4 (0::nat)) [1, 2, 3, 4]) = Some ([1, 2, 3], q') \<and> q_list 4 q' = [])"
proof -
  have i: "q_invar 4 (q_new 4 (0::nat))" by (rule q_new_invar [OF q_capacity_ok_4])
  show ?thesis using i spsc_fifo [OF i, of "[1, 2, 3, 4]"] by (auto simp: q_new_list)
qed

end
