(* ===== verification/Events.thy ===== *)
theory Events
  imports Float_Bits Small_Vector Spsc_Queue
begin

text \<open>
  The events that travel through the queues: the CLAP event union (\<open>input_event.hpp\<close>), the
  encoded OSC datagram (\<open>osc_event.hpp\<close>), the beat-tagged event of the scheduler
  (\<open>scheduled_event.hpp\<close>) and the MIDI output events (\<open>midi_out_event.hpp\<close>).
\<close>

section \<open>CLAP events\<close>

text \<open>
  \<open>clap_event_union\<close> is read through \<open>header.type\<close>: a note (on or off), a three-byte MIDI
  message, or anything else, which the sources only pass on. \<open>CLAP_EVENT_IS_LIVE\<close> is the one
  flag they set.
\<close>

record note_event =
  ne_on :: bool
  ne_live :: bool
  ne_time :: u32
  ne_note_id :: u32
  ne_port :: u16
  ne_channel :: u16
  ne_key :: u16
  ne_velocity :: fp

record midi_event =
  me_live :: bool
  me_time :: u32
  me_port :: u16
  me_data :: "u8 list"

datatype clap_event = Clap_note note_event | Clap_midi midi_event | Clap_other u32

fun clap_time :: "clap_event \<Rightarrow> u32" where
  "clap_time (Clap_note n) = ne_time n"
| "clap_time (Clap_midi m) = me_time m"
| "clap_time (Clap_other t) = t"

definition in_queue_capacity :: nat where
  "in_queue_capacity = 256"

section \<open>Scheduled events\<close>

datatype sched_kind = K_clap | K_osc

record sockaddr =
  sin_port :: u16
  sin_addr :: u32

definition osc_event_max_bytes :: nat where
  "osc_event_max_bytes = 256"

record osc_event =
  oe_dest :: sockaddr
  oe_bytes :: "u8 small_vector"

definition osc_event_new :: osc_event where
  "osc_event_new = \<lparr>oe_dest = \<lparr>sin_port = 0, sin_addr = 0\<rparr>, oe_bytes = sv_new osc_event_max_bytes 0\<rparr>"

definition osc_out_queue_capacity :: nat where
  "osc_out_queue_capacity = 256"

record scheduled_event =
  se_beat :: fp
  se_kind :: sched_kind
  se_event :: clap_event
  se_osc :: osc_event

definition sched_queue_capacity :: nat where
  "sched_queue_capacity = 1024"

lemma queue_capacities_ok:
  "q_capacity_ok in_queue_capacity" "q_capacity_ok osc_out_queue_capacity" "q_capacity_ok sched_queue_capacity"
  unfolding q_capacity_ok_def in_queue_capacity_def osc_out_queue_capacity_def sched_queue_capacity_def
  by (rule exI [of _ 8], simp, rule exI [of _ 8], simp, rule exI [of _ 10], simp)

end
