(* ===== verification/Scheduler.thy ===== *)
theory Scheduler
  imports Events "HOL-Library.Product_Lexorder" "HOL-Library.Multiset"
begin

text \<open>
  Beat time: the timeline with its pending transition (\<open>time_identity.hpp\<close>) and the
  beat-quantised event scheduler (\<open>event_scheduler.hpp\<close>).
\<close>

section \<open>Time identity\<close>

record timeline =
  bpm :: fp
  beat :: fp

text \<open>An EDN keyword is its name.\<close>

record pending_transition =
  pt_tl :: timeline
  pt_policy :: string
  pt_apply_at :: fp

record time_identity =
  ti_current :: timeline
  ti_pending :: "pending_transition option"

definition transition_ready :: "time_identity \<Rightarrow> fp \<Rightarrow> bool" where
  "transition_ready ti current_beat =
     (case ti_pending ti of None \<Rightarrow> False | Some p \<Rightarrow> fle (pt_apply_at p) current_beat)"

definition apply_if_ready :: "time_identity \<Rightarrow> fp \<Rightarrow> bool \<times> time_identity" where
  "apply_if_ready ti current_beat =
     (if \<not> transition_ready ti current_beat then (False, ti)
      else case ti_pending ti of
        None \<Rightarrow> (False, ti)
      | Some p \<Rightarrow> (True, ti\<lparr>ti_current := pt_tl p, ti_pending := None\<rparr>))"

text \<open>The audio thread calls \<open>apply_if_ready\<close> once per block.\<close>

fun apply_blocks :: "time_identity \<Rightarrow> fp list \<Rightarrow> bool list \<times> time_identity" where
  "apply_blocks ti [] = ([], ti)"
| "apply_blocks ti (b # bs) =
     (case apply_if_ready ti b of (r, ti') \<Rightarrow> case apply_blocks ti' bs of (rs, ti'') \<Rightarrow> (r # rs, ti''))"

section \<open>The scheduler\<close>

text \<open>
  \<open>sch_osc_out\<close> is the queue wired by \<open>set_osc_out\<close> (\<open>None\<close>: a null pointer); it is shared
  with the sender thread, so a tick returns it updated.
\<close>

record event_scheduler =
  sch_staging :: "scheduled_event spsc"
  sch_pending :: "scheduled_event list"
  sch_osc_out :: "osc_event spsc option"

definition set_osc_out :: "event_scheduler \<Rightarrow> osc_event spsc option \<Rightarrow> event_scheduler" where
  "set_osc_out s q = s\<lparr>sch_osc_out := q\<rparr>"

definition pending_count :: "event_scheduler \<Rightarrow> nat" where
  "pending_count s = length (sch_pending s)"

definition beat_key :: "scheduled_event \<Rightarrow> int \<times> rat" where
  "beat_key e = f_key (se_beat e)"

definition push_osc_out :: "osc_event spsc option \<Rightarrow> osc_event \<Rightarrow> osc_event spsc option" where
  "push_osc_out q ev = (case q of None \<Rightarrow> None | Some q' \<Rightarrow> Some (snd (q_push osc_out_queue_capacity q' ev)))"

text \<open>The loop over the sorted events: it stops at the first event that is not due.\<close>

fun fire_due :: "fp \<Rightarrow> scheduled_event list \<Rightarrow> osc_event spsc option \<Rightarrow>
    clap_event list \<times> osc_event spsc option \<times> scheduled_event list" where
  "fire_due now [] q = ([], q, [])"
| "fire_due now (e # es) q =
     (if fle (se_beat e) now then
        (if se_kind e = K_osc then fire_due now es (push_osc_out q (se_osc e))
         else case fire_due now es q of (fired, q', rest) \<Rightarrow> (se_event e # fired, q', rest))
      else ([], q, e # es))"

text \<open>
  \<open>std::stable_sort\<close> is sorting by key, stable. With a NaN among several beats the comparator
  is not a strict weak ordering and the call is undefined: no result.
\<close>

definition tick :: "fp \<Rightarrow> event_scheduler \<Rightarrow> (clap_event list \<times> event_scheduler) option" where
  "tick current_beat s =
     (case pop_all (q_pop sched_queue_capacity) (sch_staging s) of
        None \<Rightarrow> None
      | Some (evs, q) \<Rightarrow>
          let pend = sch_pending s @ evs; s' = s\<lparr>sch_staging := q, sch_pending := pend\<rparr> in
          if pend = [] then Some ([], s')
          else if 1 < length pend \<and> list_ex (\<lambda>e. se_beat e = NaN) pend then None
          else (case fire_due current_beat (sort_key beat_key pend) (sch_osc_out s) of
            (fired, out, rest) \<Rightarrow> Some (fired, s'\<lparr>sch_pending := rest, sch_osc_out := out\<rparr>)))"

text \<open>The control thread stages a batch, then the audio thread ticks; repeatedly.\<close>

fun sched_run :: "(scheduled_event list \<times> fp) list \<Rightarrow> event_scheduler \<Rightarrow> (clap_event list \<times> event_scheduler) option" where
  "sched_run [] s = Some ([], s)"
| "sched_run ((batch, now) # rs) s =
     (case tick now (s\<lparr>sch_staging := push_all (q_push sched_queue_capacity) (sch_staging s) batch\<rparr>) of
        None \<Rightarrow> None
      | Some (fired, s') \<Rightarrow> (case sched_run rs s' of
          None \<Rightarrow> None
        | Some (fired', s'') \<Rightarrow> Some (fired @ fired', s'')))"

section \<open>Invariant and lemmas\<close>

definition due :: "fp \<Rightarrow> scheduled_event \<Rightarrow> bool" where
  "due now e = fle (se_beat e) now"

definition staged :: "event_scheduler \<Rightarrow> scheduled_event list" where
  "staged s = q_list sched_queue_capacity (sch_staging s)"

definition sent_osc :: "event_scheduler \<Rightarrow> osc_event list" where
  "sent_osc s = (case sch_osc_out s of None \<Rightarrow> [] | Some q \<Rightarrow> q_list osc_out_queue_capacity q)"

definition sched_invar :: "event_scheduler \<Rightarrow> bool" where
  "sched_invar s = (q_invar sched_queue_capacity (sch_staging s) \<and>
     (case sch_osc_out s of None \<Rightarrow> True | Some q \<Rightarrow> q_invar osc_out_queue_capacity q))"

definition beats_ordered :: "scheduled_event list \<Rightarrow> bool" where
  "beats_ordered es = list_all (\<lambda>e. se_beat e \<noteq> NaN) es"

definition clap_events :: "scheduled_event list \<Rightarrow> clap_event list" where
  "clap_events es = map se_event (filter (\<lambda>e. se_kind e = K_clap) es)"

definition osc_events :: "scheduled_event list \<Rightarrow> osc_event list" where
  "osc_events es = map se_osc (filter (\<lambda>e. se_kind e = K_osc) es)"

lemma fle_key: "a \<noteq> NaN \<Longrightarrow> b \<noteq> NaN \<Longrightarrow> fle a b \<longleftrightarrow> f_key a \<le> f_key b"
  by (auto simp: fle_def flt_def feq_def less_eq_prod_def less_prod_def prod_eq_iff)

lemma due_prefix:
  assumes "sorted (map beat_key es)" "beats_ordered es"
  shows "takeWhile (due now) es = filter (due now) es \<and> dropWhile (due now) es = filter (\<lambda>e. \<not> due now e) es"
  using assms
proof (induction es)
  case (Cons e es)
  have "\<not> due now e'" if "\<not> due now e" "e' \<in> set es" for e'
  proof (cases "now = NaN")
    case False
    have "beat_key e \<le> beat_key e'" "se_beat e \<noteq> NaN" "se_beat e' \<noteq> NaN"
      using Cons.prems that(2) by (auto simp: beats_ordered_def list_all_iff)
    with False that(1) show ?thesis by (auto simp: due_def fle_key beat_key_def)
  qed (simp add: due_def)
  then have "\<not> due now e \<Longrightarrow> filter (due now) es = []" "\<not> due now e \<Longrightarrow> filter (\<lambda>e. \<not> due now e) es = es"
    by (auto simp: filter_empty_conv filter_id_conv)
  with Cons show ?case by (auto simp: beats_ordered_def)
qed simp

lemma fire_due_spec:
  "fire_due now es q =
    (clap_events (takeWhile (due now) es),
     map_option (\<lambda>q'. push_all (q_push osc_out_queue_capacity) q' (osc_events (takeWhile (due now) es))) q,
     dropWhile (due now) es)"
proof (induction es arbitrary: q)
  case (Cons e es)
  then show ?case
    by (cases "se_kind e"; cases q) (simp_all add: clap_events_def osc_events_def due_def push_osc_out_def)
qed (simp add: clap_events_def osc_events_def option.map_ident)

lemma push_all_osc:
  "q_invar osc_out_queue_capacity q \<Longrightarrow>
   q_invar osc_out_queue_capacity (push_all (q_push osc_out_queue_capacity) q es) \<and>
   q_list osc_out_queue_capacity (push_all (q_push osc_out_queue_capacity) q es) =
     take 255 (q_list osc_out_queue_capacity q @ es)"
  using spsc.push_all_spec [of osc_out_queue_capacity q es] q_list_length [of osc_out_queue_capacity q]
  by (simp add: osc_out_queue_capacity_def)

lemma beats_ordered_sort [simp]: "beats_ordered (sort_key f es) \<longleftrightarrow> beats_ordered es"
  by (simp add: beats_ordered_def list_all_iff)

text \<open>The whole tick, on any state of the invariant.\<close>

lemma tick_spec:
  assumes inv: "sched_invar s" and ord: "beats_ordered (sch_pending s @ staged s)"
    and all: "all = sort_key beat_key (sch_pending s @ staged s)"
  shows "\<exists>s'. tick now s = Some (clap_events (filter (due now) all), s') \<and> sched_invar s' \<and>
    staged s' = [] \<and> sch_pending s' = filter (\<lambda>e. \<not> due now e) all \<and>
    (sch_osc_out s = None \<longleftrightarrow> sch_osc_out s' = None) \<and>
    (sch_osc_out s \<noteq> None \<longrightarrow> sent_osc s' = take 255 (sent_osc s @ osc_events (filter (due now) all)))"
proof -
  obtain q' where q': "pop_all (q_pop sched_queue_capacity) (sch_staging s) = Some (staged s, q')"
    "q_list sched_queue_capacity q' = []" "q_invar sched_queue_capacity q'"
    using spsc.pop_all_spec [of sched_queue_capacity "sch_staging s"] inv by (auto simp: sched_invar_def staged_def)
  let ?pend = "sch_pending s @ staged s"
  have nan: "\<not> list_ex (\<lambda>e. se_beat e = NaN) ?pend" using ord by (auto simp: beats_ordered_def list_all_iff list_ex_iff)
  show ?thesis
  proof (cases "?pend = []")
    case True
    have len: "q_invar osc_out_queue_capacity q \<Longrightarrow> length (q_list osc_out_queue_capacity q) \<le> 255" for q :: "osc_event spsc"
      using q_list_length [of osc_out_queue_capacity q] by (simp add: osc_out_queue_capacity_def)
    have "all = []" using True all by simp
    with True q' inv show ?thesis
      by (auto simp: tick_def sched_invar_def staged_def sent_osc_def clap_events_def osc_events_def len
          split: option.splits)
  next
    case False
    have "sorted (map beat_key all)" "beats_ordered all" using all ord by simp_all
    note pre = due_prefix [OF this, of now]
    let ?out = "map_option (\<lambda>q. push_all (q_push osc_out_queue_capacity) q (osc_events (filter (due now) all))) (sch_osc_out s)"
    let ?s = "s\<lparr>sch_staging := q', sch_pending := filter (\<lambda>e. \<not> due now e) all, sch_osc_out := ?out\<rparr>"
    have "tick now s = Some (clap_events (filter (due now) all), ?s)"
      unfolding tick_def Let_def using q'(1) False nan pre
      by (simp add: all [symmetric] fire_due_spec del: append_is_Nil_conv)
    moreover have "sched_invar ?s \<and> staged ?s = []"
      using q' inv push_all_osc by (auto simp: sched_invar_def staged_def split: option.splits)
    moreover have "sch_osc_out s \<noteq> None \<longrightarrow> sent_osc ?s = take 255 (sent_osc s @ osc_events (filter (due now) all))"
    proof (cases "sch_osc_out s")
      case (Some q)
      with inv have "q_invar osc_out_queue_capacity q" by (simp add: sched_invar_def)
      with Some show ?thesis using push_all_osc [of q "osc_events (filter (due now) all)"] by (simp add: sent_osc_def)
    qed simp
    ultimately show ?thesis by (intro exI [of _ ?s]) auto
  qed
qed

text \<open>Nothing is lost or duplicated by a tick.\<close>

lemma clap_events_simps [simp]:
  "clap_events [] = []"
  "clap_events (e # es) = (if se_kind e = K_clap then se_event e # clap_events es else clap_events es)"
  by (simp_all add: clap_events_def)

lemma mset_clap_split:
  "mset (clap_events (filter P es)) + mset (clap_events (filter (\<lambda>e. \<not> P e) es)) = mset (clap_events es)"
  by (induction es) auto

lemma mset_clap_sort: "mset (clap_events (sort_key f es)) = mset (clap_events es)"
  by (simp add: clap_events_def)

lemma clap_events_append [simp]: "clap_events (xs @ ys) = clap_events xs @ clap_events ys"
  by (simp add: clap_events_def)

text \<open>Staging a batch keeps the invariant; what does not fit in the staging queue is refused.\<close>

abbreviation stage :: "event_scheduler \<Rightarrow> scheduled_event list \<Rightarrow> event_scheduler" where
  "stage s batch \<equiv> s\<lparr>sch_staging := push_all (q_push sched_queue_capacity) (sch_staging s) batch\<rparr>"

lemma stage_spec:
  assumes "sched_invar s" "staged s = []"
  shows "sched_invar (stage s batch)" "staged (stage s batch) = take 1023 batch"
  using assms spsc.push_all_spec [of sched_queue_capacity "sch_staging s" batch]
  by (simp_all add: sched_invar_def staged_def sched_queue_capacity_def)

lemma sched_run_spec:
  assumes "sched_invar s" "staged s = []" "beats_ordered (sch_pending s)"
    "list_all (\<lambda>r. beats_ordered (fst r)) rs" "list_all (\<lambda>r. length (fst r) \<le> 1023) rs"
  shows "\<exists>fired s'. sched_run rs s = Some (fired, s') \<and> sched_invar s' \<and> staged s' = [] \<and>
    mset fired + mset (clap_events (sch_pending s')) =
      mset (clap_events (sch_pending s)) + mset (clap_events (concat (map fst rs)))"
  using assms
proof (induction rs arbitrary: s)
  case (Cons r rs)
  obtain batch now where r: "r = (batch, now)" by fastforce
  let ?s = "stage s batch" and ?all = "sort_key beat_key (sch_pending s @ batch)"
  have st: "staged ?s = batch" using stage_spec(2) [OF Cons.prems(1,2)] Cons.prems(5) r by simp
  have "beats_ordered (sch_pending ?s @ staged ?s)" using Cons.prems(3,4) r st by (simp add: beats_ordered_def)
  from tick_spec [OF stage_spec(1) [OF Cons.prems(1,2)] this refl, of now] st
  obtain s1 where s1: "tick now ?s = Some (clap_events (filter (due now) ?all), s1)" "sched_invar s1" "staged s1 = []"
    "sch_pending s1 = filter (\<lambda>e. \<not> due now e) ?all" by auto
  have "beats_ordered (sch_pending s1)" using s1(4) Cons.prems(3,4) r by (auto simp: beats_ordered_def list_all_iff)
  then obtain f s2 where s2: "sched_run rs s1 = Some (f, s2)" "sched_invar s2" "staged s2 = []"
    "mset f + mset (clap_events (sch_pending s2)) =
      mset (clap_events (sch_pending s1)) + mset (clap_events (concat (map fst rs)))"
    using Cons.IH [OF s1(2,3)] Cons.prems(4,5) by auto
  have "mset (clap_events (filter (due now) ?all)) + mset (clap_events (sch_pending s1)) =
      mset (clap_events (sch_pending s)) + mset (clap_events batch)"
    using mset_clap_split [of "due now" ?all] s1(4) mset_clap_sort [of beat_key "sch_pending s @ batch"] by simp
  then have "mset (clap_events (filter (due now) ?all) @ f) + mset (clap_events (sch_pending s2)) =
      mset (clap_events (sch_pending s)) + mset (clap_events (concat (map fst (r # rs))))"
    using s2(4) r by (simp add: add.assoc)
  with s1(1) s2(1-3) r show ?case by simp
qed simp

section \<open>Properties\<close>

text \<open>C3: a tick delivers exactly the due events (pending or just staged), each once, in beat order
  with ties in arrival order; CLAP events reach the callback, OSC events the output queue up to
  its room of 255; exactly the events not yet due stay pending, in beat order, and the staging
  queue is drained.\<close>

theorem sched_tick_delivers_due:
  assumes "sched_invar s" "beats_ordered (sch_pending s @ staged s)"
  shows "let all = sort_key beat_key (sch_pending s @ staged s) in
    \<exists>s'. tick now s = Some (clap_events (filter (due now) all), s') \<and> sched_invar s' \<and>
      staged s' = [] \<and> sch_pending s' = filter (\<lambda>e. \<not> due now e) all \<and>
      (sch_osc_out s \<noteq> None \<longrightarrow> sent_osc s' = take 255 (sent_osc s @ osc_events (filter (due now) all)))"
  using tick_spec [OF assms refl, of now] unfolding Let_def by blast

theorem sched_tick_delivers_due_witness:
  "let ev = (\<lambda>b t. \<lparr>se_beat = Fin b, se_kind = K_clap, se_event = Clap_other t, se_osc = osc_event_new\<rparr>);
       s = \<lparr>sch_staging = q_new sched_queue_capacity (ev 0 0), sch_pending = [ev 3 1, ev 1 2, ev 1 3], sch_osc_out = None\<rparr> in
   sched_invar s \<and> beats_ordered (sch_pending s @ staged s) \<and>
   (\<exists>s'. tick (Fin 2) s = Some ([Clap_other 2, Clap_other 3], s') \<and> sch_pending s' = [ev 3 1])"
proof -
  define ev where "ev = (\<lambda>b t. \<lparr>se_beat = Fin b, se_kind = K_clap, se_event = Clap_other t, se_osc = osc_event_new\<rparr>)"
  define s where "s = \<lparr>sch_staging = q_new sched_queue_capacity (ev 0 0), sch_pending = [ev 3 1, ev 1 2, ev 1 3], sch_osc_out = None\<rparr>"
  have st: "staged s = []" by (simp add: staged_def s_def q_new_list)
  have i: "sched_invar s" by (simp add: sched_invar_def s_def q_new_invar queue_capacities_ok)
  have b: "beats_ordered (sch_pending s @ staged s)" by (simp add: st) (simp add: s_def ev_def beats_ordered_def)
  have all: "sort_key beat_key (sch_pending s @ staged s) = [ev 1 2, ev 1 3, ev 3 1]"
    unfolding st by (simp add: s_def ev_def beat_key_def less_eq_prod_def)
  have d: "due (Fin 2) (ev 1 t)" "\<not> due (Fin 2) (ev 3 t)" for t by (simp_all add: due_def ev_def fle_fin)
  have c: "se_kind (ev x t) = K_clap" "se_event (ev x t) = Clap_other t" for x t by (simp_all add: ev_def)
  from sched_tick_delivers_due [OF i b, of "Fin 2"]
  obtain s' where "tick (Fin 2) s = Some ([Clap_other 2, Clap_other 3], s')" "sch_pending s' = [ev 3 1]"
    unfolding Let_def all by (auto simp: d c)
  with i b show ?thesis unfolding Let_def ev_def [symmetric] s_def [symmetric] by blast
qed

text \<open>C4: over any sequence of batches and ticks (with batches that fit the staging queue), every
  CLAP event staged is either delivered exactly once or still pending: none is lost, none is
  duplicated, and the run always completes.\<close>

theorem sched_run_exactly_once:
  assumes "sched_invar s" "staged s = []" "sch_pending s = []"
    and "list_all (\<lambda>r. beats_ordered (fst r) \<and> length (fst r) \<le> 1023) rs"
  shows "\<exists>fired s'. sched_run rs s = Some (fired, s') \<and>
    mset fired + mset (clap_events (sch_pending s')) = mset (clap_events (concat (map fst rs)))"
proof -
  have rs: "list_all (\<lambda>r. beats_ordered (fst r)) rs" "list_all (\<lambda>r. length (fst r) \<le> 1023) rs"
    using assms(4) by (auto simp: list_all_iff)
  have "beats_ordered (sch_pending s)" using assms(3) by (simp add: beats_ordered_def)
  from sched_run_spec [OF assms(1,2) this rs] obtain fired s' where "sched_run rs s = Some (fired, s')"
    "mset fired + mset (clap_events (sch_pending s')) =
      mset (clap_events (sch_pending s)) + mset (clap_events (concat (map fst rs)))"
    by blast
  then show ?thesis using assms(3) by (simp add: clap_events_def)
qed

theorem sched_run_exactly_once_witness:
  "let e = \<lparr>se_beat = Fin 1, se_kind = K_clap, se_event = Clap_other 5, se_osc = osc_event_new\<rparr>;
       s = \<lparr>sch_staging = q_new sched_queue_capacity e, sch_pending = [], sch_osc_out = None\<rparr> in
   \<exists>fired s'. sched_run [([e], Fin 0), ([], Fin 1)] s = Some (fired, s') \<and>
     mset fired + mset (clap_events (sch_pending s')) = {#Clap_other 5#}"
proof -
  define e where "e = \<lparr>se_beat = Fin 1, se_kind = K_clap, se_event = Clap_other 5, se_osc = osc_event_new\<rparr>"
  define s where "s = \<lparr>sch_staging = q_new sched_queue_capacity e, sch_pending = [], sch_osc_out = None\<rparr>"
  have "sched_invar s" "staged s = []" "sch_pending s = []"
    by (simp_all add: sched_invar_def staged_def s_def q_new_list q_new_invar queue_capacities_ok)
  moreover have "list_all (\<lambda>r. beats_ordered (fst r) \<and> length (fst r) \<le> 1023) [([e], Fin 0), ([], Fin 1)]"
    by (simp add: beats_ordered_def e_def)
  ultimately have "\<exists>fired s'. sched_run [([e], Fin 0), ([], Fin 1)] s = Some (fired, s') \<and>
      mset fired + mset (clap_events (sch_pending s')) = mset (clap_events (concat (map fst [([e], Fin 0), ([], Fin 1)])))"
    by (rule sched_run_exactly_once)
  moreover have "clap_events (concat (map fst [([e], Fin 0), ([], Fin 1)])) = [Clap_other 5]"
    by (simp add: clap_events_def e_def)
  ultimately show ?thesis unfolding Let_def e_def [symmetric] s_def [symmetric] by simp
qed

lemma apply_blocks_none: "ti_pending ti = None \<Longrightarrow> apply_blocks ti bs = (replicate (length bs) False, ti)"
  by (induction bs) (simp_all add: apply_if_ready_def transition_ready_def)

text \<open>C5: over any sequence of blocks a pending transition is promoted exactly once, at the first
  block whose beat has reached \<open>apply_at\<close>, and never before; the promoted timeline is the
  pending one. If no block reaches it, nothing changes.\<close>

theorem transition_applies_once:
  assumes "ti_pending ti = Some p"
  shows "apply_blocks ti bs =
    (case dropWhile (\<lambda>b. \<not> fle (pt_apply_at p) b) bs of
       [] \<Rightarrow> (replicate (length bs) False, ti)
     | _ # late \<Rightarrow>
         (replicate (length (takeWhile (\<lambda>b. \<not> fle (pt_apply_at p) b) bs)) False @ True # replicate (length late) False,
          ti\<lparr>ti_current := pt_tl p, ti_pending := None\<rparr>))"
proof (induction bs)
  case (Cons b bs)
  show ?case
  proof (cases "fle (pt_apply_at p) b")
    case True
    with assms show ?thesis by (simp add: apply_if_ready_def transition_ready_def apply_blocks_none)
  next
    case False
    with assms Cons show ?thesis
      by (cases "dropWhile (\<lambda>b. \<not> fle (pt_apply_at p) b) bs")
         (simp_all add: apply_if_ready_def transition_ready_def del: dropWhile_eq_Nil_conv)
  qed
qed simp

theorem transition_applies_once_witness:
  "let p = \<lparr>pt_tl = \<lparr>bpm = Fin 90, beat = Fin 8\<rparr>, pt_policy = ''bar-quantize'', pt_apply_at = Fin 8\<rparr>;
       ti = \<lparr>ti_current = \<lparr>bpm = Fin 120, beat = Fin 0\<rparr>, ti_pending = Some p\<rparr> in
   apply_blocks ti [Fin 7, Fin 8, Fin 9] = ([False, True, False], ti\<lparr>ti_current := pt_tl p, ti_pending := None\<rparr>)"
proof -
  define p where "p = \<lparr>pt_tl = \<lparr>bpm = Fin 90, beat = Fin 8\<rparr>, pt_policy = ''bar-quantize'', pt_apply_at = Fin 8\<rparr>"
  define ti where "ti = \<lparr>ti_current = \<lparr>bpm = Fin 120, beat = Fin 0\<rparr>, ti_pending = Some p\<rparr>"
  have "ti_pending ti = Some p" "\<not> fle (pt_apply_at p) (Fin 7)" "fle (pt_apply_at p) (Fin 8)"
    by (simp_all add: ti_def p_def fle_fin)
  then show ?thesis using transition_applies_once [of ti p "[Fin 7, Fin 8, Fin 9]"]
    unfolding Let_def p_def [symmetric] ti_def [symmetric] by simp
qed

end
