(* ===== verification/Midi.thy ===== *)
theory Midi
  imports Events
begin

text \<open>
  MIDI: the collector of CLAP output events and its cache-line blocks (\<open>event_collector.cpp\<close>,
  \<open>midi_out_event.hpp\<close>), the input buffer presented to plugins (\<open>input_event_buffer.cpp\<close>) and
  the port wrapper with its message builders and input callback (\<open>midi_io.cpp\<close>).
\<close>

section \<open>Output events\<close>

record midi_out_event =
  mo_sample_offset :: u16
  mo_port :: u8
  mo_size :: u8
  mo_data :: "u8 list"

definition midi_out_new :: midi_out_event where
  "midi_out_new = \<lparr>mo_sample_offset = 0, mo_port = 0, mo_size = 0, mo_data = [0, 0, 0]\<rparr>"

text \<open>A block is its \<open>count\<close> and the seven slots.\<close>

record midi_event_block =
  mb_count :: u8
  mb_events :: "midi_out_event list"

definition midi_block_new :: midi_event_block where
  "midi_block_new = \<lparr>mb_count = 0, mb_events = replicate 7 midi_out_new\<rparr>"

definition midi_queue_capacity :: nat where
  "midi_queue_capacity = 512"

section \<open>The collector\<close>

definition max_events :: nat where
  "max_events = 128"

record event_collector =
  co_events :: "midi_out_event list"
  co_count :: nat

definition collector_new :: event_collector where
  "collector_new = \<lparr>co_events = replicate max_events midi_out_new, co_count = 0\<rparr>"

definition collector_reset :: "event_collector \<Rightarrow> event_collector" where
  "collector_reset c = c\<lparr>co_count := 0\<rparr>"

definition midi_message_size :: "u8 \<Rightarrow> u8" where
  "midi_message_size status =
     (if 0xF8 \<le> status then 1
      else if 0xF0 \<le> status then 3
      else if status AND 0xF0 = 0xC0 \<or> status AND 0xF0 = 0xD0 then 2
      else 3)"

text \<open>\<open>std::clamp(static_cast<int>(velocity * 127.0), 0, 127)\<close>; the cast of a value that does not
  fit an \<open>int\<close> is undefined.\<close>

definition midi_velocity :: "fp \<Rightarrow> u8 option" where
  "midi_velocity v = map_option (\<lambda>i. of_int (max 0 (min 127 i))) (to_int32 (fmul F64 v (Fin 127)))"

definition note_bytes :: "u8 \<Rightarrow> note_event \<Rightarrow> u8 list option" where
  "note_bytes status n =
     (case midi_velocity (ne_velocity n) of None \<Rightarrow> None
      | Some vel \<Rightarrow> Some [status OR (ucast (ne_channel n AND 0x0F)), ucast (ne_key n AND 0x7F), vel])"

definition sample_offset :: "u32 \<Rightarrow> u16" where
  "sample_offset t = ucast (min t 0xFFFF)"

text \<open>What an accepted event becomes: \<open>None\<close> is undefined behaviour, \<open>Some None\<close> is discarded.\<close>

definition translate :: "clap_event \<Rightarrow> midi_out_event option option" where
  "translate ev = (case ev of
     Clap_note n \<Rightarrow>
       if sint (ne_channel n) < 0 \<or> sint (ne_key n) < 0 then Some None
       else (case note_bytes (if ne_on n then 0x90 else 0x80) n of
         None \<Rightarrow> None
       | Some d \<Rightarrow> Some (Some \<lparr>mo_sample_offset = sample_offset (ne_time n), mo_port = 0, mo_size = 3, mo_data = d\<rparr>))
   | Clap_midi m \<Rightarrow>
       Some (Some \<lparr>mo_sample_offset = sample_offset (me_time m), mo_port = ucast (me_port m AND 0xFF),
         mo_size = midi_message_size (me_data m ! 0), mo_data = [me_data m ! 0, me_data m ! 1, me_data m ! 2]\<rparr>)
   | Clap_other t \<Rightarrow> Some None)"

definition try_push :: "event_collector \<Rightarrow> clap_event \<Rightarrow> (bool \<times> event_collector) option" where
  "try_push c ev =
     (if max_events \<le> co_count c then Some (False, c)
      else case translate ev of
        None \<Rightarrow> None
      | Some None \<Rightarrow> Some (True, c)
      | Some (Some e) \<Rightarrow>
          if 0 < mo_size e
          then Some (True, c\<lparr>co_events := (co_events c)[co_count c := e], co_count := co_count c + 1\<rparr>)
          else Some (True, c))"

text \<open>The inner loop of \<open>flush_to\<close> fills a block, the outer loop pushes blocks.\<close>

function fill_block :: "midi_event_block \<Rightarrow> midi_out_event list \<Rightarrow> nat \<Rightarrow> nat \<Rightarrow> midi_event_block \<times> nat" where
  "fill_block b evs n i =
     (if mb_count b < 7 \<and> i < n
      then fill_block (b\<lparr>mb_events := (mb_events b)[unat (mb_count b) := evs ! i], mb_count := mb_count b + 1\<rparr>) evs n (i + 1)
      else (b, i))"
  by pat_completeness auto
termination by (relation "measure (\<lambda>(b, evs, n, i). n - i)") auto

declare fill_block.simps [simp del]

lemma fill_block_progress: "i \<le> snd (fill_block b evs n i)"
  by (induction b evs n i rule: fill_block.induct) (subst fill_block.simps, auto)

lemma fill_block_strict: "mb_count b < 7 \<Longrightarrow> i < n \<Longrightarrow> i < snd (fill_block b evs n i)"
  using fill_block_progress [of "i + 1" _ evs n] by (subst fill_block.simps) (auto simp: Suc_le_eq)

function flush_blocks :: "midi_out_event list \<Rightarrow> nat \<Rightarrow> nat \<Rightarrow> midi_event_block list" where
  "flush_blocks evs n i =
     (if i < n then case fill_block midi_block_new evs n i of (b, j) \<Rightarrow> b # flush_blocks evs n j else [])"
  by pat_completeness auto
termination
proof (relation "measure (\<lambda>(evs, n, i). n - i)", goal_cases)
  case (2 evs n i b j)
  have "mb_count midi_block_new < 7" by (simp add: midi_block_new_def)
  from fill_block_strict [OF this 2(1), of evs] have "i < j" by (simp add: 2(2) [symmetric])
  with 2(1) show ?case by simp
qed simp

declare flush_blocks.simps [simp del]

definition flush_to :: "event_collector \<Rightarrow> midi_event_block spsc \<Rightarrow> nat \<times> midi_event_block spsc" where
  "flush_to c q = (let bs = flush_blocks (co_events c) (co_count c) 0 in
     (length bs, push_all (q_push midi_queue_capacity) q bs))"

section \<open>The input buffer\<close>

definition in_max_events :: nat where
  "in_max_events = 64"

record input_event_buffer =
  ib_events :: "clap_event list"
  ib_count :: nat

definition ib_clear :: "input_event_buffer \<Rightarrow> input_event_buffer" where
  "ib_clear b = b\<lparr>ib_count := 0\<rparr>"

definition ib_drain :: "input_event_buffer \<Rightarrow> clap_event spsc \<Rightarrow> input_event_buffer \<times> clap_event spsc" where
  "ib_drain b q =
     (case pop_upto (q_pop in_queue_capacity) (in_max_events - ib_count b) q of
        (evs, q') \<Rightarrow> (b\<lparr>ib_events := sv_copy (ib_events b) (ib_count b) evs, ib_count := ib_count b + length evs\<rparr>, q'))"

definition ib_size :: "input_event_buffer \<Rightarrow> u32" where
  "ib_size b = of_nat (ib_count b)"

definition ib_get :: "input_event_buffer \<Rightarrow> u32 \<Rightarrow> clap_event option" where
  "ib_get b index = (if ib_count b \<le> unat index then None else Some (ib_events b ! unat index))"

section \<open>Ports\<close>

text \<open>
  RtMidi is not part of the sources: the names of its ports and whether its calls succeed are
  arguments. \<open>pio_echo\<close> and \<open>pio_send_cb\<close> say whether the callbacks are set.
\<close>

record midi_io =
  pio_out_open :: bool
  pio_virtual_open :: bool
  pio_in_open :: bool
  pio_in_queue :: "clap_event spsc option"
  pio_echo :: bool
  pio_send_cb :: bool

datatype midi_effect = Midi_sent "u8 list" | Midi_tap "u8 list" | Midi_echo "u8 list"

definition pio_is_open :: "midi_io \<Rightarrow> bool" where
  "pio_is_open m = (pio_out_open m \<or> pio_virtual_open m)"

definition open_port :: "nat \<Rightarrow> bool \<Rightarrow> midi_io \<Rightarrow> nat \<Rightarrow> bool \<times> midi_io" where
  "open_port n ok m index =
     (if n \<le> index then (False, m) else if ok then (True, m\<lparr>pio_out_open := True\<rparr>) else (False, m))"

fun str_contains :: "string \<Rightarrow> string \<Rightarrow> bool" where
  "str_contains pat [] = (pat = [])"
| "str_contains pat (c # s) = (take (length pat) (c # s) = pat \<or> str_contains pat s)"

fun first_match :: "string \<Rightarrow> nat \<Rightarrow> string list \<Rightarrow> nat option" where
  "first_match pat i [] = None"
| "first_match pat i (s # ss) = (if str_contains pat s then Some i else first_match pat (i + 1) ss)"

definition open_port_by_name :: "string list \<Rightarrow> bool \<Rightarrow> midi_io \<Rightarrow> string \<Rightarrow> bool \<times> midi_io" where
  "open_port_by_name names ok m name =
     (case first_match name 0 names of None \<Rightarrow> (False, m) | Some i \<Rightarrow> open_port (length names) ok m i)"

definition open_virtual_port :: "bool \<Rightarrow> midi_io \<Rightarrow> bool \<times> midi_io" where
  "open_virtual_port ok m = (if ok then (True, m\<lparr>pio_virtual_open := True\<rparr>) else (False, m))"

definition pio_close :: "midi_io \<Rightarrow> midi_io" where
  "pio_close m = m\<lparr>pio_out_open := False, pio_virtual_open := False\<rparr>"

definition send :: "bool \<Rightarrow> midi_io \<Rightarrow> u8 list \<Rightarrow> midi_effect list" where
  "send ok m bytes =
     (if \<not> pio_is_open m then []
      else if ok then Midi_sent bytes # (if pio_send_cb m then [Midi_tap bytes] else [])
      else [])"

definition chan_nibble :: "u8 \<Rightarrow> u8" where
  "chan_nibble channel = (channel - 1) AND 0x0F"

definition note_on_bytes :: "u8 \<Rightarrow> u8 \<Rightarrow> u8 \<Rightarrow> u8 list" where
  "note_on_bytes channel note velocity = [0x90 OR chan_nibble channel, note, velocity]"

definition note_off_bytes :: "u8 \<Rightarrow> u8 \<Rightarrow> u8 list" where
  "note_off_bytes channel note = [0x80 OR chan_nibble channel, note, 0]"

definition cc_bytes :: "u8 \<Rightarrow> u8 \<Rightarrow> u8 \<Rightarrow> u8 list" where
  "cc_bytes channel cc_num v = [0xB0 OR chan_nibble channel, cc_num, v]"

definition pitch_bend_bytes :: "u8 \<Rightarrow> u16 \<Rightarrow> u8 list" where
  "pitch_bend_bytes channel value14 =
     [0xE0 OR chan_nibble channel, ucast (value14 AND 0x7F), ucast (drop_bit 7 value14 AND 0x7F)]"

definition channel_pressure_bytes :: "u8 \<Rightarrow> u8 \<Rightarrow> u8 list" where
  "channel_pressure_bytes channel pressure = [0xD0 OR chan_nibble channel, pressure]"

definition pio_note_on :: "bool \<Rightarrow> midi_io \<Rightarrow> u8 \<Rightarrow> u8 \<Rightarrow> u8 \<Rightarrow> midi_effect list" where
  "pio_note_on ok m channel note velocity = send ok m (note_on_bytes channel note velocity)"

definition pio_note_off :: "bool \<Rightarrow> midi_io \<Rightarrow> u8 \<Rightarrow> u8 \<Rightarrow> midi_effect list" where
  "pio_note_off ok m channel note = send ok m (note_off_bytes channel note)"

definition pio_cc :: "bool \<Rightarrow> midi_io \<Rightarrow> u8 \<Rightarrow> u8 \<Rightarrow> u8 \<Rightarrow> midi_effect list" where
  "pio_cc ok m channel cc_num v = send ok m (cc_bytes channel cc_num v)"

definition pio_pitch_bend :: "bool \<Rightarrow> midi_io \<Rightarrow> u8 \<Rightarrow> u16 \<Rightarrow> midi_effect list" where
  "pio_pitch_bend ok m channel value14 = send ok m (pitch_bend_bytes channel value14)"

definition pio_channel_pressure :: "bool \<Rightarrow> midi_io \<Rightarrow> u8 \<Rightarrow> u8 \<Rightarrow> midi_effect list" where
  "pio_channel_pressure ok m channel pressure = send ok m (channel_pressure_bytes channel pressure)"

definition pio_realtime :: "bool \<Rightarrow> midi_io \<Rightarrow> u8 \<Rightarrow> midi_effect list" where
  "pio_realtime ok m byte = send ok m [byte]"

definition set_echo_callback :: "bool \<Rightarrow> midi_io \<Rightarrow> midi_io" where
  "set_echo_callback cb m = m\<lparr>pio_echo := cb\<rparr>"

definition set_send_callback :: "bool \<Rightarrow> midi_io \<Rightarrow> midi_io" where
  "set_send_callback cb m = m\<lparr>pio_send_cb := cb\<rparr>"

definition input_is_open :: "midi_io \<Rightarrow> bool" where
  "input_is_open m = pio_in_open m"

definition open_input_port :: "nat \<Rightarrow> bool \<Rightarrow> midi_io \<Rightarrow> nat \<Rightarrow> clap_event spsc \<Rightarrow> bool \<times> midi_io" where
  "open_input_port n ok m index q =
     (if n \<le> index then (False, m)
      else if ok then (True, m\<lparr>pio_in_queue := Some q, pio_in_open := True\<rparr>)
      else (False, m\<lparr>pio_in_queue := None\<rparr>))"

definition open_input_port_by_name :: "string list \<Rightarrow> bool \<Rightarrow> midi_io \<Rightarrow> string \<Rightarrow> clap_event spsc \<Rightarrow> bool \<times> midi_io" where
  "open_input_port_by_name names ok m name q =
     (case first_match name 0 names of None \<Rightarrow> (False, m) | Some i \<Rightarrow> open_input_port (length names) ok m i q)"

definition close_input :: "midi_io \<Rightarrow> midi_io" where
  "close_input m = (if pio_in_open m then m\<lparr>pio_in_open := False, pio_in_queue := None\<rparr> else m)"

text \<open>The event a non-empty input message becomes.\<close>

definition midi_in_event :: "u8 list \<Rightarrow> clap_event" where
  "midi_in_event msg =
     (let status = msg ! 0; nibble = status AND 0xF0;
          b1 = (if 1 < length msg then msg ! 1 else 0);
          b2 = (if 2 < length msg then msg ! 2 else 0) in
      if nibble = 0x90 \<or> nibble = 0x80 then
        let is_off = (nibble = 0x80 \<or> nibble = 0x90 \<and> b2 = 0) in
        Clap_note \<lparr>ne_on = \<not> is_off, ne_live = True, ne_time = 0, ne_note_id = - 1, ne_port = 0,
          ne_channel = ucast (status AND 0x0F), ne_key = ucast b1,
          ne_velocity = (if is_off then Fin 0 else fdiv F64 (of_int_fp F64 (uint b2)) (Fin 127))\<rparr>
      else Clap_midi \<lparr>me_live = True, me_time = 0, me_port = 0, me_data = [status, b1, b2]\<rparr>)"

definition midi_callback :: "midi_io \<Rightarrow> u8 list option \<Rightarrow> midi_effect list \<times> midi_io" where
  "midi_callback m msg = (case msg of
     None \<Rightarrow> ([], m)
   | Some bytes \<Rightarrow>
       if bytes = [] then ([], m)
       else if pio_echo m then ([Midi_echo bytes], m)
       else (case pio_in_queue m of
         None \<Rightarrow> ([], m)
       | Some q \<Rightarrow> ([], m\<lparr>pio_in_queue := Some (snd (q_push in_queue_capacity q (midi_in_event bytes)))\<rparr>)))"

section \<open>The collector keeps well-formed messages\<close>

definition midi_wf :: "midi_out_event \<Rightarrow> bool" where
  "midi_wf e = (length (mo_data e) = 3 \<and> 1 \<le> mo_size e \<and> mo_size e \<le> 3)"

definition clap_wf :: "clap_event \<Rightarrow> bool" where
  "clap_wf ev = (case ev of Clap_midi m \<Rightarrow> length (me_data m) = 3 | _ \<Rightarrow> True)"

definition collected :: "event_collector \<Rightarrow> midi_out_event list" where
  "collected c = take (co_count c) (co_events c)"

definition collector_invar :: "event_collector \<Rightarrow> bool" where
  "collector_invar c = (length (co_events c) = max_events \<and> co_count c \<le> max_events \<and> list_all midi_wf (collected c))"

lemma midi_message_size_range: "1 \<le> midi_message_size s \<and> midi_message_size s \<le> 3"
  by (simp add: midi_message_size_def)

lemma translate_wf: "translate ev = Some (Some e) \<Longrightarrow> midi_wf e"
  using midi_message_size_range
  by (auto simp: translate_def midi_wf_def note_bytes_def split: clap_event.splits if_splits option.splits)

lemma try_push_spec:
  assumes "collector_invar c" "translate ev \<noteq> None"
  obtains (full) "co_count c = max_events" "try_push c ev = Some (False, c)"
    | (discard) "co_count c < max_events" "translate ev = Some None" "try_push c ev = Some (True, c)"
    | (store) e c' where "co_count c < max_events" "translate ev = Some (Some e)" "try_push c ev = Some (True, c')"
        "collector_invar c'" "collected c' = collected c @ [e]"
proof -
  consider "max_events \<le> co_count c" | "co_count c < max_events" "translate ev = Some None"
    | e where "co_count c < max_events" "translate ev = Some (Some e)"
    using assms(2) by (metis not_le option.exhaust)
  then show ?thesis
  proof cases
    case 1
    then show ?thesis using assms(1) by (intro full) (auto simp: try_push_def collector_invar_def)
  next
    case 2
    then show ?thesis by (intro discard) (auto simp: try_push_def)
  next
    case (3 e)
    let ?c = "c\<lparr>co_events := (co_events c)[co_count c := e], co_count := co_count c + 1\<rparr>"
    have wf: "midi_wf e" using translate_wf 3 by blast
    have "0 < mo_size e" using wf less_le_trans [of 0 1 "mo_size e"] by (simp add: midi_wf_def)
    moreover have "collected ?c = collected c @ [e]"
      using 3(1) assms(1) by (simp add: collected_def collector_invar_def take_Suc_conv_app_nth)
    ultimately show ?thesis using 3 assms(1) wf
      by (intro store [of e ?c]) (auto simp: try_push_def collector_invar_def)
  qed
qed

section \<open>Blocks\<close>

definition block_events :: "midi_event_block \<Rightarrow> midi_out_event list" where
  "block_events b = take (unat (mb_count b)) (mb_events b)"

definition block_wf :: "midi_event_block \<Rightarrow> bool" where
  "block_wf b = (length (mb_events b) = 7 \<and> mb_count b \<le> 7)"

lemma fill_block_spec:
  "block_wf b \<Longrightarrow> n \<le> length evs \<Longrightarrow> i \<le> n \<Longrightarrow>
   block_wf (fst (fill_block b evs n i)) \<and>
   block_events (fst (fill_block b evs n i)) = block_events b @ take (min (7 - unat (mb_count b)) (n - i)) (drop i evs) \<and>
   snd (fill_block b evs n i) = i + min (7 - unat (mb_count b)) (n - i)"
proof (induction b evs n i rule: fill_block.induct)
  case (1 b evs n i)
  show ?case
  proof (cases "mb_count b < 7 \<and> i < n")
    case True
    let ?b = "b\<lparr>mb_events := (mb_events b)[unat (mb_count b) := evs ! i], mb_count := mb_count b + 1\<rparr>"
    have k: "unat (mb_count b) < 7" using True by (simp add: word_less_nat_alt)
    then have u: "unat (mb_count b + 1) = unat (mb_count b) + 1" by (simp add: unat_word_ariths)
    have wf: "block_wf ?b" using 1(2) k u by (auto simp: block_wf_def word_le_nat_alt)
    have "block_events ?b = block_events b @ [evs ! i]"
      using 1(2) k u by (simp add: block_events_def block_wf_def take_Suc_conv_app_nth)
    moreover have "min (7 - unat (mb_count b)) (n - i) = Suc (min (7 - unat (mb_count ?b)) (n - Suc i))"
      using True k u by (auto simp: min_def)
    moreover have "drop i evs = evs ! i # drop (Suc i) evs" using True 1(3) by (simp add: Cons_nth_drop_Suc)
    ultimately show ?thesis using 1(1) [OF True wf 1(3)] True by (subst (1 2 3) fill_block.simps) simp
  next
    case False
    then have "min (7 - unat (mb_count b)) (n - i) = 0" by (auto simp: word_less_nat_alt)
    with False 1(2) show ?thesis by (subst (1 2 3) fill_block.simps) auto
  qed
qed

lemma block_events_length: "block_wf b \<and> 0 < mb_count b \<Longrightarrow> 1 \<le> length (block_events b) \<and> length (block_events b) \<le> 7"
  by (auto simp: block_wf_def block_events_def word_le_nat_alt word_less_nat_alt Suc_le_eq)

lemma flush_blocks_spec:
  "n \<le> length evs \<Longrightarrow> i \<le> n \<Longrightarrow>
   concat (map block_events (flush_blocks evs n i)) = take (n - i) (drop i evs) \<and>
   length (flush_blocks evs n i) = (n - i + 6) div 7 \<and>
   list_all (\<lambda>b. block_wf b \<and> 0 < mb_count b) (flush_blocks evs n i)"
proof (induction evs n i rule: flush_blocks.induct)
  case (1 evs n i)
  show ?case
  proof (cases "i < n")
    case False
    then show ?thesis by (simp add: flush_blocks.simps)
  next
    case True
    obtain b j where b: "fill_block midi_block_new evs n i = (b, j)" by fastforce
    have new: "block_wf midi_block_new" "block_events midi_block_new = []" "mb_count midi_block_new = 0"
      by (simp_all add: block_wf_def midi_block_new_def block_events_def)
    have f: "block_wf b" "block_events b = take (min 7 (n - i)) (drop i evs)" "j = i + min 7 (n - i)"
      using fill_block_spec [OF new(1) 1(2,3)] new b by simp_all
    have "length (block_events b) = min 7 (n - i)" using f(2) 1(2) by simp
    then have pos: "0 < mb_count b" using True f(1) by (auto simp: block_events_def word_gt_0 block_wf_def)
    have ih: "concat (map block_events (flush_blocks evs n j)) = take (n - j) (drop j evs) \<and>
        length (flush_blocks evs n j) = (n - j + 6) div 7 \<and>
        list_all (\<lambda>b. block_wf b \<and> 0 < mb_count b) (flush_blocks evs n j)"
    proof (rule 1(1) [OF True b [symmetric] 1(2)])
      show "j \<le> n" using f(3) True by (auto simp: min_def)
    qed
    have "take (min 7 (n - i)) (drop i evs) @ take (n - j) (drop j evs) = take (n - i) (drop i evs)"
    proof (cases "7 \<le> n - i")
      case True
      then show ?thesis using f(3) take_add [of 7 "n - i - 7" "drop i evs"] by (simp add: add.commute)
    qed (use f(3) in simp)
    moreover have "Suc ((n - j + 6) div 7) = (n - i + 6) div 7" using f(3) True by (auto simp: min_def)
    ultimately show ?thesis using True b f(1,2) pos ih by (subst (1 2 3) flush_blocks.simps) simp
  qed
qed

lemma midi_capacity_ok: "q_capacity_ok midi_queue_capacity"
  unfolding q_capacity_ok_def midi_queue_capacity_def by (rule exI [of _ 9]) simp

lemma collector_new_invar: "collector_invar collector_new" "collected collector_new = []"
  by (simp_all add: collector_invar_def collector_new_def collected_def)

section \<open>Velocities and status bytes\<close>

lemma velocity_quotient:
  fixes v :: int and k :: nat
  assumes "2 ^ k \<le> v" "v < 2 ^ (k + 1)" "k \<le> 6" "v < 127"
  obtains m :: int where "rnd_val F64 (of_int v / 127) = of_int m * 2 powi (int k - 59)"
    "\<bar>127 * m - v * 2 ^ (59 - k)\<bar> \<le> 63"
proof -
  let ?x = "of_int v / 127 :: rat" let ?u = "2 powi (int k - 59) :: rat"
  have iv: "(2 ^ k :: rat) \<le> of_int v" using assms(1) by (metis of_int_le_iff of_int_numeral of_int_power)
  have "v * 64 < 127 * 2 ^ k"
  proof (cases "k = 6")
    case False
    then have "(2::int) ^ k \<le> 2 ^ 5" using assms(3) by (intro power_increasing) auto
    with assms(1,2) show ?thesis by simp
  qed (use assms in simp)
  then have up: "of_int v * 64 < (127 * 2 ^ k :: rat)"
    using of_int_less_iff [where ?'a = rat, of "v * 64" "127 * 2 ^ k"] by simp
  have p: "2 powi (int k - 6 - 1) = (2 ^ k / 128 :: rat)" "2 powi (int k - 6) = (2 ^ k / 64 :: rat)"
    by (simp_all add: power_int_diff)
  have ax: "\<bar>?x\<bar> = ?x" using order.trans [OF zero_le_power iv] by simp
  have "2 ^ k / 128 \<le> ?x" "?x < 2 ^ k / 64" using iv up zero_less_power [of "2::rat" k] by linarith+
  then have e: "ulp_exp F64 ?x = int k - 59"
    using ulp_exp_eq [of F64 "int k - 6" ?x] unfolding p ax by (simp add: F64_def fmt_ok_def)
  define m where "m = rne (?x / ?u)"
  have "int k - 59 = - int (59 - k)" using assms(3) by simp
  then have u: "?u = inverse (2 ^ (59 - k))" by (simp only: power_int_minus power_int_of_nat)
  have "?x / ?u = ?x * 2 ^ (59 - k)" unfolding u by (simp only: divide_inverse inverse_inverse_eq)
  then have q: "?x / ?u = of_int (v * 2 ^ (59 - k)) / 127" by simp
  have "\<bar>of_int m - of_int (v * 2 ^ (59 - k)) / 127 :: rat\<bar> \<le> 1/2" unfolding m_def q by (rule rne_error)
  then have "\<bar>of_int (127 * m - v * 2 ^ (59 - k)) :: rat\<bar> \<le> 127/2" by (simp add: abs_le_iff field_simps)
  then have "\<bar>127 * m - v * 2 ^ (59 - k)\<bar> \<le> 63" by linarith
  moreover have "rnd_val F64 ?x = of_int m * ?u" by (simp add: rnd_val_def e m_def)
  ultimately show ?thesis using that by blast
qed


text \<open>A value just below an integer rounds to it or above: below a power of two the spacing is half of what
  it is below the other integers.\<close>

lemma rnd_below_power:
  fixes y :: rat and k :: nat
  assumes "y < 2 ^ k" "2 ^ k - 1/2 \<le> y" "\<bar>y - 2 ^ k\<bar> < 2 powi (int k - 54)"
  shows "2 ^ k \<le> rnd_val F64 y"
proof -
  have "2 powi int k = (2 ^ k :: rat)" "2 powi (int k - 1) = (2 ^ k / 2 :: rat)" "(1::rat) \<le> 2 ^ k"
    by (simp_all add: power_int_diff)
  then have "\<bar>y\<bar> < 2 powi int k" "2 powi (int k - 1) \<le> \<bar>y\<bar>" using assms(1,2) by linarith+
  then have "ulp_exp F64 y = int k - 53" using ulp_exp_eq [of F64 "int k" y] by (simp add: F64_def fmt_ok_def)
  moreover have "(2 ^ k :: rat) = of_int (2 ^ 53) * 2 powi (int k - 53)" by (simp add: power_int_diff)
  ultimately show ?thesis using rnd_val_near [of "2 ^ k" "2 ^ 53" F64 y] assms(3) by simp
qed

lemma rnd_below_int:
  fixes y :: rat and k :: nat and v :: int
  assumes "2 ^ k < v" "v < 2 ^ (k + 1)" "k \<le> 6" "y < of_int v" "of_int v - 1/2 \<le> y" "\<bar>y - of_int v\<bar> < 2 powi (int k - 53)"
  shows "of_int v \<le> rnd_val F64 y"
proof -
  have v: "2 ^ k + 1 \<le> (of_int v :: rat)" "of_int v < (2 ^ (k + 1) :: rat)"
    using assms(1,2) of_int_le_iff [where ?'a = rat, of "2 ^ k + 1" v] of_int_less_iff [where ?'a = rat, of v "2 ^ (k + 1)"] by auto
  have "2 powi (int k + 1) = (2 ^ (k + 1) :: rat)" "2 powi (int k + 1 - 1) = (2 ^ k :: rat)" "(0::rat) \<le> 2 ^ k"
    by (simp_all add: power_int_add)
  then have "\<bar>y\<bar> < 2 powi (int k + 1)" "2 powi (int k + 1 - 1) \<le> \<bar>y\<bar>" using v assms(4,5) by linarith+
  then have "ulp_exp F64 y = int k - 52" using ulp_exp_eq [of F64 "int k + 1" y] by (simp add: F64_def fmt_ok_def)
  moreover have "int k - 52 = - int (52 - k)" using assms(3) by simp
  then have "of_int v = of_int (v * 2 ^ (52 - k)) * (2 powi (int k - 52) :: rat)" 
    by (simp only: power_int_minus power_int_of_nat) simp
  ultimately show ?thesis using rnd_val_near [of "of_int v" "v * 2 ^ (52 - k)" F64 y] assms(6) by simp
qed

text \<open>An integer below 128 and the next half are double-precision numbers.\<close>

lemma rep_velocity:
  fixes v :: int
  assumes "0 < v" "v < 128"
  shows "rep F64 (of_int v)" "rep F64 (of_int v + 1/2)"
proof -
  show "rep F64 (of_int v)" using assms fin_rep_int [of F64 v] by (auto simp: fin_rep_def F64_def fmt_ok_def)
  show "rep F64 (of_int v + 1/2)" using assms unfolding rep_def
    by (intro exI [of _ "2 * v + 1"] exI [of _ "- 1"]) (simp add: F64_def power_int_minus field_simps)
qed

lemma velocity_product:
  fixes v :: int and k :: nat and m :: int
  assumes v: "2 ^ k \<le> v" "v < 2 ^ (k + 1)" "k \<le> 6"
    and m: "\<bar>127 * m - v * 2 ^ (59 - k)\<bar> \<le> 63" "v = 2 ^ k \<Longrightarrow> \<bar>127 * m - v * 2 ^ (59 - k)\<bar> < 32"
  shows "of_int v \<le> rnd_val F64 (of_int m * 2 powi (int k - 59) * 127) \<and>
    rnd_val F64 (of_int m * 2 powi (int k - 59) * 127) \<le> of_int v + 1/2"
proof -
  let ?y = "of_int m * 2 powi (int k - 59) * 127 :: rat" let ?u = "2 powi (int k - 59) :: rat"
  define d where "d = 127 * m - v * 2 ^ (59 - k)"
  have "int k - 59 = - int (59 - k)" using v(3) by simp
  then have u: "?u = inverse (2 ^ (59 - k))" by (simp only: power_int_minus power_int_of_nat)
  have y: "?y = of_int v + of_int d * ?u" unfolding u d_def by (simp add: algebra_simps)
  have "(2::rat) ^ 53 \<le> 2 ^ (59 - k)" using v(3) by (intro power_increasing) auto
  then have u53: "?u \<le> inverse (2 ^ 53)" unfolding u by (intro le_imp_inverse_le) auto
  have u53': "?u \<le> 1 / 9007199254740992" using u53 by simp
  have u0: "0 < ?u" by simp
  have d63: "of_int d \<le> (63 :: rat)" "- 63 \<le> (of_int d :: rat)" using m(1) unfolding d_def [symmetric] by linarith+
  have s63: "of_int d * ?u \<le> 1/2" "- (1/2) \<le> of_int d * ?u"
    using mult_right_mono [OF d63(1), of ?u] mult_right_mono [OF d63(2), of ?u] u0 u53' by linarith+
  have "(2::int) ^ (k + 1) \<le> 2 ^ 7" using v(3) by (intro power_increasing) auto
  moreover have "0 < v" using v(1) zero_less_power [of "2::int" k] by linarith
  ultimately have rep: "rep F64 (of_int v)" "rep F64 (of_int v + 1/2)" using rep_velocity [of v] v(2) by simp_all
  have hi: "rnd_val F64 ?y \<le> of_int v + 1/2" by (rule rnd_val_le [OF fmt_ok_F64 rep(2)]) (use s63 y in simp)
  have "of_int v \<le> rnd_val F64 ?y"
  proof (cases "0 \<le> d")
    case True
    then have "of_int v \<le> ?y" unfolding y using u0 by simp
    then show ?thesis using rnd_val_ge rep(1) by simp
  next
    case False
    then have neg: "of_int d * ?u < 0" using u0 by (simp add: mult_neg_pos)
    have p: "2 powi (int k - 53) = 64 * ?u" "2 powi (int k - 54) = 32 * ?u" by (simp_all add: power_int_diff)
    have near: "\<bar>?y - of_int v\<bar> = - of_int d * ?u" "?y < of_int v" "of_int v - 1/2 \<le> ?y" using neg y s63 by simp_all
    show ?thesis
    proof (cases "v = 2 ^ k")
      case True
      have "- (of_int d :: rat) < 32" using m(2) [OF True] unfolding d_def [symmetric] by linarith
      then have "\<bar>?y - of_int v\<bar> < 2 powi (int k - 54)" using near(1) p(2) mult_strict_right_mono [OF _ u0] by metis
      then show ?thesis using rnd_below_power [of ?y k] near True by simp
    next
      case False
      have "- (of_int d :: rat) < 64" using d63 by simp
      then have "\<bar>?y - of_int v\<bar> < 2 powi (int k - 53)" using near(1) p(1) mult_strict_right_mono [OF _ u0] by metis
      then show ?thesis using rnd_below_int [of k v ?y] near v False by simp
    qed
  qed
  then show ?thesis using hi by blast
qed

lemma velocity_binade: "1 \<le> v \<Longrightarrow> v \<le> (127::int) \<Longrightarrow> \<exists>k\<le>6. 2 ^ k \<le> v \<and> v < 2 ^ (k + 1)"
proof -
  assume v: "1 \<le> v" "v \<le> 127"
  consider "v < 2" | "2 \<le> v" "v < 4" | "4 \<le> v" "v < 8" | "8 \<le> v" "v < 16" | "16 \<le> v" "v < 32"
    | "32 \<le> v" "v < 64" | "64 \<le> v" by linarith
  then show ?thesis
    by cases (use v in \<open>auto intro: exI [of _ 0] exI [of _ 1] exI [of _ 2] exI [of _ 3] exI [of _ 4] exI [of _ 5] exI [of _ 6]\<close>)
qed

lemma velocity_rounds:
  assumes "1 \<le> v" "v \<le> (127::int)"
  shows "of_int v \<le> rnd_val F64 (rnd_val F64 (of_int v / 127) * 127) \<and>
    rnd_val F64 (rnd_val F64 (of_int v / 127) * 127) \<le> of_int v + 1/2"
proof (cases "v = 127")
  case True
  have "rep F64 1" "rep F64 127" using fin_rep_int [of F64 1] fin_rep_int [of F64 127]
    by (simp_all add: fin_rep_def F64_def fmt_ok_def)
  with True show ?thesis by (simp add: rnd_val_id)
next
  case False
  obtain k where k: "k \<le> 6" "2 ^ k \<le> v" "v < 2 ^ (k + 1)" using velocity_binade [OF assms] by blast
  have "v < 127" using False assms(2) by simp
  from velocity_quotient [OF k(2,3,1) this] obtain m where m:
    "rnd_val F64 (of_int v / 127) = of_int m * 2 powi (int k - 59)" "\<bar>127 * m - v * 2 ^ (59 - k)\<bar> \<le> 63" .
  have "\<bar>127 * m - v * 2 ^ (59 - k)\<bar> < 32" if "v = 2 ^ k"
  proof -
    have "v * 2 ^ (59 - k) = 576460752303423488" using that k(1) by (simp flip: power_add)
    then have d: "127 * m - v * 2 ^ (59 - k) = 127 * (m - 4539061041759240) - 8" by simp
    define t where "t = m - 4539061041759240"
    have "\<bar>127 * t - 8\<bar> \<le> 63" using m(2) unfolding d t_def .
    then have "t = 0" by presburger
    then show ?thesis unfolding d t_def [symmetric] by simp
  qed
  then show ?thesis using velocity_product [OF k(2,3,1) m(2)] m(1) by simp
qed

lemma velocity_exact:
  assumes "1 \<le> v" "v \<le> 127"
  shows "midi_velocity (fdiv F64 (of_int_fp F64 v) (Fin 127)) = Some (of_int v)"
proof -
  have fv: "fin_rep F64 (of_int v)" "fin_rep F64 (127 :: rat)" "fin_rep F64 (128 :: rat)" "fin_rep F64 0" "fin_rep F64 1"
    using assms fin_rep_int [of F64 v] fin_rep_int [of F64 127] fin_rep_int [of F64 128] fin_rep_int [of F64 1]
    by (simp_all add: F64_def fmt_ok_def)
  let ?q = "rnd_val F64 (of_int v / 127)" let ?y = "rnd_val F64 (?q * 127)"
  have v: "0 < (of_int v :: rat)" "(of_int v :: rat) \<le> 127" using assms by simp_all
  have iv: "fin_val (of_int_fp F64 v) = Some (of_int v)" using fv(1) by (simp add: fin_val_of_int_fp)
  then have "of_int_fp F64 v = Fin (of_int v)" using v by (cases "of_int_fp F64 v") auto
  then have "fdiv F64 (of_int_fp F64 v) (Fin 127) = rnd F64 False (of_int v / 127)" using v by (simp add: fdiv_def)
  moreover have "fin_val (rnd F64 False (of_int v / 127)) = Some ?q"
    using fin_val_rnd [of F64 0 1 "of_int v / 127"] fv v by simp
  ultimately have q: "fin_val (fdiv F64 (of_int_fp F64 v) (Fin 127)) = Some ?q" by simp
  have r: "of_int v \<le> ?y" "?y \<le> of_int v + 1/2" using velocity_rounds [OF assms] by auto
  have q01: "0 \<le> ?q" "?q \<le> 1" using fin_val_rnd(2,3) [of F64 0 1 "of_int v / 127"] fv v by simp_all
  then have "fin_val (fmul F64 (fdiv F64 (of_int_fp F64 v) (Fin 127)) (Fin 127)) = Some ?y"
    using fin_val_rnd(1) [of F64 0 127 "?q * 127"] fv q by (simp add: fmul_def Let_def)
  moreover have "trunc_fp ?y = v" using r v(1) by (simp add: floor_eq_iff)
  ultimately show ?thesis using assms by (simp add: midi_velocity_def to_int_def)
qed

lemma midi_velocity_zero: "midi_velocity (Fin 0) = Some 0"
proof -
  have "fin_val (fmul F64 (Fin 0) (Fin 127)) = Some (rnd_val F64 0)" "rnd_val F64 0 = 0"
    using fin_val_rnd [of F64 0 0 0] fin_rep_int [of F64 0] by (simp_all add: F64_def fmt_ok_def fmul_def Let_def)
  then show ?thesis by (simp add: midi_velocity_def to_int_def)
qed

lemma low_nibble_u16: "(ucast ((ucast (x AND 0x0F :: u8) :: u16) AND 0x0F) :: u8) = x AND 0x0F"
proof -
  have m: "(0x0F::u8) = mask 4" "(0x0F::u16) = mask 4" by (simp_all add: mask_eq_exp_minus_1)
  show ?thesis unfolding m by (rule bit_word_eqI) (auto simp: bit_simps)
qed

lemma low_seven_u16: "k < 0x80 \<Longrightarrow> (ucast ((ucast (k :: u8) :: u16) AND 0x7F) :: u8) = k"
proof -
  assume "k < 0x80"
  then have "unat k < 2 ^ 7" by (simp add: word_less_nat_alt)
  then have "unat (take_bit 7 k) = unat k" by (simp add: unsigned_take_bit_eq take_bit_nat_eq_self)
  then have "take_bit 7 k = k" by (simp only: word_unat_eq_iff)
  moreover have m: "(0x7F::u16) = mask 7" by (simp add: mask_eq_exp_minus_1)
  have "(ucast ((ucast k :: u16) AND mask 7) :: u8) = take_bit 7 k" by (rule bit_word_eqI) (auto simp: bit_simps)
  ultimately show ?thesis unfolding m by simp
qed

lemma sint_ucast_u8: "0 \<le> sint (ucast (k :: u8) :: u16)"
proof -
  have "sint (ucast k :: u16) = uint k"
    using uint_lt2p [of k] order.trans [OF _ uint_ge_0 [of k], of "- 32768"]
    by (simp add: signed_ucast_eq signed_take_bit_int_eq_self_iff)
  then show ?thesis by simp
qed

section \<open>Properties\<close>

text \<open>C13: the CLAP output collector keeps its invariant (at most 128 events, every stored event a
  three-byte buffer with a size of one to three) on every event whose velocity converts: a full
  collector refuses and changes nothing, an event that is not translated is accepted and
  dropped, any other is appended as its translation.\<close>

theorem collector_push:
  assumes "collector_invar c" "translate ev = Some t"
  shows "\<exists>c'. try_push c ev = Some (co_count c < max_events, c') \<and> collector_invar c' \<and>
    collected c' = collected c @ (if co_count c < max_events then (case t of None \<Rightarrow> [] | Some e \<Rightarrow> [e]) else [])"
proof -
  have "translate ev \<noteq> None" using assms(2) by simp
  from assms(1) this show ?thesis by (cases rule: try_push_spec) (use assms in auto)
qed

theorem collector_push_witness:
  "\<exists>c'. try_push collector_new (Clap_midi \<lparr>me_live = False, me_time = 3, me_port = 0, me_data = [0xC1, 5, 0]\<rparr>) = Some (True, c') \<and>
    collected c' = [\<lparr>mo_sample_offset = 3, mo_port = 0, mo_size = 2, mo_data = [0xC1, 5, 0]\<rparr>]"
proof -
  let ?e = "Clap_midi \<lparr>me_live = False, me_time = 3, me_port = 0, me_data = [0xC1, 5, 0]\<rparr>"
  let ?t = "Some \<lparr>mo_sample_offset = 3, mo_port = 0, mo_size = 2, mo_data = [0xC1, 5, 0]\<rparr> :: midi_out_event option"
  have t: "translate ?e = Some ?t" by code_simp
  have "co_count collector_new < max_events" by (simp add: collector_new_def max_events_def)
  then show ?thesis using collector_push [OF collector_new_invar(1) t] collector_new_invar(2) by auto
qed

text \<open>C14: flushing packs the collected events, all of them and in order, into blocks of at least one and
  at most seven events, as few blocks as possible; when the queue has room for the blocks, exactly these
  are queued behind the blocks already there.\<close>

theorem flush_delivers:
  assumes "collector_invar c" "q_invar midi_queue_capacity q"
    and "length (q_list midi_queue_capacity q) + (co_count c + 6) div 7 \<le> 511"
  shows "\<exists>bs q'. flush_to c q = (length bs, q') \<and> q_invar midi_queue_capacity q' \<and>
    q_list midi_queue_capacity q' = q_list midi_queue_capacity q @ bs \<and> concat (map block_events bs) = collected c \<and>
    list_all (\<lambda>b. 1 \<le> length (block_events b) \<and> length (block_events b) \<le> 7) bs \<and> length bs = (co_count c + 6) div 7"
proof -
  let ?bs = "flush_blocks (co_events c) (co_count c) 0"
  have bs: "concat (map block_events ?bs) = collected c" "length ?bs = (co_count c + 6) div 7"
    "list_all (\<lambda>b. block_wf b \<and> 0 < mb_count b) ?bs"
    using flush_blocks_spec [of "co_count c" "co_events c" 0] assms(1) by (auto simp: collector_invar_def collected_def)
  have "list_all (\<lambda>b. 1 \<le> length (block_events b) \<and> length (block_events b) \<le> 7) ?bs"
    using bs(3) by (rule list.pred_mono_strong) (simp only: block_events_length)
  moreover from spsc.push_all_spec [OF assms(2), of ?bs] assms(3) bs(2)
  have "q_invar midi_queue_capacity (push_all (q_push midi_queue_capacity) q ?bs)"
    "q_list midi_queue_capacity (push_all (q_push midi_queue_capacity) q ?bs) = q_list midi_queue_capacity q @ ?bs"
    using q_list_length [OF assms(2)] by (simp_all add: midi_queue_capacity_def)
  ultimately show ?thesis using bs(1,2) by (intro exI [of _ ?bs]) (simp add: flush_to_def)
qed

definition eight_notes :: event_collector where
  "eight_notes = \<lparr>co_events = map (\<lambda>i. \<lparr>mo_sample_offset = 0, mo_port = 0, mo_size = 3, mo_data = [0x90, i, 64]\<rparr>) [1, 2, 3, 4, 5, 6, 7, 8] @
     replicate 120 midi_out_new, co_count = 8\<rparr>"

theorem flush_delivers_witness:
  "\<exists>b1 b2 q'. flush_to eight_notes (q_new midi_queue_capacity midi_block_new) = (2, q') \<and>
    q_list midi_queue_capacity q' = [b1, b2] \<and> length (block_events b1) + length (block_events b2) = 8 \<and>
    length (block_events b1) \<le> 7 \<and> length (block_events b2) \<le> 7"
proof -
  have c: "collector_invar eight_notes" "length (collected eight_notes) = 8"
    by (simp_all add: eight_notes_def collector_invar_def collected_def max_events_def midi_wf_def)
  have n: "co_count eight_notes = 8" by (simp add: eight_notes_def)
  have room: "length (q_list midi_queue_capacity (q_new midi_queue_capacity midi_block_new)) + (co_count eight_notes + 6) div 7 \<le> 511"
    by (simp add: q_new_list n)
  from flush_delivers [OF c(1) q_new_invar [OF midi_capacity_ok] room] obtain bs q' where
    "flush_to eight_notes (q_new midi_queue_capacity midi_block_new) = (length bs, q')" "q_list midi_queue_capacity q' = bs"
    "concat (map block_events bs) = collected eight_notes"
    "list_all (\<lambda>b. 1 \<le> length (block_events b) \<and> length (block_events b) \<le> 7) bs" "length bs = 2"
    by (auto simp: q_new_list n)
  moreover from this(5) obtain b1 b2 where "bs = [b1, b2]" by (auto simp: numeral_2_eq_2 length_Suc_conv)
  ultimately show ?thesis using c(2) by (intro exI [of _ b1] exI [of _ b2] exI [of _ q']) (auto simp flip: length_append)
qed

text \<open>C15: a block's input buffer takes from a queue the oldest events, in order, up to its 64 slots;
  the rest stays in the queue.\<close>

theorem drain_takes_oldest:
  assumes "q_invar in_queue_capacity q" "length (ib_events b) = in_max_events" "ib_count b \<le> in_max_events"
  shows "\<exists>b' q'. ib_drain b q = (b', q') \<and>
    take (ib_count b') (ib_events b') =
      take (ib_count b) (ib_events b) @ take (in_max_events - ib_count b) (q_list in_queue_capacity q) \<and>
    q_list in_queue_capacity q' = drop (in_max_events - ib_count b) (q_list in_queue_capacity q) \<and>
    length (ib_events b') = in_max_events \<and> ib_count b' \<le> in_max_events"
proof -
  let ?k = "in_max_events - ib_count b"
  obtain q' where q': "pop_upto (q_pop in_queue_capacity) ?k q = (take ?k (q_list in_queue_capacity q), q')"
    "q_list in_queue_capacity q' = drop ?k (q_list in_queue_capacity q)"
    using spsc.pop_upto_spec [OF assms(1), of ?k] by blast
  then show ?thesis using assms(2,3) take_sv_copy [of "ib_count b" "take ?k (q_list in_queue_capacity q)" "ib_events b"]
    by (simp add: ib_drain_def)
qed

theorem drain_takes_oldest_witness:
  "\<exists>b' q'. ib_drain \<lparr>ib_events = replicate 64 (Clap_other 0), ib_count = 0\<rparr>
      (push_all (q_push in_queue_capacity) (q_new in_queue_capacity (Clap_other 0)) [Clap_other 4, Clap_other 5]) = (b', q') \<and>
    take (ib_count b') (ib_events b') = [Clap_other 4, Clap_other 5]"
proof -
  let ?n = "q_new in_queue_capacity (Clap_other 0)"
  let ?q = "push_all (q_push in_queue_capacity) ?n [Clap_other 4, Clap_other 5]"
  have "q_invar in_queue_capacity ?q" "q_list in_queue_capacity ?q = [Clap_other 4, Clap_other 5]"
    using spsc.push_all_spec [OF q_new_invar [OF queue_capacities_ok(1), of "Clap_other 0"], of "[Clap_other 4, Clap_other 5]"]
    unfolding q_new_list by (simp_all add: in_queue_capacity_def)
  then show ?thesis
    using drain_takes_oldest [of ?q "\<lparr>ib_events = replicate 64 (Clap_other 0), ib_count = 0\<rparr>"] by (simp add: in_max_events_def) blast
qed

text \<open>C16: a note played on the input port goes through the input callback's translation to a CLAP note
  and the collector's translation back: a note-on with velocity 1 to 127 comes out as the same three
  bytes, through the two double-precision conversions; a note-off, and a note-on with velocity 0, which
  means the same, comes out as a note-off of the same channel and key whose velocity is 0.\<close>

theorem midi_note_roundtrip:
  assumes "st AND 0xF0 = 0x90 \<or> st AND 0xF0 = 0x80" "key < 0x80" "vel < 0x80"
  shows "translate (midi_in_event [st, key, vel]) =
    Some (Some \<lparr>mo_sample_offset = 0, mo_port = 0, mo_size = 3,
      mo_data = (if st AND 0xF0 = 0x90 \<and> vel \<noteq> 0 then [st, key, vel] else [0x80 OR (st AND 0x0F), key, 0])\<rparr>)"
proof -
  have ch: "0 \<le> sint (ucast (st AND 0x0F) :: u16)" "0 \<le> sint (ucast key :: u16)" by (rule sint_ucast_u8)+
  show ?thesis
  proof (cases "st AND 0xF0 = 0x90 \<and> vel \<noteq> 0")
    case True
    then have v: "1 \<le> uint vel" "uint vel \<le> 127" using assms(3) by (auto simp: word_less_def word_neq_0_conv int_one_le_iff_zero_less)
    have m: "midi_velocity (fdiv F64 (of_int_fp F64 (uint vel)) (Fin 127)) = Some vel" using velocity_exact [OF v] by simp
    have "0x90 OR (st AND 0x0F) = (st AND 0xF0) OR (st AND 0x0F)" using True by simp
    also have "\<dots> = st AND (0xF0 OR 0x0F)" by (simp only: bit.conj_disj_distrib)
    also have "(0xF0 OR 0x0F :: u8) = mask 8" by (simp add: mask_eq_exp_minus_1)
    also have "st AND mask 8 = st" by (rule bit_word_eqI) (simp add: bit_simps)
    finally have s: "0x90 OR (st AND 0x0F) = st" .
    show ?thesis using ch m s True
      by (simp add: midi_in_event_def translate_def note_bytes_def Let_def low_nibble_u16 low_seven_u16 [OF assms(2)] sample_offset_def)
  next
    case False
    show ?thesis using ch False assms(1) midi_velocity_zero
      by (auto simp: midi_in_event_def translate_def note_bytes_def Let_def low_nibble_u16 low_seven_u16 [OF assms(2)] sample_offset_def)
  qed
qed

theorem midi_note_roundtrip_witness:
  "translate (midi_in_event [0x93, 60, 100]) =
      Some (Some \<lparr>mo_sample_offset = 0, mo_port = 0, mo_size = 3, mo_data = [0x93, 60, 100]\<rparr>) \<and>
   translate (midi_in_event [0x83, 60, 64]) =
      Some (Some \<lparr>mo_sample_offset = 0, mo_port = 0, mo_size = 3, mo_data = [0x83, 60, 0]\<rparr>)"
  using midi_note_roundtrip [of "0x93" 60 100] midi_note_roundtrip [of "0x83" 60 64] by simp

end
