(* ===== verification/Mts.thy ===== *)
theory Mts
  imports Libm
begin

text \<open>
  MIDI Tuning Standard: the bulk dump the control thread assembles for \<open>msg_mts\<close>
  (\<open>rt_control_thread.cpp\<close>, \<open>mts_encode_note\<close> and \<open>mts_bulk_dump\<close>).
\<close>

section \<open>Definitions\<close>

abbreviation dadd :: "fp \<Rightarrow> fp \<Rightarrow> fp" where "dadd \<equiv> fadd F64"
abbreviation dsub :: "fp \<Rightarrow> fp \<Rightarrow> fp" where "dsub \<equiv> fsub F64"
abbreviation dmul :: "fp \<Rightarrow> fp \<Rightarrow> fp" where "dmul \<equiv> fmul F64"
abbreviation ddiv :: "fp \<Rightarrow> fp \<Rightarrow> fp" where "ddiv \<equiv> fdiv F64"

text \<open>\<open>None\<close>: a conversion to \<open>int\<close> is out of range, which is undefined.\<close>

definition mts_encode_note :: "libm \<Rightarrow> int \<Rightarrow> fp \<Rightarrow> u8 list option" where
  "mts_encode_note lm key hz =
     (let tet_hz = dmul (Fin 440) (lm_pow64 lm (Fin 2) (ddiv (of_int_fp F64 (key - 69)) (Fin 12)));
          use_hz = (if flt (Fin 0) hz then hz else tet_hz);
          semitones = dadd (dmul (Fin 12) (lm_log2_64 lm (ddiv use_hz (Fin 440)))) (Fin 69) in
      case to_int32 (f_round semitones) of
        None \<Rightarrow> None
      | Some xx \<Rightarrow>
        let bend_cents = dmul (dsub semitones (of_int_fp F64 xx)) (Fin 100);
            neg = flt bend_cents (Fin 0);
            xx1 = (if neg then max 0 (xx - 1) else xx);
            bend1 = (if neg then dadd bend_cents (Fin 100) else bend_cents);
            xx2 = max 0 (min 127 xx1) in
        if neg \<and> xx = - (2 ^ 31) then None
        else (case to_int32 (f_round (dmul (ddiv bend1 (Fin 100)) (Fin 16384))) of
            None \<Rightarrow> None
          | Some f \<Rightarrow>
            let fine = max 0 (min 16383 f) in
            Some [of_int xx2, of_int ((fine div 128) mod 128), of_int (fine mod 128)]))"

fun mts_notes :: "libm \<Rightarrow> (int \<rightharpoonup> fp) \<Rightarrow> int list \<Rightarrow> u8 list option" where
  "mts_notes lm tuning [] = Some []"
| "mts_notes lm tuning (k # ks) =
     (case mts_encode_note lm k (case tuning k of None \<Rightarrow> Fin 0 | Some hz \<Rightarrow> hz) of
        None \<Rightarrow> None
      | Some bs \<Rightarrow> (case mts_notes lm tuning ks of None \<Rightarrow> None | Some cs \<Rightarrow> Some (bs @ cs)))"

definition xor_all :: "u8 list \<Rightarrow> u8" where
  "xor_all bs = fold (\<lambda>b c. c XOR b) bs 0"

definition mts_bulk_dump :: "libm \<Rightarrow> (int \<rightharpoonup> fp) \<Rightarrow> u8 \<Rightarrow> u8 \<Rightarrow> u8 list option" where
  "mts_bulk_dump lm tuning prog device_id =
     (case mts_notes lm tuning [0..127] of
        None \<Rightarrow> None
      | Some notes \<Rightarrow>
        let out = [0xF0, 0x7E, device_id, 0x08, 0x01, prog] @ replicate 16 0 @ notes;
            csum = xor_all (drop 1 out) in
        Some (out @ [csum AND 0x7F, 0xF7]))"

section \<open>Lemmas\<close>

lemma byte_small: "0 \<le> i \<Longrightarrow> i < 128 \<Longrightarrow> (of_int i :: u8) < 0x80"
proof -
  assume i: "0 \<le> i" "i < 128"
  then have "uint (of_int i :: u8) = i" by (simp add: uint_word_of_int)
  with i(2) show ?thesis by (simp add: word_less_def)
qed

lemma mts_encode_note_bytes:
  "mts_encode_note lm k hz = Some bs \<Longrightarrow> length bs = 3 \<and> list_all (\<lambda>b. b < 0x80) bs"
  using byte_small by (auto simp: mts_encode_note_def Let_def split: option.splits if_splits)

lemma mts_notes_bytes:
  "mts_notes lm tuning ks = Some bs \<Longrightarrow> length bs = 3 * length ks \<and> list_all (\<lambda>b. b < 0x80) bs"
proof (induction ks arbitrary: bs)
  case (Cons k ks)
  then obtain b c where "mts_encode_note lm k (case tuning k of None \<Rightarrow> Fin 0 | Some hz \<Rightarrow> hz) = Some b"
    "mts_notes lm tuning ks = Some c" "bs = b @ c" by (auto split: option.splits)
  with Cons.IH [of c] mts_encode_note_bytes show ?case by auto
qed simp

lemma xor_small: "a < 0x80 \<Longrightarrow> b < 0x80 \<Longrightarrow> (a XOR b :: u8) < 0x80"
proof -
  have small: "x < 0x80 \<longleftrightarrow> take_bit 7 x = x" for x :: u8
  proof -
    have "x < 0x80 \<longleftrightarrow> unat x < 2 ^ 7" by (simp add: word_less_nat_alt)
    also have "\<dots> \<longleftrightarrow> take_bit 7 x = x"
      by (simp add: word_unat_eq_iff unsigned_take_bit_eq take_bit_nat_eq_self_iff)
    finally show ?thesis .
  qed
  show "a < 0x80 \<Longrightarrow> b < 0x80 \<Longrightarrow> a XOR b < 0x80" unfolding small by simp
qed

lemma and_7F: "(c::u8) < 0x80 \<Longrightarrow> c AND 0x7F = c"
proof -
  assume "c < 0x80"
  then have "unat (take_bit 7 c) = unat c" by (simp add: word_less_nat_alt unsigned_take_bit_eq take_bit_nat_eq_self)
  moreover have m: "(0x7F::u8) = mask 7" by (simp add: mask_eq_exp_minus_1)
  ultimately show ?thesis unfolding m by (simp flip: take_bit_eq_mask add: word_unat_eq_iff)
qed

lemma fold_xor_small: "c < 0x80 \<Longrightarrow> list_all (\<lambda>b. b < 0x80) bs \<Longrightarrow> fold (\<lambda>b c. c XOR b) bs c < (0x80::u8)"
  by (induction bs arbitrary: c) (auto intro: xor_small)

text \<open>A key's entry: its frequency is missing, not positive, or between one millihertz and a megahertz.\<close>

definition hz_ok :: "fp \<Rightarrow> bool" where
  "hz_ok hz = (\<not> flt (Fin 0) hz \<or> in_range (1/1024) 1048576 hz)"

lemma F64_bounds [simp]: "fin_rep F64 (1/1024)" "fin_rep F64 (1/1048576)"
proof -
  have "rep F64 (2 powi (- 10))" "rep F64 (2 powi (- 20))" by (rule rep_two_powi; simp add: F64_def fmt_ok_def)+
  then show "fin_rep F64 (1/1024)" "fin_rep F64 (1/1048576)"
    by (simp_all add: fin_rep_def F64_def power_int_minus)
qed

lemma use_hz_range:
  assumes "pow2_ok lm" "hz_ok hz" "0 \<le> k" "k \<le> 127"
  shows "in_range (1/1024) 1048576 (if flt (Fin 0) hz then hz
    else dmul (Fin 440) (lm_pow64 lm (Fin 2) (ddiv (of_int_fp F64 (k - 69)) (Fin 12))))"
proof -
  have "\<bar>k - 69\<bar> < 2 ^ 53" using assms(3,4) by simp
  then have "fin_val (of_int_fp F64 (k - 69)) = Some (of_int (k - 69))" by (intro fin_val_of_int_fp fin_rep_F64_int) simp_all
  then have "in_range (- 69) 58 (of_int_fp F64 (k - 69))" using assms(3,4) by (simp add: in_range_def)
  then have "in_range (- 6) 5 (ddiv (of_int_fp F64 (k - 69)) (Fin 12))"
    by (intro in_range_fdiv [where a = "- 69" and b = 58 and c = 12 and d = 12]) auto
  then have "in_range (1/64) 32 (lm_pow64 lm (Fin 2) (ddiv (of_int_fp F64 (k - 69)) (Fin 12)))"
    using assms(1) by (simp add: pow2_ok_def)
  then have "in_range 6 16384 (dmul (Fin 440) (lm_pow64 lm (Fin 2) (ddiv (of_int_fp F64 (k - 69)) (Fin 12))))"
    by (intro in_range_fmul [where a = 440 and b = 440 and c = "1/64" and d = 32]) auto
  then show ?thesis using assms(2) by (auto simp: hz_ok_def intro: in_range_mono)
qed

lemma semitones_range:
  assumes "log2_ok lm" "in_range (1/1024) 1048576 hz"
  shows "in_range (- 12819) 12357 (dadd (dmul (Fin 12) (lm_log2_64 lm (ddiv hz (Fin 440)))) (Fin 69))"
proof -
  have "in_range (1/1048576) 1048576 (ddiv hz (Fin 440))"
    by (rule in_range_fdiv [OF _ _ _ assms(2), where c = 440 and d = 440]) auto
  then have "in_range (- 1074) 1024 (lm_log2_64 lm (ddiv hz (Fin 440)))" using assms(1) by (auto simp: log2_ok_def)
  then have "in_range (- 12888) 12288 (dmul (Fin 12) (lm_log2_64 lm (ddiv hz (Fin 440))))"
    by (intro in_range_fmul [where a = 12 and b = 12 and c = "- 1074" and d = 1024]) auto
  then show ?thesis by (rule in_range_fadd [where c = 69 and d = 69, rotated 3]) simp_all
qed

lemma bend_range:
  assumes "in_range (- 12819) 12357 s" "- 12819 \<le> xx" "xx \<le> 12357"
  shows "in_range (- 2600000) 2600000 (dmul (dsub s (of_int_fp F64 xx)) (Fin 100))"
proof -
  have "fin_val (of_int_fp F64 xx) = Some (of_int xx)" using assms(2,3) by (intro fin_val_of_int_fp fin_rep_F64_int) simp_all
  then have "in_range (- 12819) 12357 (of_int_fp F64 xx)" using assms(2,3) by (simp add: in_range_def)
  then have "in_range (- 26000) 26000 (dsub s (of_int_fp F64 xx))"
    using assms(1) by (intro in_range_fsub [where a = "- 12819" and b = 12357 and c = "- 12819" and d = 12357]) auto
  then show ?thesis by (intro in_range_fmul [where a = "- 26000" and b = 26000 and c = 100 and d = 100]) auto
qed

lemma mts_encode_note_total:
  assumes "pow2_ok lm" "log2_ok lm" "hz_ok hz" "0 \<le> k" "k \<le> 127"
  shows "\<exists>bs. mts_encode_note lm k hz = Some bs"
proof -
  define s where "s = dadd (dmul (Fin 12) (lm_log2_64 lm (ddiv (if flt (Fin 0) hz then hz
    else dmul (Fin 440) (lm_pow64 lm (Fin 2) (ddiv (of_int_fp F64 (k - 69)) (Fin 12)))) (Fin 440)))) (Fin 69)"
  have s: "in_range (- 12819) 12357 s" unfolding s_def by (intro semitones_range use_hz_range assms)
  then have "in_range (of_int (- 12819)) (of_int 12357) (f_round s)" by (intro in_range_round) simp
  then obtain xx where xx: "to_int32 (f_round s) = Some xx" "- 12819 \<le> xx" "xx \<le> 12357"
    using to_int_range [of "- 12819" 12357 "f_round s" "- (2 ^ 31)" "2 ^ 31 - 1"] by auto
  define b where "b = dmul (dsub s (of_int_fp F64 xx)) (Fin 100)"
  have b: "in_range (- 2600000) 2600000 b" unfolding b_def by (rule bend_range [OF s xx(2,3)])
  then have "in_range (- 2700000) 2700000 (dadd b (Fin 100))"
    by (rule in_range_fadd [where c = 100 and d = 100, rotated 3]) simp_all
  then have "in_range (- 2700000) 2700000 (if flt b (Fin 0) then dadd b (Fin 100) else b)"
    using b by (auto intro: in_range_mono)
  then have "in_range (- 27000) 27000 (ddiv (if flt b (Fin 0) then dadd b (Fin 100) else b) (Fin 100))"
    by (rule in_range_fdiv [where c = 100 and d = 100, rotated 3]) auto
  then have "in_range (- 442368000) 442368000 (dmul (ddiv (if flt b (Fin 0) then dadd b (Fin 100) else b) (Fin 100)) (Fin 16384))"
    by (intro in_range_fmul [where a = "- 27000" and b = 27000 and c = 16384 and d = 16384]) auto
  then have "in_range (of_int (- 442368000)) (of_int 442368000)
      (f_round (dmul (ddiv (if flt b (Fin 0) then dadd b (Fin 100) else b) (Fin 100)) (Fin 16384)))"
    by (intro in_range_round) simp
  from to_int_range [OF this, of "- (2 ^ 31)" "2 ^ 31 - 1"] obtain f where
    "to_int32 (f_round (dmul (ddiv (if flt b (Fin 0) then dadd b (Fin 100) else b) (Fin 100)) (Fin 16384))) = Some f" by auto
  with xx show ?thesis unfolding mts_encode_note_def Let_def s_def [symmetric]
    by (cases "flt b (Fin 0)") (simp_all flip: b_def)
qed

lemma mts_notes_total:
  assumes "pow2_ok lm" "log2_ok lm" "\<And>k. case tuning k of None \<Rightarrow> True | Some hz \<Rightarrow> hz_ok hz"
  shows "set ks \<subseteq> {0..127} \<Longrightarrow> \<exists>bs. mts_notes lm tuning ks = Some bs"
proof (induction ks)
  case (Cons k ks)
  have "hz_ok (case tuning k of None \<Rightarrow> Fin 0 | Some hz \<Rightarrow> hz)"
    using assms(3) [of k] by (auto simp: hz_ok_def flt_fin split: option.splits)
  then obtain b where "mts_encode_note lm k (case tuning k of None \<Rightarrow> Fin 0 | Some hz \<Rightarrow> hz) = Some b"
    using mts_encode_note_total [OF assms(1,2)] Cons.prems by fastforce
  with Cons show ?case by auto
qed simp

section \<open>Properties\<close>

text \<open>C17: for any tuning with sane frequencies and 7-bit programme and device numbers, the bulk dump is
  built (no conversion is undefined), is exactly 408 bytes, starts with \<open>F0\<close> and ends with \<open>F7\<close>,
  carries only 7-bit data in between, and its checksum makes the exclusive or of the data zero.\<close>

theorem mts_dump_wellformed:
  assumes "pow2_ok lm" "log2_ok lm" "\<And>k. case tuning k of None \<Rightarrow> True | Some hz \<Rightarrow> hz_ok hz"
    and "prog < 0x80" "device_id < 0x80"
  shows "\<exists>body. mts_bulk_dump lm tuning prog device_id = Some (0xF0 # body @ [0xF7]) \<and> length body = 406 \<and>
    list_all (\<lambda>b. b < 0x80) body \<and> xor_all body = 0"
proof -
  obtain ns where n: "mts_notes lm tuning [0..127] = Some ns" using mts_notes_total [of lm tuning "[0..127]"] assms(1-3) by auto
  have nb: "length ns = 384" "list_all (\<lambda>b. b < 0x80) ns" using mts_notes_bytes [OF n] by simp_all
  define d where "d = [0x7E, device_id, 0x08, 0x01, prog] @ replicate 16 0 @ ns"
  have small: "list_all (\<lambda>b. b < 0x80) d" using nb(2) assms(4,5) by (simp add: d_def list_all_iff)
  define c where "c = xor_all d"
  have "c < 0x80" unfolding c_def xor_all_def by (rule fold_xor_small [OF _ small]) simp
  then have c: "c AND 0x7F = c" "c < 0x80" using and_7F by simp_all
  have "mts_bulk_dump lm tuning prog device_id = Some (0xF0 # (d @ [c]) @ [0xF7])"
    unfolding mts_bulk_dump_def n using c(1) by (simp add: Let_def c_def d_def)
  moreover have "xor_all (d @ [c]) = 0" by (simp add: xor_all_def c_def)
  moreover have "length (d @ [c]) = 406" using nb(1) by (simp add: d_def)
  ultimately show ?thesis using small c(2) by (intro exI [of _ "d @ [c]"]) simp
qed

theorem mts_dump_wellformed_witness:
  "\<exists>body. mts_bulk_dump libm_const (\<lambda>k. if k = 69 then Some (Fin 432) else None) 3 0x7F = Some (0xF0 # body @ [0xF7]) \<and>
    length body = 406 \<and> list_all (\<lambda>b. b < 0x80) body \<and> xor_all body = 0"
  by (rule mts_dump_wellformed) (simp_all add: libm_const_ok hz_ok_def)

end
