(* ===== verification/Ipc.thy ===== *)
theory Ipc
  imports Events
begin

text \<open>
  IPC framing (\<open>ipc.hpp\<close>, \<open>ipc_channel.cpp\<close>): an eight-byte header with a big-endian payload
  length, then the payload, over a stream descriptor that may deliver or accept any part of a
  request, be interrupted, or fail.
\<close>

section \<open>Message types\<close>

definition msg_tx_log :: u8 where "msg_tx_log = 0x30"
definition msg_register_source :: u8 where "msg_register_source = 0x33"
definition msg_graph_load :: u8 where "msg_graph_load = 0x34"
definition msg_graph_reset :: u8 where "msg_graph_reset = 0x35"
definition msg_plugin_list_req :: u8 where "msg_plugin_list_req = 0x36"
definition msg_plugin_list_resp :: u8 where "msg_plugin_list_resp = 0x37"
definition msg_tick :: u8 where "msg_tick = 0x50"
definition msg_midi_event :: u8 where "msg_midi_event = 0x51"
definition msg_route_set :: u8 where "msg_route_set = 0x52"
definition msg_graph_load_ack :: u8 where "msg_graph_load_ack = 0x53"
definition msg_midi_diag :: u8 where "msg_midi_diag = 0x54"
definition msg_repl_eval_response :: u8 where "msg_repl_eval_response = 0x56"
definition msg_tap :: u8 where "msg_tap = 0x58"
definition msg_session_open :: u8 where "msg_session_open = 0x31"
definition msg_session_close :: u8 where "msg_session_close = 0x32"
definition msg_link_set_tempo :: u8 where "msg_link_set_tempo = 0x38"
definition msg_link_start_transport :: u8 where "msg_link_start_transport = 0x39"
definition msg_link_stop_transport :: u8 where "msg_link_stop_transport = 0x3A"
definition msg_param_set :: u8 where "msg_param_set = 0x40"
definition msg_note_on :: u8 where "msg_note_on = 0x41"
definition msg_note_off :: u8 where "msg_note_off = 0x42"
definition msg_midi_in :: u8 where "msg_midi_in = 0x43"
definition msg_wasm_hot_swap :: u8 where "msg_wasm_hot_swap = 0x44"
definition msg_schedule_bundle :: u8 where "msg_schedule_bundle = 0x45"
definition msg_modulator_start :: u8 where "msg_modulator_start = 0x46"
definition msg_modulator_stop :: u8 where "msg_modulator_stop = 0x47"
definition msg_modulator_update :: u8 where "msg_modulator_update = 0x48"
definition msg_cc :: u8 where "msg_cc = 0x49"
definition msg_pitch_bend :: u8 where "msg_pitch_bend = 0x4A"
definition msg_chan_pressure :: u8 where "msg_chan_pressure = 0x4B"
definition msg_sysex :: u8 where "msg_sysex = 0x4C"
definition msg_mts :: u8 where "msg_mts = 0x4D"
definition msg_repl_eval :: u8 where "msg_repl_eval = 0x55"
definition msg_osc :: u8 where "msg_osc = 0x57"

section \<open>Descriptors\<close>

text \<open>
  A descriptor that is read holds the bytes still to come (end of file after them) and what the
  coming \<open>read\<close> calls do: deliver at most so many bytes (one more than the number given, never
  more than asked) or fail with an \<open>errno\<close>. With no plan left a call delivers all it can.
\<close>

datatype rd = Rd_chunk nat | Rd_err nat

record rfd =
  rf_bytes :: "u8 list"
  rf_plan :: "rd list"

definition EINTR :: nat where "EINTR = 4"
definition ECONNRESET :: nat where "ECONNRESET = 104"

definition sys_read :: "nat \<Rightarrow> rfd \<Rightarrow> (nat + u8 list) \<times> rfd" where
  "sys_read n fd = (case rf_plan fd of
     [] \<Rightarrow> (Inr (take n (rf_bytes fd)), fd\<lparr>rf_bytes := drop n (rf_bytes fd)\<rparr>)
   | Rd_chunk k # ps \<Rightarrow> (Inr (take (min n (Suc k)) (rf_bytes fd)),
        fd\<lparr>rf_bytes := drop (min n (Suc k)) (rf_bytes fd), rf_plan := ps\<rparr>)
   | Rd_err e # ps \<Rightarrow> (Inl e, fd\<lparr>rf_plan := ps\<rparr>))"

text \<open>Writing: what the coming \<open>write\<close> calls do; the bytes accepted so far.\<close>

datatype wr = Wr_chunk nat | Wr_zero | Wr_err nat

record wfd =
  wf_out :: "u8 list"
  wf_plan :: "wr list"

definition sys_write :: "u8 list \<Rightarrow> wfd \<Rightarrow> (nat + nat) \<times> wfd" where
  "sys_write bs fd = (case wf_plan fd of
     [] \<Rightarrow> (Inr (length bs), fd\<lparr>wf_out := wf_out fd @ bs\<rparr>)
   | Wr_chunk k # ps \<Rightarrow> (Inr (min (length bs) (Suc k)),
        fd\<lparr>wf_out := wf_out fd @ take (Suc k) bs, wf_plan := ps\<rparr>)
   | Wr_zero # ps \<Rightarrow> (Inr 0, fd\<lparr>wf_plan := ps\<rparr>)
   | Wr_err e # ps \<Rightarrow> (Inl e, fd\<lparr>wf_plan := ps\<rparr>))"

section \<open>Exact transfers\<close>

text \<open>A failure carries the \<open>errno\<close> it leaves: 0 after a clean end of file.\<close>

lemma sys_read_progress:
  "(Inr bs, fd') = sys_read n fd \<Longrightarrow> bs \<noteq> [] \<Longrightarrow>
     n - length bs + length (rf_plan fd') < n + length (rf_plan fd)"
  "(Inl e, fd') = sys_read n fd \<Longrightarrow> length (rf_plan fd') < length (rf_plan fd)"
  by (auto simp: sys_read_def min_def split: list.splits rd.splits)

function read_exact :: "nat \<Rightarrow> rfd \<Rightarrow> (nat + u8 list) \<times> rfd" where
  "read_exact rem fd =
     (if rem = 0 then (Inr [], fd)
      else case sys_read rem fd of
        (Inr bs, fd') \<Rightarrow>
          if bs = [] then (Inl 0, fd')
          else (case read_exact (rem - length bs) fd' of
            (Inr cs, fd'') \<Rightarrow> (Inr (bs @ cs), fd'')
          | (Inl e, fd'') \<Rightarrow> (Inl e, fd''))
      | (Inl e, fd') \<Rightarrow> if e = EINTR then read_exact rem fd' else (Inl e, fd'))"
  by pat_completeness auto
termination
  by (relation "measure (\<lambda>(n, fd). n + length (rf_plan fd))") (auto dest: sys_read_progress)

declare read_exact.simps [simp del]

lemma sys_write_progress:
  "(Inr w, fd') = sys_write bs fd \<Longrightarrow> 0 < w \<Longrightarrow>
     length bs - w + length (wf_plan fd') < length bs + length (wf_plan fd)"
  "(Inl e, fd') = sys_write bs fd \<Longrightarrow> length (wf_plan fd') < length (wf_plan fd)"
  by (auto simp: sys_write_def min_def split: list.splits wr.splits)

function write_exact :: "u8 list \<Rightarrow> wfd \<Rightarrow> bool \<times> wfd" where
  "write_exact bs fd =
     (if bs = [] then (True, fd)
      else case sys_write bs fd of
        (Inl e, fd') \<Rightarrow> if e = EINTR then write_exact bs fd' else (False, fd')
      | (Inr w, fd') \<Rightarrow> if w = 0 then (False, fd') else write_exact (drop w bs) fd')"
  by pat_completeness auto
termination
  by (relation "measure (\<lambda>(bs, fd). length bs + length (wf_plan fd))") (auto dest: sys_write_progress)

declare write_exact.simps [simp del]

section \<open>Frames\<close>

datatype channel_error = Ce_eof | Ce_io_error | Ce_frame_too_large

definition max_payload_bytes :: u32 where
  "max_payload_bytes = push_bit 20 1"

definition header_size :: nat where
  "header_size = 8"

record header =
  h_payload_len :: u32
  h_type :: u8
  h_reserved :: "u8 list"

record message =
  m_hdr :: header
  m_payload :: "u8 list"

text \<open>The header as it lies in memory on a little-endian host.\<close>

definition le32 :: "u8 list \<Rightarrow> u32" where
  "le32 bs = be32 (rev (take 4 bs))"

definition u32_le :: "u32 \<Rightarrow> u8 list" where
  "u32_le v = rev (u32_be v)"

definition bswap32 :: "u32 \<Rightarrow> u32" where
  "bswap32 v = be32 (rev (u32_be v))"

definition header_of_bytes :: "u8 list \<Rightarrow> header" where
  "header_of_bytes bs = \<lparr>h_payload_len = le32 bs, h_type = bs ! 4, h_reserved = drop 5 bs\<rparr>"

definition header_bytes :: "header \<Rightarrow> u8 list" where
  "header_bytes h = u32_le (h_payload_len h) @ [h_type h] @ h_reserved h"

definition read_error :: "nat \<Rightarrow> channel_error" where
  "read_error e = (if e = 0 \<or> e = ECONNRESET then Ce_eof else Ce_io_error)"

definition read_message :: "rfd \<Rightarrow> (channel_error + message) \<times> rfd" where
  "read_message fd =
     (case read_exact header_size fd of
        (Inl e, fd') \<Rightarrow> (Inl (read_error e), fd')
      | (Inr bs, fd') \<Rightarrow>
          let hdr = header_of_bytes bs; len = bswap32 (h_payload_len hdr) in
          if max_payload_bytes < len then (Inl Ce_frame_too_large, fd')
          else let hdr' = hdr\<lparr>h_payload_len := len\<rparr> in
            if 0 < len then
              (case read_exact (unat len) fd' of
                 (Inl e, fd'') \<Rightarrow> (Inl (read_error e), fd'')
               | (Inr payload, fd'') \<Rightarrow> (Inr \<lparr>m_hdr = hdr', m_payload = payload\<rparr>, fd''))
            else (Inr \<lparr>m_hdr = hdr', m_payload = []\<rparr>, fd'))"

definition write_message :: "u8 \<Rightarrow> u8 list \<Rightarrow> wfd \<Rightarrow> (channel_error + unit) \<times> wfd" where
  "write_message type payload fd =
     (let len = of_nat (length payload) :: u32;
          hdr = \<lparr>h_payload_len = bswap32 len, h_type = type, h_reserved = [0, 0, 0]\<rparr> in
      case write_exact (header_bytes hdr) fd of
        (False, fd') \<Rightarrow> (Inl Ce_io_error, fd')
      | (True, fd') \<Rightarrow>
          if 0 < len then
            (case write_exact (take (unat len) payload) fd' of
               (False, fd'') \<Rightarrow> (Inl Ce_io_error, fd'')
             | (True, fd'') \<Rightarrow> (Inr (), fd''))
          else (Inr (), fd'))"

text \<open>A connection: frames sent one after the other, and the reader's loop until an error.\<close>

fun write_messages :: "(u8 \<times> u8 list) list \<Rightarrow> wfd \<Rightarrow> (channel_error + unit) \<times> wfd" where
  "write_messages [] fd = (Inr (), fd)"
| "write_messages ((t, p) # ms) fd = (case write_message t p fd of
     (Inl e, fd') \<Rightarrow> (Inl e, fd')
   | (Inr _, fd') \<Rightarrow> write_messages ms fd')"

fun read_messages :: "nat \<Rightarrow> rfd \<Rightarrow> message list \<times> channel_error option \<times> rfd" where
  "read_messages 0 fd = ([], None, fd)"
| "read_messages (Suc n) fd = (case read_message fd of
     (Inl e, fd') \<Rightarrow> ([], Some e, fd')
   | (Inr m, fd') \<Rightarrow> (case read_messages n fd' of (ms, e, fd'') \<Rightarrow> (m # ms, e, fd'')))"

section \<open>Transfers over a descriptor that does not fail\<close>

definition rd_benign :: "rfd \<Rightarrow> bool" where
  "rd_benign fd = (\<forall>e. Rd_err e \<in> set (rf_plan fd) \<longrightarrow> e = EINTR)"

definition wr_benign :: "wfd \<Rightarrow> bool" where
  "wr_benign fd = (Wr_zero \<notin> set (wf_plan fd) \<and> (\<forall>e. Wr_err e \<in> set (wf_plan fd) \<longrightarrow> e = EINTR))"

lemma sys_read_benign:
  assumes "rd_benign fd"
  obtains (chunk) k fd' where "sys_read n fd = (Inr (take (min n (Suc k)) (rf_bytes fd)), fd')"
      "rf_bytes fd' = drop (min n (Suc k)) (rf_bytes fd)" "rd_benign fd'"
    | (intr) fd' where "sys_read n fd = (Inl EINTR, fd')" "rf_bytes fd' = rf_bytes fd" "rd_benign fd'"
proof (cases "rf_plan fd")
  case Nil
  then show ?thesis using assms by (intro chunk [of n]) (auto simp: sys_read_def rd_benign_def min_def)
next
  case (Cons p ps)
  show ?thesis
  proof (cases p)
    case (Rd_chunk k)
    with Cons assms show ?thesis by (intro chunk [of k]) (auto simp: sys_read_def rd_benign_def)
  next
    case (Rd_err e)
    with Cons assms have "e = EINTR" by (auto simp: rd_benign_def)
    with Cons Rd_err assms show ?thesis
      by (intro intr [of "fd\<lparr>rf_plan := ps\<rparr>"]) (auto simp: sys_read_def rd_benign_def)
  qed
qed

lemma read_exact_more:
  "sys_read rem fd = (Inr bs, fd') \<Longrightarrow> rem \<noteq> 0 \<Longrightarrow> bs \<noteq> [] \<Longrightarrow>
   read_exact rem fd = (case read_exact (rem - length bs) fd' of
     (Inr cs, fd'') \<Rightarrow> (Inr (bs @ cs), fd'') | (Inl e, fd'') \<Rightarrow> (Inl e, fd''))"
  by (subst read_exact.simps) simp

lemma read_exact_stop:
  "read_exact 0 fd = (Inr [], fd)"
  "sys_read rem fd = (Inr [], fd') \<Longrightarrow> rem \<noteq> 0 \<Longrightarrow> read_exact rem fd = (Inl 0, fd')"
  by (subst read_exact.simps; simp)+

lemma read_exact_intr:
  "sys_read rem fd = (Inl EINTR, fd') \<Longrightarrow> rem \<noteq> 0 \<Longrightarrow> read_exact rem fd = read_exact rem fd'"
  by (subst read_exact.simps) simp

lemma read_exact_benign:
  "rd_benign fd \<Longrightarrow> \<exists>fd'. rd_benign fd' \<and> rf_bytes fd' = drop rem (rf_bytes fd) \<and>
     read_exact rem fd = (if rem \<le> length (rf_bytes fd) then Inr (take rem (rf_bytes fd)) else Inl 0, fd')"
proof (induction rem fd rule: read_exact.induct)
  case (1 rem fd)
  show ?case
  proof (cases "rem = 0")
    case True
    with 1 show ?thesis by (auto simp: read_exact_stop)
  next
    case rem: False
    from \<open>rd_benign fd\<close> show ?thesis
    proof (cases rule: sys_read_benign [where n = rem])
      case (chunk k fd')
      let ?m = "min rem (Suc k)" let ?bs = "take ?m (rf_bytes fd)"
      show ?thesis
      proof (cases "?bs = []")
        case True
        then have "rf_bytes fd = []" using rem by auto
        with True rem chunk show ?thesis using read_exact_stop(2) [of rem fd fd'] by auto
      next
        case False
        then obtain fd2 where fd2: "rd_benign fd2" "rf_bytes fd2 = drop (rem - length ?bs) (rf_bytes fd')"
          "read_exact (rem - length ?bs) fd' =
            (if rem - length ?bs \<le> length (rf_bytes fd') then Inr (take (rem - length ?bs) (rf_bytes fd')) else Inl 0, fd2)"
          using 1(2) [OF rem chunk(1) [symmetric] refl False chunk(3)] by blast
        have split: "take ?m bs @ take (rem - ?m) (drop ?m bs) = take rem bs" for bs :: "u8 list"
          by (metis le_add_diff_inverse min.cobounded1 take_add)
        have "rf_bytes fd2 = drop rem (rf_bytes fd)" "rem - length ?bs \<le> length (rf_bytes fd') \<longleftrightarrow> rem \<le> length (rf_bytes fd)"
          using fd2(2) chunk(2) by (auto simp: min_def)
        moreover have "rem \<le> length (rf_bytes fd) \<Longrightarrow> ?bs @ take (rem - length ?bs) (rf_bytes fd') = take rem (rf_bytes fd)"
          using split [of "rf_bytes fd"] chunk(2) by (simp add: min_def split: if_splits)
        ultimately show ?thesis using read_exact_more [OF chunk(1) rem False] fd2(1,3) by (intro exI [of _ fd2]) auto
      qed
    next
      case (intr fd')
      show ?thesis using 1(1) [OF rem intr(1) [symmetric] refl refl intr(3)]
        unfolding read_exact_intr [OF intr(1) rem] intr(2) .
    qed
  qed
qed

lemma write_exact_benign:
  "wr_benign fd \<Longrightarrow> \<exists>fd'. write_exact bs fd = (True, fd') \<and> wf_out fd' = wf_out fd @ bs \<and> wr_benign fd'"
proof (induction bs fd rule: write_exact.induct)
  case (1 bs fd)
  show ?case
  proof (cases "bs = []")
    case True
    with 1 show ?thesis by (subst write_exact.simps) auto
  next
    case bs: False
    show ?thesis
    proof (cases "wf_plan fd")
      case Nil
      with bs 1(3) show ?thesis by (simp add: write_exact.simps sys_write_def wr_benign_def)
    next
      case (Cons p ps)
      then show ?thesis
      proof (cases p)
        case (Wr_chunk k)
        let ?fd = "fd\<lparr>wf_out := wf_out fd @ take (Suc k) bs, wf_plan := ps\<rparr>"
        have w: "sys_write bs fd = (Inr (min (length bs) (Suc k)), ?fd)" using Cons Wr_chunk by (simp add: sys_write_def)
        have "wr_benign ?fd" using 1(3) Cons by (auto simp: wr_benign_def)
        then obtain fd' where "write_exact (drop (min (length bs) (Suc k)) bs) ?fd = (True, fd')"
          "wf_out fd' = (wf_out fd @ take (Suc k) bs) @ drop (min (length bs) (Suc k)) bs" "wr_benign fd'"
          using 1(2) [OF bs w [symmetric] refl] bs by auto
        moreover have "take (Suc k) bs @ drop (min (length bs) (Suc k)) bs = bs"
          by (cases "length bs \<le> Suc k") (auto simp: min_def)
        ultimately show ?thesis using w bs by (subst write_exact.simps) simp
      next
        case (Wr_err e)
        then have e: "e = EINTR" using 1(3) Cons by (auto simp: wr_benign_def)
        let ?fd = "fd\<lparr>wf_plan := ps\<rparr>"
        have w: "sys_write bs fd = (Inl EINTR, ?fd)" using Cons Wr_err e by (simp add: sys_write_def)
        have "wr_benign ?fd" using 1(3) Cons by (auto simp: wr_benign_def)
        then show ?thesis using 1(1) [OF bs w [symmetric] refl refl] w bs by (subst write_exact.simps) simp
      qed (use 1(3) Cons in \<open>simp add: wr_benign_def\<close>)
    qed
  qed
qed

section \<open>Frames on the wire\<close>

definition frame :: "u8 \<Rightarrow> u8 list \<Rightarrow> u8 list" where
  "frame type payload = u32_be (of_nat (length payload)) @ [type, 0, 0, 0] @ payload"

definition fits :: "u8 list \<Rightarrow> bool" where
  "fits payload = (length payload \<le> 2 ^ 20)"

lemma max_payload_bytes_eq: "max_payload_bytes = 2 ^ 20"
  by (simp add: max_payload_bytes_def push_bit_eq_mult)

lemma length_4_cases: "length bs = 4 \<Longrightarrow> \<exists>a b c d. bs = [a, b, c, d]"
  by (auto simp: length_Suc_conv numeral_eq_Suc)

lemma u32_be_be32: "length bs = 4 \<Longrightarrow> u32_be (be32 bs) = bs"
  using length_4_cases [of bs] low_byte_be32 by auto

lemma bswap_le32: "4 \<le> length bs \<Longrightarrow> bswap32 (le32 bs) = be32 (take 4 bs)"
  by (simp add: bswap32_def le32_def u32_be_be32)

lemma u32_le_bswap: "u32_le (bswap32 v) = u32_be v"
  by (simp add: u32_le_def bswap32_def u32_be_be32)

lemma header_bytes_new:
  "header_bytes \<lparr>h_payload_len = bswap32 v, h_type = t, h_reserved = [0, 0, 0]\<rparr> = u32_be v @ [t, 0, 0, 0]"
  by (simp add: header_bytes_def u32_le_bswap)

lemma unat_payload_len: "fits payload \<Longrightarrow> unat (of_nat (length payload) :: u32) = length payload"
  by (simp add: fits_def unat_of_nat)

lemma payload_len_ok: "fits payload \<Longrightarrow> \<not> max_payload_bytes < of_nat (length payload)"
  using unat_payload_len [of payload] by (simp add: max_payload_bytes_eq fits_def word_less_nat_alt)

lemma payload_len_pos: "fits payload \<Longrightarrow> 0 < (of_nat (length payload) :: u32) \<longleftrightarrow> payload \<noteq> []"
  using unat_payload_len [of payload] by (auto simp: word_less_nat_alt)

lemma write_message_benign:
  assumes "wr_benign fd" "length payload < 2 ^ 32"
  shows "\<exists>fd'. write_message type payload fd = (Inr (), fd') \<and> wf_out fd' = wf_out fd @ frame type payload \<and> wr_benign fd'"
proof -
  have u: "unat (of_nat (length payload) :: u32) = length payload" using assms(2) by (simp add: unat_of_nat)
  then have p: "0 < (of_nat (length payload) :: u32) \<longleftrightarrow> payload \<noteq> []" by (auto simp: word_less_nat_alt)
  let ?h = "u32_be (of_nat (length payload)) @ [type, 0, 0, 0]"
  obtain fd1 where fd1: "write_exact ?h fd = (True, fd1)" "wf_out fd1 = wf_out fd @ ?h" "wr_benign fd1"
    using write_exact_benign [OF assms(1)] by blast
  obtain fd2 where fd2: "write_exact payload fd1 = (True, fd2)" "wf_out fd2 = wf_out fd1 @ payload" "wr_benign fd2"
    using write_exact_benign [OF fd1(3)] by blast
  show ?thesis
  proof (cases "payload = []")
    case True
    then show ?thesis using fd1 p by (simp add: write_message_def Let_def header_bytes_new frame_def)
  next
    case False
    then show ?thesis using fd1 fd2 p u by (simp add: write_message_def Let_def header_bytes_new frame_def)
  qed
qed

lemma header_of_frame:
  "length hs = 8 \<Longrightarrow> bswap32 (h_payload_len (header_of_bytes hs)) = be32 (take 4 hs)"
  by (simp add: header_of_bytes_def bswap_le32)

definition frame_header :: "u8 \<Rightarrow> u8 list \<Rightarrow> header" where
  "frame_header type payload = \<lparr>h_payload_len = of_nat (length payload), h_type = type, h_reserved = [0, 0, 0]\<rparr>"

lemma header_of_frame_bytes:
  "(header_of_bytes (u32_be v @ [t, 0, 0, 0]))\<lparr>h_payload_len := v\<rparr> = \<lparr>h_payload_len = v, h_type = t, h_reserved = [0, 0, 0]\<rparr>"
  by (simp add: header_of_bytes_def nth_append)

lemma bswap_frame_header: "bswap32 (h_payload_len (header_of_bytes (u32_be v @ [t, 0, 0, 0]))) = v"
  using be32_u32_be [of v "[]"] by (subst header_of_frame) simp_all

lemma read_message_benign:
  assumes "rd_benign fd" "rf_bytes fd = frame type payload @ rest" "fits payload"
  shows "\<exists>fd'. read_message fd = (Inr \<lparr>m_hdr = frame_header type payload, m_payload = payload\<rparr>, fd') \<and>
    rf_bytes fd' = rest \<and> rd_benign fd'"
proof -
  let ?len = "of_nat (length payload) :: u32" let ?h = "u32_be ?len @ [type, 0, 0, 0]"
  have bytes: "rf_bytes fd = ?h @ payload @ rest" using assms(2) by (simp add: frame_def)
  obtain fd1 where fd1: "read_exact 8 fd = (Inr ?h, fd1)" "rf_bytes fd1 = payload @ rest" "rd_benign fd1"
    using read_exact_benign [OF assms(1), of 8] unfolding bytes by auto
  obtain fd2 where fd2: "read_exact (length payload) fd1 = (Inr payload, fd2)" "rf_bytes fd2 = rest" "rd_benign fd2"
    using read_exact_benign [OF fd1(3), of "length payload"] unfolding fd1(2) by auto
  show ?thesis
  proof (cases "payload = []")
    case True
    then show ?thesis using fd1 fd2 payload_len_ok [OF assms(3)] payload_len_pos [OF assms(3)]
      by (simp add: read_message_def header_size_def bswap_frame_header Let_def header_of_frame_bytes frame_header_def)
  next
    case False
    then show ?thesis using fd1 fd2 payload_len_ok [OF assms(3)] payload_len_pos [OF assms(3)] unat_payload_len [OF assms(3)]
      by (simp add: read_message_def header_size_def bswap_frame_header Let_def header_of_frame_bytes frame_header_def)
  qed
qed

lemma write_messages_benign:
  "wr_benign fd \<Longrightarrow> list_all (\<lambda>(t, p). fits p) ms \<Longrightarrow>
   \<exists>fd'. write_messages ms fd = (Inr (), fd') \<and> wf_out fd' = wf_out fd @ concat (map (\<lambda>(t, p). frame t p) ms) \<and> wr_benign fd'"
proof (induction ms arbitrary: fd)
  case (Cons m ms)
  obtain t p where m: "m = (t, p)" by fastforce
  have "length p < 2 ^ 32" using Cons.prems m by (simp add: fits_def)
  then obtain fd1 where fd1: "write_message t p fd = (Inr (), fd1)" "wf_out fd1 = wf_out fd @ frame t p" "wr_benign fd1"
    using write_message_benign [OF Cons.prems(1)] by blast
  with Cons.IH [OF fd1(3)] Cons.prems(2) m show ?case by auto
qed simp

lemma read_messages_benign:
  "rd_benign fd \<Longrightarrow> rf_bytes fd = concat (map (\<lambda>(t, p). frame t p) ms) \<Longrightarrow> list_all (\<lambda>(t, p). fits p) ms \<Longrightarrow>
   \<exists>fd'. read_messages (Suc (length ms)) fd =
     (map (\<lambda>(t, p). \<lparr>m_hdr = frame_header t p, m_payload = p\<rparr>) ms, Some Ce_eof, fd')"
proof (induction ms arbitrary: fd)
  case Nil
  then obtain fd' where "read_exact 8 fd = (Inl 0, fd')" using read_exact_benign [OF Nil(1), of 8] by auto
  then show ?case by (simp add: read_message_def header_size_def read_error_def)
next
  case (Cons m ms)
  obtain t p where m: "m = (t, p)" by fastforce
  obtain fd1 where "read_message fd = (Inr \<lparr>m_hdr = frame_header t p, m_payload = p\<rparr>, fd1)"
    "rf_bytes fd1 = concat (map (\<lambda>(t, p). frame t p) ms)" "rd_benign fd1"
    using read_message_benign [OF Cons.prems(1), of t p] Cons.prems(2,3) m by auto
  with Cons.IH [of fd1] Cons.prems(3) m show ?case by auto
qed

lemma sys_read_sound: "sys_read n fd = (Inr bs, fd') \<Longrightarrow> rf_bytes fd = bs @ rf_bytes fd' \<and> length bs \<le> n"
  "sys_read n fd = (Inl e, fd') \<Longrightarrow> rf_bytes fd' = rf_bytes fd"
  by (auto simp: sys_read_def split: list.splits rd.splits)

text \<open>Whatever the descriptor does, what is read is what came, and all that was asked.\<close>

lemma read_exact_sound:
  "read_exact rem fd = (Inr bs, fd') \<Longrightarrow> rf_bytes fd = bs @ rf_bytes fd' \<and> length bs = rem"
proof (induction rem fd arbitrary: bs rule: read_exact.induct)
  case (1 rem fd)
  show ?case
  proof (cases "rem = 0")
    case True
    with 1(3) show ?thesis by (simp add: read_exact_stop)
  next
    case rem: False
    obtain r fd1 where r: "sys_read rem fd = (r, fd1)" by fastforce
    show ?thesis
    proof (cases r)
      case (Inr cs)
      with r have c: "rf_bytes fd = cs @ rf_bytes fd1" "length cs \<le> rem" using sys_read_sound(1) by auto
      show ?thesis
      proof (cases "cs = []")
        case True
        with 1(3) r Inr rem show ?thesis by (simp add: read_exact_stop)
      next
        case False
        then obtain ds where "read_exact (rem - length cs) fd1 = (Inr ds, fd')" "bs = cs @ ds"
          using 1(3) read_exact_more [of rem fd cs fd1] r Inr rem by (auto split: prod.splits sum.splits)
        with 1(2) [OF rem _ _ False] r Inr c show ?thesis by auto
      qed
    next
      case (Inl e)
      then have "e = EINTR" using 1(3) r rem by (subst (asm) read_exact.simps) (auto split: if_splits)
      with 1(1) [OF rem] 1(3) r Inl rem sys_read_sound(2) [of rem fd e fd1] show ?thesis by (auto simp: read_exact_intr)
    qed
  qed
qed

text \<open>A message takes at least its header from the stream.\<close>

lemma read_message_shrinks:
  assumes "read_message fd = (Inr m, fd')"
  shows "length (rf_bytes fd') < length (rf_bytes fd)"
proof -
  obtain hs fd1 where h: "read_exact header_size fd = (Inr hs, fd1)"
    using assms by (auto simp: read_message_def split: sum.splits prod.splits)
  have "length (rf_bytes fd1) < length (rf_bytes fd)" using read_exact_sound [OF h] by (auto simp: header_size_def)
  moreover have "length (rf_bytes fd') \<le> length (rf_bytes fd1)" using assms h
    by (auto simp: read_message_def Let_def split: sum.splits prod.splits if_splits dest: read_exact_sound)
  ultimately show ?thesis by simp
qed

section \<open>Properties\<close>

text \<open>C9: frames written one after the other over a descriptor that splits and interrupts writes in
  any way are read back as exactly the same messages, in order, over a descriptor that splits and
  interrupts reads in any other way, followed by a clean end of file.\<close>

theorem ipc_roundtrip:
  assumes "list_all (\<lambda>(t, p). fits p) ms" "wr_benign w" "wf_out w = []" "rd_benign r"
    and "rf_bytes r = wf_out (snd (write_messages ms w))"
  shows "fst (write_messages ms w) = Inr () \<and>
    (\<exists>r'. read_messages (Suc (length ms)) r =
      (map (\<lambda>(t, p). \<lparr>m_hdr = frame_header t p, m_payload = p\<rparr>) ms, Some Ce_eof, r'))"
proof -
  obtain w' where "write_messages ms w = (Inr (), w')" "wf_out w' = concat (map (\<lambda>(t, p). frame t p) ms)"
    using write_messages_benign [OF assms(2,1)] assms(3) by auto
  then show ?thesis using read_messages_benign [OF assms(4) _ assms(1)] assms(5) by simp
qed

theorem ipc_roundtrip_witness:
  "let w = \<lparr>wf_out = [], wf_plan = [Wr_chunk 2, Wr_err EINTR, Wr_chunk 0]\<rparr>;
       r = \<lparr>rf_bytes = wf_out (snd (write_messages [(0x41, [1, 2, 3]), (0x50, [])] w)), rf_plan = [Rd_err EINTR, Rd_chunk 4]\<rparr> in
   \<exists>r'. read_messages 3 r =
     ([\<lparr>m_hdr = \<lparr>h_payload_len = 3, h_type = 0x41, h_reserved = [0, 0, 0]\<rparr>, m_payload = [1, 2, 3]\<rparr>,
       \<lparr>m_hdr = \<lparr>h_payload_len = 0, h_type = 0x50, h_reserved = [0, 0, 0]\<rparr>, m_payload = []\<rparr>], Some Ce_eof, r')"
proof -
  let ?ms = "[(0x41, [1, 2, 3]), (0x50, [])] :: (u8 \<times> u8 list) list"
  let ?w = "\<lparr>wf_out = [], wf_plan = [Wr_chunk 2, Wr_err EINTR, Wr_chunk 0]\<rparr>"
  let ?r = "\<lparr>rf_bytes = wf_out (snd (write_messages ?ms ?w)), rf_plan = [Rd_err EINTR, Rd_chunk 4]\<rparr>"
  have "list_all (\<lambda>(t, p). fits p) ?ms" "wr_benign ?w" "rd_benign ?r"
    by (simp_all add: fits_def wr_benign_def rd_benign_def)
  from ipc_roundtrip [OF this(1,2) _ this(3)] show ?thesis by (simp add: Let_def frame_header_def numeral_3_eq_3)
qed

text \<open>C10: whatever the descriptor does, a message is only ever returned when its header and its whole
  payload came from the stream, in that order and with nothing skipped; its payload has the length
  the header announces, at most 1 MiB.\<close>

theorem read_message_sound:
  assumes "read_message fd = (Inr m, fd')"
  shows "\<exists>hs. length hs = 8 \<and> rf_bytes fd = hs @ m_payload m @ rf_bytes fd' \<and>
    m_hdr m = (header_of_bytes hs)\<lparr>h_payload_len := be32 hs\<rparr> \<and>
    length (m_payload m) = unat (be32 hs) \<and> length (m_payload m) \<le> 2 ^ 20"
proof -
  obtain hs fd1 where h: "read_exact header_size fd = (Inr hs, fd1)"
    using assms by (auto simp: read_message_def split: sum.splits prod.splits)
  then have hs: "length hs = 8" "rf_bytes fd = hs @ rf_bytes fd1"
    using read_exact_sound [of header_size fd hs fd1] by (auto simp: header_size_def)
  have be: "bswap32 (h_payload_len (header_of_bytes hs)) = be32 hs"
    using hs(1) header_of_frame [of hs] by (auto simp: length_Suc_conv numeral_eq_Suc)
  have small: "\<not> max_payload_bytes < be32 hs" using assms h be
    by (auto simp: read_message_def Let_def split: if_splits)
  then have small': "unat (be32 hs) \<le> 2 ^ 20" by (simp add: max_payload_bytes_eq word_less_nat_alt)
  show ?thesis
  proof (cases "0 < be32 hs")
    case True
    then obtain p where p: "read_exact (unat (be32 hs)) fd1 = (Inr p, fd')"
      "m = \<lparr>m_hdr = (header_of_bytes hs)\<lparr>h_payload_len := be32 hs\<rparr>, m_payload = p\<rparr>"
      using assms h be small by (auto simp: read_message_def Let_def split: sum.splits prod.splits)
    then show ?thesis using read_exact_sound [OF p(1)] hs small' by (intro exI [of _ hs]) simp
  next
    case False
    then have "m = \<lparr>m_hdr = (header_of_bytes hs)\<lparr>h_payload_len := be32 hs\<rparr>, m_payload = []\<rparr>" "fd' = fd1"
      using assms h be small by (auto simp: read_message_def Let_def)
    then show ?thesis using hs small' False by (intro exI [of _ hs]) (simp add: word_gt_0)
  qed
qed

theorem read_message_sound_witness:
  "\<exists>m fd'. read_message \<lparr>rf_bytes = frame 0x41 [9] @ [5], rf_plan = [Rd_chunk 0]\<rparr> = (Inr m, fd') \<and>
    (\<exists>hs. length hs = 8 \<and> frame 0x41 [9] @ [5] = hs @ m_payload m @ rf_bytes fd')"
proof -
  let ?fd = "\<lparr>rf_bytes = frame 0x41 [9] @ [5], rf_plan = [Rd_chunk 0]\<rparr>"
  have "rd_benign ?fd" "fits [9]" by (simp_all add: rd_benign_def fits_def)
  then obtain m fd' where "read_message ?fd = (Inr m, fd')" using read_message_benign [of ?fd "0x41" "[9]" "[5]"] by auto
  then show ?thesis using read_message_sound [of ?fd] by auto
qed

text \<open>C11: a stream that ends inside a frame, at any byte of it, gives end of file and never a message.\<close>

theorem read_message_truncated:
  assumes "rd_benign fd" "fits payload" "k < length (frame type payload)" "rf_bytes fd = take k (frame type payload)"
  shows "\<exists>fd'. read_message fd = (Inl Ce_eof, fd')"
proof -
  let ?len = "of_nat (length payload) :: u32" let ?h = "u32_be ?len @ [type, 0, 0, 0]"
  have f: "frame type payload = ?h @ payload" by (simp add: frame_def)
  obtain fd1 where fd1: "rd_benign fd1" "rf_bytes fd1 = drop 8 (rf_bytes fd)"
    "read_exact 8 fd = (if 8 \<le> length (rf_bytes fd) then Inr (take 8 (rf_bytes fd)) else Inl 0, fd1)"
    using read_exact_benign [OF assms(1), of 8] by blast
  show ?thesis
  proof (cases "8 \<le> k")
    case False
    then show ?thesis using fd1(3) assms(3,4) by (simp add: read_message_def header_size_def read_error_def)
  next
    case True
    then have h: "read_exact 8 fd = (Inr ?h, fd1)" "rf_bytes fd1 = take (k - 8) payload" "k - 8 < length payload"
      using fd1 assms(3,4) f by (auto simp: take_Cons')
    then obtain fd2 where "read_exact (length payload) fd1 = (Inl 0, fd2)"
      using read_exact_benign [OF fd1(1), of "length payload"] by auto
    moreover have "payload \<noteq> []" using h(3) by auto
    ultimately show ?thesis using h(1) payload_len_ok [OF assms(2)] payload_len_pos [OF assms(2)] unat_payload_len [OF assms(2)]
      by (simp add: read_message_def header_size_def bswap_frame_header Let_def read_error_def)
  qed
qed

theorem read_message_truncated_witness:
  "\<exists>fd'. read_message \<lparr>rf_bytes = take 9 (frame 0x41 [1, 2, 3]), rf_plan = [Rd_chunk 3]\<rparr> = (Inl Ce_eof, fd')"
  by (rule read_message_truncated [of _ "[1, 2, 3]" 9 "0x41"]) (simp_all add: rd_benign_def fits_def frame_def)

text \<open>C12: a header that announces more than 1 MiB is refused as too large, and nothing past the header
  is read.\<close>

theorem read_message_too_large:
  assumes "rd_benign fd" "8 \<le> length (rf_bytes fd)" "2 ^ 20 < unat (be32 (rf_bytes fd))"
  shows "\<exists>fd'. read_message fd = (Inl Ce_frame_too_large, fd') \<and> rf_bytes fd' = drop 8 (rf_bytes fd)"
proof -
  obtain fd1 where fd1: "rf_bytes fd1 = drop 8 (rf_bytes fd)" "read_exact 8 fd = (Inr (take 8 (rf_bytes fd)), fd1)"
    using read_exact_benign [OF assms(1), of 8] assms(2) by auto
  have "be32 (take 4 (rf_bytes fd)) = be32 (rf_bytes fd)"
    using assms(2) by (auto simp: Suc_le_length_iff numeral_eq_Suc)
  then have "bswap32 (h_payload_len (header_of_bytes (take 8 (rf_bytes fd)))) = be32 (rf_bytes fd)"
    using assms(2) by (subst header_of_frame) simp_all
  moreover have "max_payload_bytes < be32 (rf_bytes fd)"
    using assms(3) by (simp add: max_payload_bytes_eq word_less_nat_alt)
  ultimately show ?thesis using fd1 by (simp add: read_message_def header_size_def Let_def)
qed

theorem read_message_too_large_witness:
  "\<exists>fd'. read_message \<lparr>rf_bytes = [0, 0x20, 0, 0, 0x41, 0, 0, 0, 7], rf_plan = []\<rparr> = (Inl Ce_frame_too_large, fd') \<and>
    rf_bytes fd' = [7]"
proof -
  let ?fd = "\<lparr>rf_bytes = [0, 0x20, 0, 0, 0x41, 0, 0, 0, 7 :: u8], rf_plan = []\<rparr>"
  have a: "rd_benign ?fd" by (simp add: rd_benign_def)
  have b: "8 \<le> length (rf_bytes ?fd)" by simp
  have "be32 (rf_bytes ?fd) = 0x200000" by code_simp
  then have c: "2 ^ 20 < unat (be32 (rf_bytes ?fd))" by simp
  show ?thesis using read_message_too_large [OF a b c] by simp
qed

end
