(* ===== verification/Osc.thy ===== *)
theory Osc
  imports Events
begin

text \<open>
  OSC: the message encoder (\<open>osc_encode.hpp\<close>), the resolved datagram (\<open>osc_event.hpp\<close>) and
  the packet decoder and router of the UDP server (\<open>osc_server.cpp\<close>).
\<close>

section \<open>Encoding\<close>

record osc_arg =
  a_tag :: char
  a_i :: u32
  a_f :: fp
  a_s :: string

definition make_i :: "u32 \<Rightarrow> osc_arg" where
  "make_i v = \<lparr>a_tag = CHR ''i'', a_i = v, a_f = Fin 0, a_s = []\<rparr>"

definition make_f :: "fp \<Rightarrow> osc_arg" where
  "make_f v = \<lparr>a_tag = CHR ''f'', a_i = 0, a_f = v, a_s = []\<rparr>"

definition make_s :: "string \<Rightarrow> osc_arg" where
  "make_s v = \<lparr>a_tag = CHR ''s'', a_i = 0, a_f = Fin 0, a_s = v\<rparr>"

abbreviation str_bytes :: "string \<Rightarrow> u8 list" where
  "str_bytes \<equiv> map of_char"

type_synonym sv_step = "u8 small_vector \<Rightarrow> bool \<times> u8 small_vector"

text \<open>\<open>if (!step1) return false; step2\<close>.\<close>

definition sv_seq :: "sv_step \<Rightarrow> sv_step \<Rightarrow> sv_step" where
  "sv_seq s1 s2 v = (case s1 v of (False, v') \<Rightarrow> (False, v') | (True, v') \<Rightarrow> s2 v')"

fun push_zeros :: "nat \<Rightarrow> nat \<Rightarrow> u8 small_vector \<Rightarrow> u8 small_vector" where
  "push_zeros cap 0 v = v"
| "push_zeros cap (Suc n) v = push_zeros cap n (snd (sv_push_back cap v 0))"

fun push_checked :: "nat \<Rightarrow> u8 list \<Rightarrow> sv_step" where
  "push_checked cap [] v = (True, v)"
| "push_checked cap (x # xs) v = sv_seq (\<lambda>v. sv_push_back cap v x) (push_checked cap xs) v"

definition append_osc_string :: "nat \<Rightarrow> string \<Rightarrow> sv_step" where
  "append_osc_string cap s out =
     (let padded = (length s div 4 + 1) * 4 in
      if cap - sv_size out < padded then (False, out)
      else (True, push_zeros cap (padded - length s) (snd (sv_append cap out (str_bytes s)))))"

definition append_u32_be :: "nat \<Rightarrow> u32 \<Rightarrow> sv_step" where
  "append_u32_be cap v out = sv_append cap out (u32_be v)"

definition encode_arg :: "nat \<Rightarrow> osc_arg \<Rightarrow> sv_step" where
  "encode_arg cap a =
     (if a_tag a = CHR ''i'' then append_u32_be cap (a_i a)
      else if a_tag a = CHR ''f'' then append_u32_be cap (f32_bits (a_f a))
      else if a_tag a = CHR ''s'' then append_osc_string cap (a_s a)
      else (\<lambda>v. (False, v)))"

fun encode_args :: "nat \<Rightarrow> osc_arg list \<Rightarrow> sv_step" where
  "encode_args cap [] v = (True, v)"
| "encode_args cap (a # as) v = sv_seq (encode_arg cap a) (encode_args cap as) v"

definition encode :: "nat \<Rightarrow> u8 small_vector \<Rightarrow> string \<Rightarrow> osc_arg list \<Rightarrow> bool \<times> u8 small_vector" where
  "encode cap out address args =
     (let tags_len = length args + 1; tags_padded = (tags_len div 4 + 1) * 4 in
      sv_seq (append_osc_string cap address)
        (sv_seq (\<lambda>v. sv_push_back cap v (of_char CHR '',''))
          (sv_seq (push_checked cap (map (of_char \<circ> a_tag) args))
            (sv_seq (push_checked cap (replicate (tags_padded - tags_len) 0))
              (encode_args cap args)))) (sv_clear out))"

section \<open>The wire format\<close>

definition osc_pad :: "u8 list \<Rightarrow> u8 list" where
  "osc_pad bs = bs @ replicate ((length bs div 4 + 1) * 4 - length bs) 0"

definition arg_wire :: "osc_arg \<Rightarrow> u8 list" where
  "arg_wire a =
     (if a_tag a = CHR ''i'' then u32_be (a_i a)
      else if a_tag a = CHR ''f'' then u32_be (f32_bits (a_f a))
      else osc_pad (str_bytes (a_s a)))"

definition osc_wire :: "string \<Rightarrow> osc_arg list \<Rightarrow> u8 list" where
  "osc_wire address args =
     osc_pad (str_bytes address) @ osc_pad (of_char CHR '','' # map (of_char \<circ> a_tag) args) @ concat (map arg_wire args)"

definition known_tag :: "osc_arg \<Rightarrow> bool" where
  "known_tag a = (a_tag a \<in> {CHR ''i'', CHR ''f'', CHR ''s''})"

text \<open>A step appends \<open>bs\<close>, or refuses when they would pass the capacity.\<close>

definition appends :: "nat \<Rightarrow> sv_step \<Rightarrow> u8 list \<Rightarrow> bool" where
  "appends cap s bs = (\<forall>v. sv_invar cap v \<longrightarrow>
     sv_invar cap (snd (s v)) \<and> (fst (s v) \<longleftrightarrow> length (sv_list v) + length bs \<le> cap) \<and>
     (fst (s v) \<longrightarrow> sv_list (snd (s v)) = sv_list v @ bs))"

lemma appends_seq:
  assumes "appends cap s1 bs1" "appends cap s2 bs2"
  shows "appends cap (sv_seq s1 s2) (bs1 @ bs2)"
  unfolding appends_def
proof (intro allI impI)
  fix v :: "u8 small_vector" assume v: "sv_invar cap v"
  obtain r v1 where s: "s1 v = (r, v1)" by fastforce
  show "sv_invar cap (snd (sv_seq s1 s2 v)) \<and>
    (fst (sv_seq s1 s2 v) \<longleftrightarrow> length (sv_list v) + length (bs1 @ bs2) \<le> cap) \<and>
    (fst (sv_seq s1 s2 v) \<longrightarrow> sv_list (snd (sv_seq s1 s2 v)) = sv_list v @ bs1 @ bs2)"
  proof (cases r)
    case True
    then have "sv_invar cap v1" "sv_list v1 = sv_list v @ bs1" using assms(1) v s by (auto simp: appends_def)
    with True s show ?thesis using assms(2) by (simp add: appends_def sv_seq_def add.assoc)
  next
    case False
    with s show ?thesis using assms(1) v by (auto simp: appends_def sv_seq_def)
  qed
qed

lemma appends_nil: "appends cap (\<lambda>v. (True, v)) []"
  by (auto simp: appends_def sv_invar_def sv_list_def)

lemma appends_push: "appends cap (\<lambda>v. sv_push_back cap v x) [x]"
  by (auto simp: appends_def sv_push_back_spec)

lemma appends_append: "appends cap (\<lambda>v. sv_append cap v bs) bs"
  by (auto simp: appends_def sv_append_spec)

lemma appends_push_checked: "appends cap (push_checked cap bs) bs"
proof (induction bs)
  case Nil
  have "push_checked cap [] = (\<lambda>v. (True, v))" by (simp add: fun_eq_iff)
  then show ?case by (simp add: appends_nil)
next
  case (Cons b bs)
  have "push_checked cap (b # bs) = sv_seq (\<lambda>v. sv_push_back cap v b) (push_checked cap bs)" by (simp add: fun_eq_iff)
  then show ?case using appends_seq [OF appends_push Cons] by (simp add: fun_eq_iff)
qed

lemma push_zeros_spec:
  "sv_invar cap v \<Longrightarrow> length (sv_list v) + n \<le> cap \<Longrightarrow>
   sv_invar cap (push_zeros cap n v) \<and> sv_list (push_zeros cap n v) = sv_list v @ replicate n 0"
proof (induction n arbitrary: v)
  case (Suc n)
  then show ?case using Suc.IH [of "snd (sv_push_back cap v 0)"]
    by (simp add: sv_push_back_spec replicate_app_Cons_same)
qed simp

lemma appends_osc_string: "appends cap (append_osc_string cap s) (osc_pad (str_bytes s))"
  unfolding appends_def
proof (intro allI impI)
  fix v :: "u8 small_vector" assume v: "sv_invar cap v"
  let ?p = "(length s div 4 + 1) * 4" let ?v = "snd (sv_append cap v (str_bytes s))"
  have p: "length s < ?p" by simp
  have len: "length (sv_list v) = sv_size v" "sv_size v \<le> cap" using v sv_length by (auto simp: sv_invar_def)
  have pad: "length (osc_pad (str_bytes s)) = ?p" by (simp add: osc_pad_def)
  show "sv_invar cap (snd (append_osc_string cap s v)) \<and>
    (fst (append_osc_string cap s v) \<longleftrightarrow> length (sv_list v) + length (osc_pad (str_bytes s)) \<le> cap) \<and>
    (fst (append_osc_string cap s v) \<longrightarrow> sv_list (snd (append_osc_string cap s v)) = sv_list v @ osc_pad (str_bytes s))"
  proof (cases "cap - sv_size v < ?p")
    case True
    then show ?thesis using v len pad by (auto simp: append_osc_string_def Let_def)
  next
    case False
    then have room: "length (sv_list v) + ?p \<le> cap" using len by linarith
    then have "sv_invar cap ?v" "sv_list ?v = sv_list v @ str_bytes s"
      using sv_append_spec [OF v, of "str_bytes s"] p by auto
    then show ?thesis using False pad room p push_zeros_spec [of cap ?v "?p - length s"]
      by (auto simp: append_osc_string_def Let_def osc_pad_def)
  qed
qed

lemma appends_encode_arg: "known_tag a \<Longrightarrow> appends cap (encode_arg cap a) (arg_wire a)"
  using appends_append [of cap] appends_osc_string
  by (auto simp: encode_arg_def arg_wire_def known_tag_def append_u32_be_def [abs_def])

lemma appends_encode_args: "list_all known_tag as \<Longrightarrow> appends cap (encode_args cap as) (concat (map arg_wire as))"
proof (induction as)
  case Nil
  have "encode_args cap [] = (\<lambda>v. (True, v))" by (simp add: fun_eq_iff)
  then show ?case by (simp add: appends_nil)
next
  case (Cons a as)
  have "encode_args cap (a # as) = sv_seq (encode_arg cap a) (encode_args cap as)" by (simp add: fun_eq_iff)
  with Cons show ?case using appends_seq appends_encode_arg by simp
qed

lemma encode_appends:
  assumes "list_all known_tag args" "sv_invar cap out"
  shows "fst (encode cap out address args) \<longleftrightarrow> length (osc_wire address args) \<le> cap"
    and "fst (encode cap out address args) \<Longrightarrow> sv_list (snd (encode cap out address args)) = osc_wire address args"
    and "sv_invar cap (snd (encode cap out address args))"
proof -
  let ?z = "replicate (((length args + 1) div 4 + 1) * 4 - (length args + 1)) (0::u8)"
  let ?s = "sv_seq (append_osc_string cap address)
        (sv_seq (\<lambda>v. sv_push_back cap v (of_char CHR '',''))
          (sv_seq (push_checked cap (map (of_char \<circ> a_tag) args))
            (sv_seq (push_checked cap ?z) (encode_args cap args))))"
  have "appends cap ?s (osc_pad (str_bytes address) @ [of_char CHR '',''] @
      map (of_char \<circ> a_tag) args @ ?z @ concat (map arg_wire args))"
    by (intro appends_seq appends_osc_string appends_push appends_push_checked appends_encode_args assms(1))
  moreover have "osc_pad (str_bytes address) @ [of_char CHR '',''] @ map (of_char \<circ> a_tag) args @ ?z @
      concat (map arg_wire args) = osc_wire address args"
    by (simp add: osc_wire_def osc_pad_def)
  ultimately have "appends cap ?s (osc_wire address args)" by simp
  moreover have "encode cap out address args = ?s (sv_clear out)" by (simp add: encode_def Let_def)
  ultimately show "fst (encode cap out address args) \<longleftrightarrow> length (osc_wire address args) \<le> cap"
    and "fst (encode cap out address args) \<Longrightarrow> sv_list (snd (encode cap out address args)) = osc_wire address args"
    and "sv_invar cap (snd (encode cap out address args))"
    using sv_clear_spec(1) [of cap out] sv_clear_spec(2) [of out] assms(2) unfolding appends_def by auto
qed

section \<open>Resolved datagrams\<close>

text \<open>
  \<open>inet_pton\<close> is the operating system's parser of dotted quads, a parameter. The port is kept
  as the number it denotes; \<open>htons\<close> stores it in network order.
\<close>

definition resolve_osc_endpoint :: "(string \<Rightarrow> u32 option) \<Rightarrow> string \<Rightarrow> u16 \<Rightarrow> bool \<times> sockaddr" where
  "resolve_osc_endpoint pton host port =
     (let out = \<lparr>sin_port = port, sin_addr = 0\<rparr> in
      if 64 \<le> length host then (False, out)
      else let host_c = (if host = ''localhost'' then ''127.0.0.1'' else takeWhile (\<lambda>c. c \<noteq> CHR 0x00) host) in
        case pton host_c of None \<Rightarrow> (False, out) | Some a \<Rightarrow> (True, out\<lparr>sin_addr := a\<rparr>))"

definition build_osc_event ::
  "(string \<Rightarrow> u32 option) \<Rightarrow> string \<Rightarrow> u16 \<Rightarrow> string \<Rightarrow> osc_arg list \<Rightarrow> osc_event \<Rightarrow> bool \<times> osc_event" where
  "build_osc_event pton host port address args out =
     (case resolve_osc_endpoint pton host port of
        (False, d) \<Rightarrow> (False, out\<lparr>oe_dest := d\<rparr>)
      | (True, d) \<Rightarrow> (case encode osc_event_max_bytes (oe_bytes out) address args of
          (ok, bs) \<Rightarrow> (ok, out\<lparr>oe_dest := d, oe_bytes := bs\<rparr>)))"

section \<open>The server\<close>

definition pad4 :: "nat \<Rightarrow> nat" where
  "pad4 n = (n + 3) div 4 * 4"

definition osc_int32 :: "u8 list \<Rightarrow> nat \<Rightarrow> u32" where
  "osc_int32 args off = be32 (drop off args)"

definition osc_float :: "u8 list \<Rightarrow> nat \<Rightarrow> fp" where
  "osc_float args off = bits_f32 (be32 (drop off args))"

definition build_osc_string_msg :: "string \<Rightarrow> string \<Rightarrow> u8 list" where
  "build_osc_string_msg addr payload =
     (let addr_len = length addr + 1; str_padded = pad4 (length payload + 1) in
      str_bytes addr @ replicate (pad4 addr_len - length addr) 0 @
      [of_char CHR '','', of_char CHR ''s'', 0, 0] @
      str_bytes payload @ replicate (str_padded - length payload) 0)"

text \<open>
  The callbacks a caller wires, and the last sender: \<open>get_endpoints\<close> is the string the Lua
  participant returns (\<open>None\<close>: not wired); \<open>srv_sock\<close>: the socket is open. What a packet makes the
  server do is a value.
\<close>

record osc_server =
  srv_sock :: bool
  srv_running :: bool
  srv_dispatch :: bool
  srv_endpoints :: "string option"
  srv_sender :: "sockaddr option"

datatype osc_effect =
    Osc_push clap_event
  | Osc_reply sockaddr "u8 list"
  | Osc_dispatch "u8 list" "u8 list" "u8 list"
  | Osc_nothing

text \<open>\<open>send_udp\<close> sends nothing when the socket is closed or there is nothing to send.\<close>

definition send_udp :: "osc_server \<Rightarrow> sockaddr \<Rightarrow> u8 list \<Rightarrow> osc_effect" where
  "send_udp srv dest data = (if \<not> srv_sock srv \<or> data = [] then Osc_nothing else Osc_reply dest data)"

definition send_event :: "osc_server \<Rightarrow> osc_event \<Rightarrow> osc_effect" where
  "send_event srv ev = send_udp srv (oe_dest ev) (sv_list (oe_bytes ev))"

definition send_osc ::
  "(string \<Rightarrow> u32 option) \<Rightarrow> osc_server \<Rightarrow> string \<Rightarrow> u16 \<Rightarrow> string \<Rightarrow> osc_arg list \<Rightarrow> bool \<times> osc_effect" where
  "send_osc pton srv host port address args =
     (if \<not> srv_sock srv then (False, Osc_nothing)
      else case build_osc_event pton host port address args osc_event_new of
        (False, _) \<Rightarrow> (False, Osc_nothing)
      | (True, ev) \<Rightarrow> (True, send_event srv ev))"

text \<open>\<open>start\<close> with the outcomes of \<open>socket\<close> and \<open>bind\<close>.\<close>

definition osc_start :: "bool \<Rightarrow> bool \<Rightarrow> osc_server \<Rightarrow> osc_server" where
  "osc_start socket_ok bind_ok srv =
     (if \<not> socket_ok \<or> \<not> bind_ok then srv\<lparr>srv_sock := False\<rparr>
      else srv\<lparr>srv_sock := True, srv_running := True\<rparr>)"

definition osc_stop :: "osc_server \<Rightarrow> osc_server" where
  "osc_stop srv = (if \<not> srv_running srv then srv else srv\<lparr>srv_running := False, srv_sock := False\<rparr>)"

definition osc_note :: "bool \<Rightarrow> u8 list \<Rightarrow> fp \<Rightarrow> clap_event" where
  "osc_note on args vel = Clap_note \<lparr>ne_on = on, ne_live = False, ne_time = 0, ne_note_id = - 1,
     ne_port = ucast (osc_int32 args 0), ne_channel = ucast (osc_int32 args 4),
     ne_key = ucast (osc_int32 args 8), ne_velocity = vel\<rparr>"

definition strnlen :: "u8 list \<Rightarrow> nat" where
  "strnlen bs = length (takeWhile (\<lambda>b. b \<noteq> 0) bs)"

definition osc_route :: "osc_server \<Rightarrow> u8 list \<Rightarrow> u8 list \<Rightarrow> u8 list \<Rightarrow> osc_effect" where
  "osc_route srv address types args =
    (let avail = length args in
    if address = str_bytes ''/nous/note/on'' \<and> types = str_bytes ''iiif'' \<and> 16 \<le> avail then
      Osc_push (osc_note True args (osc_float args 12))
    else if address = str_bytes ''/nous/note/off'' \<and> types = str_bytes ''iii'' \<and> 12 \<le> avail then
      Osc_push (osc_note False args (Fin 0))
    else if address = str_bytes ''/nous/midi'' \<and> types = str_bytes ''iiii'' \<and> 16 \<le> avail then
      Osc_push (Clap_midi \<lparr>me_live = False, me_time = 0, me_port = ucast (osc_int32 args 0),
        me_data = [ucast (osc_int32 args 4), ucast (osc_int32 args 8), ucast (osc_int32 args 12)]\<rparr>)
    else if address = str_bytes ''/nous/endpoints'' then
      (case (srv_endpoints srv, srv_sender srv) of
         (Some paths, Some dest) \<Rightarrow> send_udp srv dest (build_osc_string_msg ''/nous/endpoints'' paths)
       | _ \<Rightarrow> Osc_nothing)
    else if srv_dispatch srv then Osc_dispatch address types args
    else Osc_nothing)"

definition handle_packet :: "osc_server \<Rightarrow> u8 list \<Rightarrow> osc_effect" where
  "handle_packet srv buf =
     (let len = length buf; addr_len = strnlen buf; tags_off = pad4 (addr_len + 1) in
      if len < 8 then Osc_nothing
      else if len \<le> addr_len then Osc_nothing
      else if len \<le> tags_off then Osc_nothing
      else if buf ! tags_off \<noteq> of_char CHR '','' then Osc_nothing
      else
        let tags_len = strnlen (drop tags_off buf);
            args_off = tags_off + pad4 (tags_len + 1) in
        osc_route srv (take addr_len buf) (take (tags_len - 1) (drop (tags_off + 1) buf)) (drop args_off buf))"

text \<open>One iteration of \<open>run\<close>: a received packet records its sender before it is handled.\<close>

definition osc_receive :: "osc_server \<Rightarrow> sockaddr \<Rightarrow> u8 list \<Rightarrow> osc_server \<times> osc_effect" where
  "osc_receive srv from buf =
     (if buf = [] then (srv, Osc_nothing)
      else let srv' = srv\<lparr>srv_sender := Some from\<rparr> in (srv', handle_packet srv' buf))"

definition push_endpoints :: "osc_server \<Rightarrow> osc_effect" where
  "push_endpoints srv =
     (case (srv_endpoints srv, srv_sender srv) of
        (Some paths, Some dest) \<Rightarrow> send_udp srv dest (build_osc_string_msg ''/nous/endpoints'' paths)
      | _ \<Rightarrow> Osc_nothing)"

section \<open>Decoding what was encoded\<close>

lemma pad4_Suc: "pad4 (Suc n) = (n div 4 + 1) * 4"
  unfolding pad4_def by arith

lemma length_osc_pad: "length (osc_pad bs) = pad4 (Suc (length bs))"
proof -
  have "length bs < (length bs div 4 + 1) * 4" by arith
  then show ?thesis by (simp add: osc_pad_def pad4_Suc)
qed

lemma strnlen_osc_pad: "0 \<notin> set bs \<Longrightarrow> strnlen (osc_pad bs @ rest) = length bs"
proof -
  assume z: "0 \<notin> set bs"
  have "length bs < (length bs div 4 + 1) * 4" by arith
  then obtain k where "(length bs div 4 + 1) * 4 - length bs = Suc k" by (metis Suc_diff_Suc)
  then have "osc_pad bs @ rest = bs @ 0 # replicate k 0 @ rest" by (simp add: osc_pad_def)
  moreover have "takeWhile (\<lambda>b. b \<noteq> 0) bs = bs" using z by auto
  ultimately show ?thesis unfolding strnlen_def by (simp add: takeWhile_tail)
qed

lemma take_osc_pad: "take (length bs) (osc_pad bs) = bs"
  by (simp add: osc_pad_def)

lemma handle_packet_wire:
  assumes "0 \<notin> set A" "0 \<notin> set T" "T = of_char CHR '','' # tags"
  shows "handle_packet srv (osc_pad A @ osc_pad T @ R) = osc_route srv A tags R"
proof -
  let ?buf = "osc_pad A @ osc_pad T @ R"
  have lA: "length (osc_pad A) = pad4 (Suc (length A))" and lT: "length (osc_pad T) = pad4 (Suc (length T))"
    by (rule length_osc_pad)+
  have p: "4 \<le> pad4 (Suc n)" "n < pad4 (Suc n)" for n by (auto simp: pad4_Suc)
  have sA: "strnlen ?buf = length A" using assms(1) by (rule strnlen_osc_pad)
  have dA: "drop (pad4 (Suc (length A))) ?buf = osc_pad T @ R" using lA by (metis append_eq_conv_conj)
  have sT: "strnlen (osc_pad T @ R) = length T" using assms(2) by (rule strnlen_osc_pad)
  obtain z where oT: "osc_pad T = of_char CHR '','' # tags @ z" using assms(3) by (simp add: osc_pad_def)
  have hdT: "?buf ! pad4 (Suc (length A)) = of_char CHR '',''" using lA oT by (simp add: nth_append)
  have dR: "drop (pad4 (Suc (length A)) + pad4 (Suc (length T))) ?buf = R"
    using lA lT by simp
  have tg: "take (length T - 1) (drop (pad4 (Suc (length A)) + 1) ?buf) = tags"
    using lA assms(3) oT by simp
  show ?thesis
    using sA sT dA dR hdT tg p(1) [of "length A"] p(1) [of "length T"] p(2) [of "length A"] lA lT
    by (simp add: handle_packet_def Let_def take_osc_pad)
qed

lemma str_bytes_no_nul: "CHR 0x00 \<notin> set s \<Longrightarrow> 0 \<notin> set (str_bytes s)"
proof
  assume s: "CHR 0x00 \<notin> set s" and "0 \<in> set (str_bytes s)"
  then obtain c where c: "c \<in> set s" "of_char c = (of_char CHR 0x00 :: u8)" by auto
  have "c = CHR 0x00" by (rule injD [OF inj_of_char_u8 c(2)])
  with c(1) s show False by simp
qed

lemma handle_packet_osc_wire:
  assumes "CHR 0x00 \<notin> set address" "list_all known_tag args"
  shows "handle_packet srv (osc_wire address args) =
    osc_route srv (str_bytes address) (map (of_char \<circ> a_tag) args) (concat (map arg_wire args))"
proof -
  have "0 \<notin> set (of_char CHR '','' # map (of_char \<circ> a_tag) args :: u8 list)"
    using assms(2) by (auto simp: known_tag_def list_all_iff)
  then show ?thesis unfolding osc_wire_def
    using handle_packet_wire [OF str_bytes_no_nul [OF assms(1)]] by blast
qed

lemma handle_packet_unrouted:
  assumes "CHR 0x00 \<notin> set address" "list_all known_tag args" "srv_dispatch srv"
    and "address \<notin> {''/nous/note/on'', ''/nous/note/off'', ''/nous/midi'', ''/nous/endpoints''}"
  shows "handle_packet srv (osc_wire address args) =
    Osc_dispatch (str_bytes address) (map (of_char \<circ> a_tag) args) (concat (map arg_wire args))"
proof -
  have eq: "str_bytes address = str_bytes b \<longleftrightarrow> address = b" for b
    using inj_of_char_u8 by (rule inj_map_eq_map)
  have "osc_route srv (str_bytes address) tags bs = Osc_dispatch (str_bytes address) tags bs" for tags bs
    using assms(3,4) unfolding osc_route_def Let_def eq by auto
  then show ?thesis using handle_packet_osc_wire [OF assms(1,2), of srv] by simp
qed

section \<open>Properties\<close>

text \<open>C6: the encoder accepts a message exactly when its wire form fits the buffer, and then the
  buffer holds exactly the wire form (padded address, padded type tags, big-endian arguments);
  it never writes past the capacity.\<close>

theorem osc_encode_exact:
  assumes "sv_invar cap out" "list_all known_tag args"
  shows "sv_invar cap (snd (encode cap out address args)) \<and>
    (fst (encode cap out address args) \<longleftrightarrow> length (osc_wire address args) \<le> cap) \<and>
    (fst (encode cap out address args) \<longrightarrow> sv_list (snd (encode cap out address args)) = osc_wire address args)"
  using encode_appends [OF assms(2,1)] by blast

theorem osc_encode_exact_witness:
  "sv_invar 32 (sv_new 32 (0::u8)) \<and> list_all known_tag [make_i 7] \<and>
   sv_list (snd (encode 32 (sv_new 32 0) ''/a'' [make_i 7])) = osc_wire ''/a'' [make_i 7] \<and>
   length (osc_wire ''/a'' [make_i 7]) = 12"
proof -
  have a: "sv_invar 32 (sv_new 32 (0::u8))" by (rule sv_new_spec)
  have b: "list_all known_tag [make_i 7]" by (simp add: known_tag_def make_i_def)
  have l: "length (osc_wire ''/a'' [make_i 7]) = 12" by code_simp
  then have "fst (encode 32 (sv_new 32 0) ''/a'' [make_i 7])" using osc_encode_exact [OF a b, of "''/a''"] by auto
  with a b l show ?thesis using osc_encode_exact [OF a b, of "''/a''"] by blast
qed

lemma handle_note_on_wire:
  assumes "is_float v" "v \<noteq> NaN"
  shows "handle_packet srv (osc_wire ''/nous/note/on'' [make_i p, make_i c, make_i k, make_f v]) =
    Osc_push (Clap_note \<lparr>ne_on = True, ne_live = False, ne_time = 0, ne_note_id = - 1,
      ne_port = ucast p, ne_channel = ucast c, ne_key = ucast k, ne_velocity = v\<rparr>)"
proof -
  let ?args = "[make_i p, make_i c, make_i k, make_f v]"
  let ?bytes = "u32_be p @ u32_be c @ u32_be k @ u32_be (f32_bits v)"
  have "list_all known_tag ?args" by (simp add: known_tag_def make_i_def make_f_def)
  then have "handle_packet srv (osc_wire ''/nous/note/on'' ?args) =
      osc_route srv (str_bytes ''/nous/note/on'') (str_bytes ''iiif'') ?bytes"
    using handle_packet_osc_wire [of "''/nous/note/on''" ?args srv] by (simp add: make_i_def make_f_def arg_wire_def)
  also have "\<dots> = Osc_push (osc_note True ?bytes (osc_float ?bytes 12))" by (simp add: osc_route_def)
  also have "osc_float ?bytes 12 = v"
    using f32_bits_roundtrip [OF assms] be32_u32_be [of _ "[]"] by (simp add: osc_float_def)
  finally show ?thesis by (simp add: osc_note_def osc_int32_def)
qed

lemma note_on_wire_length: "length (osc_wire ''/nous/note/on'' [make_i p, make_i c, make_i k, make_f v]) = 40"
  by (simp add: osc_wire_def osc_pad_def make_i_def make_f_def arg_wire_def u32_be_def)

text \<open>C7: the encoder accepts a note-on message in any buffer of 40 bytes or more, and the bytes it writes
  are decoded by the server's packet handler into exactly the note described: port, channel and key
  truncated to 16 bits as the casts do, the velocity bit for bit.\<close>

theorem osc_note_on_roundtrip:
  assumes "sv_invar cap out" "40 \<le> cap" "is_float v" "v \<noteq> NaN"
  shows "\<exists>out'. encode cap out ''/nous/note/on'' [make_i p, make_i c, make_i k, make_f v] = (True, out') \<and>
    handle_packet srv (sv_list out') =
      Osc_push (Clap_note \<lparr>ne_on = True, ne_live = False, ne_time = 0, ne_note_id = - 1,
        ne_port = ucast p, ne_channel = ucast c, ne_key = ucast k, ne_velocity = v\<rparr>)"
proof -
  let ?args = "[make_i p, make_i c, make_i k, make_f v]"
  have k: "list_all known_tag ?args" by (simp add: known_tag_def make_i_def make_f_def)
  obtain ok out' where e: "encode cap out ''/nous/note/on'' ?args = (ok, out')" by fastforce
  then have "ok" "sv_list out' = osc_wire ''/nous/note/on'' ?args"
    using encode_appends [OF k assms(1), of "''/nous/note/on''"] assms(2) by (simp_all add: note_on_wire_length)
  with e show ?thesis using handle_note_on_wire [OF assms(3,4)] by simp
qed

theorem osc_note_on_roundtrip_witness:
  "\<exists>out'. encode 64 (sv_new 64 0) ''/nous/note/on'' [make_i 0, make_i 3, make_i 60, make_f (Fin (1/2))] = (True, out') \<and>
    handle_packet \<lparr>srv_sock = True, srv_running = True, srv_dispatch = False, srv_endpoints = None, srv_sender = None\<rparr> (sv_list out') =
    Osc_push (Clap_note \<lparr>ne_on = True, ne_live = False, ne_time = 0, ne_note_id = - 1,
      ne_port = ucast (0::u32), ne_channel = ucast (3::u32), ne_key = ucast (60::u32), ne_velocity = Fin (1/2)\<rparr>)"
proof -
  have "is_float (Fin (1/2))" by code_simp
  then show ?thesis by (intro osc_note_on_roundtrip sv_new_spec) simp_all
qed

text \<open>A message for an address the server does not route itself reaches the dispatch callback
  with exactly the encoded address, type tags and argument bytes.\<close>

theorem osc_dispatch_passthrough:
  assumes "CHR 0x00 \<notin> set address" "list_all known_tag args" "srv_dispatch srv"
    and "address \<notin> {''/nous/note/on'', ''/nous/note/off'', ''/nous/midi'', ''/nous/endpoints''}"
  shows "handle_packet srv (osc_wire address args) =
    Osc_dispatch (str_bytes address) (map (of_char \<circ> a_tag) args) (concat (map arg_wire args))"
  by (rule handle_packet_unrouted [OF assms])

theorem osc_dispatch_passthrough_witness:
  "handle_packet \<lparr>srv_sock = True, srv_running = True, srv_dispatch = True, srv_endpoints = None, srv_sender = None\<rparr> (osc_wire ''/grid'' [make_i 1]) =
   Osc_dispatch (str_bytes ''/grid'') (map (of_char \<circ> a_tag) [make_i 1]) (concat (map arg_wire [make_i 1]))"
  by (rule osc_dispatch_passthrough) (simp_all add: known_tag_def make_i_def)

lemma encode_fresh:
  assumes "list_all known_tag args"
  shows "encode osc_event_max_bytes (sv_new osc_event_max_bytes 0) address args =
    (length (osc_wire address args) \<le> 256, snd (encode osc_event_max_bytes (sv_new osc_event_max_bytes 0) address args))"
    and "length (osc_wire address args) \<le> 256 \<Longrightarrow>
      sv_list (snd (encode osc_event_max_bytes (sv_new osc_event_max_bytes 0) address args)) = osc_wire address args"
  using encode_appends(1,2) [OF assms sv_new_spec(1) [of osc_event_max_bytes 0], of address]
  by (simp_all add: prod_eq_iff osc_event_max_bytes_def)

lemma osc_wire_nonempty: "osc_wire address args \<noteq> []"
  by (simp add: osc_wire_def osc_pad_def)

text \<open>C8: \<open>send_osc\<close> reports success exactly when the socket is open, the host resolves and the
  message fits an event, and then one datagram with exactly the wire form goes to the resolved
  endpoint; on any failure nothing is sent.\<close>

theorem send_osc_exact:
  assumes "list_all known_tag args"
  shows "send_osc pton srv host port address args =
    (case resolve_osc_endpoint pton host port of (r, dest) \<Rightarrow>
      if srv_sock srv \<and> r \<and> length (osc_wire address args) \<le> 256
      then (True, Osc_reply dest (osc_wire address args)) else (False, Osc_nothing))"
proof (cases "resolve_osc_endpoint pton host port")
  case (Pair r dest)
  then show ?thesis using encode_fresh [OF assms, of address] osc_wire_nonempty [of address args]
    by (cases r; cases "length (osc_wire address args) \<le> 256")
       (auto simp: send_osc_def build_osc_event_def send_event_def send_udp_def osc_event_new_def split: prod.splits)
qed

theorem send_osc_exact_witness:
  "let srv = \<lparr>srv_sock = True, srv_running = True, srv_dispatch = False, srv_endpoints = None, srv_sender = None\<rparr>;
       pton = (\<lambda>h. if h = ''127.0.0.1'' then Some 0x7F000001 else None) in
   send_osc pton srv ''localhost'' 9000 ''/a'' [make_i 7] =
     (True, Osc_reply \<lparr>sin_port = 9000, sin_addr = 0x7F000001\<rparr> (osc_wire ''/a'' [make_i 7]))"
proof -
  have k: "list_all known_tag [make_i 7]" by (simp add: known_tag_def make_i_def)
  have l: "length (osc_wire ''/a'' [make_i 7]) = 12" by code_simp
  show ?thesis unfolding Let_def send_osc_exact [OF k] using l by (simp add: resolve_osc_endpoint_def)
qed

end
