(* ===== verification/Control_Messages.thy ===== *)
theory Control_Messages
  imports Modulator_Start Scheduler Midi Mts Ipc Osc
begin

text \<open>
  The handlers of the control thread (\<open>rt_control_thread.cpp\<close>), one per message type, and the session
  they write to (\<open>session.cpp\<close>).
\<close>

section \<open>Sessions and the transaction log\<close>

text \<open>
  The log is a library: opening it succeeds or fails, and what is sent to it is an effect. An entry
  holds the fields the handler sets; \<open>None\<close> leaves the library's default.
\<close>

record tx_entry =
  te_id :: "u8 list option"
  te_beat :: "fp option"
  te_wall_ns :: "int option"
  te_source :: "string option"
  te_path :: "edn option"
  te_before :: "edn option"
  te_after :: "edn option"
  te_parent :: "edn option"

record source_info =
  si_id :: string
  si_name :: string
  si_description :: string

record session =
  ses_log :: bool

definition session_open :: "bool \<Rightarrow> session option" where
  "session_open db_ok = (if db_ok then Some \<lparr>ses_log = True\<rparr> else None)"

definition session_close :: "session \<Rightarrow> session" where
  "session_close s = s\<lparr>ses_log := False\<rparr>"

definition session_is_open :: "session \<Rightarrow> bool" where
  "session_is_open s = ses_log s"

text \<open>
  What the handlers do to the outside, in order. \<open>Eff_reply\<close> is a call of \<open>ipc::write_message\<close> on a
  descriptor, \<open>Eff_close\<close> the \<open>close\<close> of a connection's descriptor. The last five are the calls that set up
  and take down the listening socket.
\<close>

datatype effect =
    Eff_source source_info
  | Eff_entry tx_entry
  | Eff_midi midi_effect
  | Eff_osc osc_effect
  | Eff_reply int u8 string
  | Eff_tty string
  | Eff_swap string string
  | Eff_close int
  | Eff_register_swap
  | Eff_bind string
  | Eff_unlink string
  | Eff_close_listen
  | Eff_shutdown int

definition register_source :: "session \<Rightarrow> source_info \<Rightarrow> effect list" where
  "register_source s info = (if ses_log s then [Eff_source info] else [])"

definition session_emit :: "session \<Rightarrow> tx_entry \<Rightarrow> effect list" where
  "session_emit s e = (if ses_log s then [Eff_entry e] else [])"

section \<open>UUIDs\<close>

text \<open>\<open>char\<close> is signed on the targets; the digit is cut to a byte.\<close>

definition hex_nibble :: "u8 \<Rightarrow> u8" where
  "hex_nibble c = (if sint c \<le> 57 then c - 48 else (c OR 32) - 97 + 10)"

text \<open>The loop over the 36 characters; the string ends with a null character.\<close>

function uuid_bytes :: "u8 list \<Rightarrow> nat \<Rightarrow> nat \<Rightarrow> u8 list" where
  "uuid_bytes s i bi =
     (if i < 36 \<and> bi < 16 then
        if s ! i = 45 then uuid_bytes s (i + 1) bi
        else (push_bit 4 (hex_nibble (s ! i)) OR hex_nibble ((s @ [0]) ! (i + 1))) # uuid_bytes s (i + 2) (bi + 1)
      else [])"
  by pat_completeness auto
termination by (relation "measure (\<lambda>(s, i, bi). 36 - i)") auto

declare uuid_bytes.simps [simp del]

definition parse_uuid :: "u8 list \<Rightarrow> u8 list" where
  "parse_uuid s =
     (if length s \<noteq> 36 then replicate 16 0
      else let bs = uuid_bytes s 0 0 in bs @ replicate (16 - length bs) 0)"

section \<open>The state of the control thread\<close>

definition param_queue_capacity :: nat where
  "param_queue_capacity = 512"

record param_event =
  pe_path :: edn
  pe_value :: edn
  pe_time :: time_identity

definition time_identity_new :: time_identity where
  "time_identity_new = \<lparr>ti_current = \<lparr>bpm = Fin 120, beat = Fin 0\<rparr>, ti_pending = None\<rparr>"

text \<open>
  The configuration, with the components it points to, and the thread's own members. \<open>ct_lua\<close>,
  \<open>ct_tty\<close> and \<open>ct_swap\<close> say whether the evaluator and the two callbacks are set.
\<close>

record 'e control =
  ct_param_queue :: "param_event spsc"
  ct_in_queue :: "clap_event spsc"
  ct_sched_staging :: "scheduled_event spsc option"
  ct_mod_engine :: "'e modulator_engine option"
  ct_ext_registry :: "'e modulator_registry option"
  ct_midi :: "midi_io option"
  ct_osc :: "osc_server option"
  ct_lua :: bool
  ct_tty :: bool
  ct_swap :: bool
  ct_socket_path :: string
  ct_listen :: "string option"
  ct_running :: bool
  ct_conn_write :: "int option"

text \<open>What the environment answers: libraries, the outcome of the system's calls, the callbacks.\<close>

record 'e control_env =
  ce_edn :: edn_lib
  ce_mod :: "'e mod_env"
  ce_pton :: "string \<Rightarrow> u32 option"
  ce_midi_ok :: bool
  ce_db_ok :: bool
  ce_lua_eval :: "string \<Rightarrow> string"
  ce_swap_ok :: "string \<Rightarrow> string \<Rightarrow> bool"

section \<open>Notes, parameters and schedules\<close>

definition make_note_event :: "bool \<Rightarrow> u16 \<Rightarrow> u16 \<Rightarrow> u16 \<Rightarrow> u16 \<Rightarrow> fp \<Rightarrow> clap_event" where
  "make_note_event is_on key channel port note_id velocity = Clap_note
     \<lparr>ne_on = is_on, ne_live = False, ne_time = 0, ne_note_id = scast note_id, ne_port = port, ne_channel = channel,
      ne_key = key, ne_velocity = velocity\<rparr>"

definition note_of_map :: "edn_lib \<Rightarrow> bool \<Rightarrow> edn_map \<Rightarrow> clap_event" where
  "note_of_map L is_on m = make_note_event is_on (of_int (get_int L m ''key'' 60)) (of_int (get_int L m ''channel'' 0))
     (of_int (get_int L m ''port'' 0)) (of_int (get_int L m ''note-id'' (- 1))) (get_double L m ''velocity'' (Fin 0))"

definition clap_at :: "fp \<Rightarrow> clap_event \<Rightarrow> scheduled_event" where
  "clap_at b ev = \<lparr>se_beat = b, se_kind = K_clap, se_event = ev, se_osc = osc_event_new\<rparr>"

definition osc_at :: "fp \<Rightarrow> osc_event \<Rightarrow> scheduled_event" where
  "osc_at b oe = \<lparr>se_beat = b, se_kind = K_osc, se_event = Clap_other 0, se_osc = oe\<rparr>"

definition push_in :: "clap_event \<Rightarrow> 'e control \<Rightarrow> 'e control" where
  "push_in ev st = st\<lparr>ct_in_queue := snd (q_push in_queue_capacity (ct_in_queue st) ev)\<rparr>"

definition handle_note :: "edn_lib \<Rightarrow> bool \<Rightarrow> edn_map \<Rightarrow> 'e control \<Rightarrow> 'e control" where
  "handle_note L is_on m st =
     (let ev = note_of_map L is_on m in
      case (ed_find_kw L m ''beat'', ct_sched_staging st) of
        (Some _, Some q) \<Rightarrow> st\<lparr>ct_sched_staging := Some (snd (q_push sched_queue_capacity q (clap_at (get_double L m ''beat'' (Fin 0)) ev)))\<rparr>
      | _ \<Rightarrow> push_in ev st)"

definition handle_param_set :: "edn_lib \<Rightarrow> edn_map \<Rightarrow> 'e control \<Rightarrow> 'e control" where
  "handle_param_set L m st = (case (ed_find_kw L m ''path'', ed_find_kw L m ''value'') of
     (Some p, Some v) \<Rightarrow> st\<lparr>ct_param_queue := snd (q_push param_queue_capacity (ct_param_queue st)
         \<lparr>pe_path = p, pe_value = v, pe_time = time_identity_new\<rparr>)\<rparr>
   | _ \<Rightarrow> st)"

text \<open>The arguments of an OSC message: integers, doubles and strings; other values are dropped.\<close>

fun osc_args :: "edn list \<Rightarrow> osc_arg list" where
  "osc_args [] = []"
| "osc_args (v # vs) = (case v of
     Edn_int i \<Rightarrow> make_i (of_int i) # osc_args vs
   | Edn_double d \<Rightarrow> make_f (to_float d) # osc_args vs
   | Edn_string s \<Rightarrow> make_s s # osc_args vs
   | _ \<Rightarrow> osc_args vs)"

definition build_osc_event_from_edn :: "'e control_env \<Rightarrow> edn_map \<Rightarrow> bool \<times> osc_event" where
  "build_osc_event_from_edn V m = (case (ed_find_kw (ce_edn V) m ''port'', ed_find_kw (ce_edn V) m ''address'') of
     (Some (Edn_int port), Some (Edn_string address)) \<Rightarrow>
       (let host = (case ed_find_kw (ce_edn V) m ''host'' of Some (Edn_string h) \<Rightarrow> h | _ \<Rightarrow> ''127.0.0.1'');
            args = (case ed_find_kw (ce_edn V) m ''args'' of Some (Edn_vector items) \<Rightarrow> osc_args items | _ \<Rightarrow> []) in
        build_osc_event (ce_pton V) host (of_int port) address args osc_event_new)
   | _ \<Rightarrow> (False, osc_event_new))"

text \<open>One event of a bundle; the anchor is the beat of the bundle.\<close>

definition bundle_event :: "'e control_env \<Rightarrow> fp \<Rightarrow> edn_map \<Rightarrow> scheduled_event option" where
  "bundle_event V anchor em =
     (let L = ce_edn V; at_tick = get_int L em ''at-tick'' 0;
          b = fadd F64 anchor (fdiv F64 (of_int_fp F64 at_tick) (Fin 24));
          type_v = ed_find_kw L em ''type'' in
      if type_v = Some (Edn_keyword ''osc'') then
        (case build_osc_event_from_edn V em of (True, oe) \<Rightarrow> Some (osc_at b oe) | (False, _) \<Rightarrow> None)
      else Some (clap_at b (note_of_map L (type_v \<noteq> Some (Edn_keyword ''note-off'')) em)))"

fun bundle_events :: "'e control_env \<Rightarrow> fp \<Rightarrow> edn list \<Rightarrow> scheduled_event list" where
  "bundle_events V anchor [] = []"
| "bundle_events V anchor (v # vs) = (case v of
     Edn_map em \<Rightarrow> (case bundle_event V anchor em of Some e \<Rightarrow> e # bundle_events V anchor vs | None \<Rightarrow> bundle_events V anchor vs)
   | _ \<Rightarrow> bundle_events V anchor vs)"

definition handle_schedule_bundle :: "'e control_env \<Rightarrow> edn_map \<Rightarrow> 'e control \<Rightarrow> 'e control" where
  "handle_schedule_bundle V m st =
     (case (ct_sched_staging st, ed_find_kw (ce_edn V) m ''at-beat'', ed_find_kw (ce_edn V) m ''events'') of
        (Some q, Some beat_v, Some (Edn_vector items)) \<Rightarrow>
          (let anchor = (case edn_double beat_v of Some b \<Rightarrow> b | None \<Rightarrow> Fin 0) in
           st\<lparr>ct_sched_staging := Some (push_all (q_push sched_queue_capacity) q (bundle_events V anchor items))\<rparr>)
      | _ \<Rightarrow> st)"

section \<open>MIDI\<close>

definition midi_byte :: "edn list \<Rightarrow> nat \<Rightarrow> u8" where
  "midi_byte items i = (if i < length items then (case items ! i of Edn_int b \<Rightarrow> of_int b | _ \<Rightarrow> 0) else 0)"

definition handle_midi_in :: "edn_lib \<Rightarrow> edn_map \<Rightarrow> 'e control \<Rightarrow> 'e control" where
  "handle_midi_in L m st = (case ed_find_kw L m ''data'' of
     Some (Edn_vector items) \<Rightarrow> push_in (Clap_midi
       \<lparr>me_live = False, me_time = 0, me_port = of_int (get_int L m ''port'' 0), me_data = map (midi_byte items) [0..<3]\<rparr>) st
   | _ \<Rightarrow> st)"

definition send_midi :: "'e control_env \<Rightarrow> 'e control \<Rightarrow> u8 list \<Rightarrow> effect list" where
  "send_midi V st bytes = (case ct_midi st of None \<Rightarrow> [] | Some p \<Rightarrow> map Eff_midi (send (ce_midi_ok V) p bytes))"

definition get_u8 :: "edn_lib \<Rightarrow> edn_map \<Rightarrow> string \<Rightarrow> u8" where
  "get_u8 L m kw = of_int (get_int L m kw 0)"

definition handle_cc :: "'e control_env \<Rightarrow> edn_map \<Rightarrow> 'e control \<Rightarrow> effect list" where
  "handle_cc V m st = send_midi V st
     [0xB0 OR (get_u8 (ce_edn V) m ''channel'' AND 0x0F), get_u8 (ce_edn V) m ''cc'', get_u8 (ce_edn V) m ''value'']"

definition handle_pitch_bend :: "'e control_env \<Rightarrow> edn_map \<Rightarrow> 'e control \<Rightarrow> effect list" where
  "handle_pitch_bend V m st =
     (let raw = max 0 (min 16383 (get_int (ce_edn V) m ''value'' 8192)) in
      send_midi V st [0xE0 OR (get_u8 (ce_edn V) m ''channel'' AND 0x0F), of_int (raw mod 128), of_int (raw div 128 mod 128)])"

definition handle_chan_pressure :: "'e control_env \<Rightarrow> edn_map \<Rightarrow> 'e control \<Rightarrow> effect list" where
  "handle_chan_pressure V m st = send_midi V st [0xD0 OR (get_u8 (ce_edn V) m ''channel'' AND 0x0F), get_u8 (ce_edn V) m ''value'']"

fun int_bytes :: "edn list \<Rightarrow> u8 list" where
  "int_bytes [] = []"
| "int_bytes (v # vs) = (case v of Edn_int i \<Rightarrow> of_int i # int_bytes vs | _ \<Rightarrow> int_bytes vs)"

definition handle_sysex :: "'e control_env \<Rightarrow> edn_map \<Rightarrow> 'e control \<Rightarrow> effect list" where
  "handle_sysex V m st = (case ed_find_kw (ce_edn V) m ''data'' of
     Some (Edn_vector items) \<Rightarrow> if int_bytes items = [] then [] else send_midi V st (int_bytes items)
   | _ \<Rightarrow> [])"

definition tuning_of :: "edn_map \<Rightarrow> (int \<rightharpoonup> fp)" where
  "tuning_of entries = fold (\<lambda>(k, v) t. case k of
     Edn_int i \<Rightarrow> t(wrap32 i \<mapsto> (case edn_double v of Some hz \<Rightarrow> hz | None \<Rightarrow> Fin 0)) | _ \<Rightarrow> t) entries (\<lambda>_. None)"

definition get_7bit :: "edn_lib \<Rightarrow> edn_map \<Rightarrow> string \<Rightarrow> u8 \<Rightarrow> u8" where
  "get_7bit L m kw d = (case ed_find_kw L m kw of Some (Edn_int i) \<Rightarrow> of_int i AND 0x7F | _ \<Rightarrow> d)"

text \<open>\<open>None\<close>: a conversion in the dump is undefined.\<close>

definition handle_mts :: "'e control_env \<Rightarrow> edn_map \<Rightarrow> 'e control \<Rightarrow> effect list option" where
  "handle_mts V m st = (case ed_find_kw (ce_edn V) m ''tuning'' of
     Some (Edn_map entries) \<Rightarrow>
       map_option (send_midi V st) (mts_bulk_dump (me_libm (ce_mod V)) (tuning_of entries)
         (get_7bit (ce_edn V) m ''tuning-prog'' 0) (get_7bit (ce_edn V) m ''device-id'' 0x7F))
   | _ \<Rightarrow> Some [])"

definition handle_osc :: "'e control_env \<Rightarrow> edn_map \<Rightarrow> osc_server \<Rightarrow> effect list" where
  "handle_osc V m srv = (case build_osc_event_from_edn V m of
     (True, ev) \<Rightarrow> [Eff_osc (send_event srv ev)]
   | (False, _) \<Rightarrow> [])"

section \<open>Sessions\<close>

definition edn_string :: "edn option \<Rightarrow> string" where
  "edn_string v = (case v of Some (Edn_string s) \<Rightarrow> s | _ \<Rightarrow> [])"

definition handle_register_source :: "edn_lib \<Rightarrow> edn_map \<Rightarrow> session \<Rightarrow> effect list" where
  "handle_register_source L m sess = (case ed_find_kw L m ''id'' of
     Some (Edn_keyword k) \<Rightarrow> register_source sess
       \<lparr>si_id = k, si_name = edn_string (ed_find_kw L m ''name''), si_description = edn_string (ed_find_kw L m ''description'')\<rparr>
   | _ \<Rightarrow> [])"

definition non_nil :: "edn option \<Rightarrow> edn option" where
  "non_nil v = (case v of Some Edn_nil \<Rightarrow> None | _ \<Rightarrow> v)"

definition entry_of_map :: "edn_lib \<Rightarrow> edn_map \<Rightarrow> tx_entry" where
  "entry_of_map L m =
     \<lparr>te_id = (case ed_find_kw L m ''id'' of
         Some (Edn_tagged t (Some (Edn_string s))) \<Rightarrow> if t = ''uuid'' then Some (parse_uuid (str_bytes s)) else None
       | _ \<Rightarrow> None),
      te_beat = (case ed_find_kw L m ''beat'' of Some v \<Rightarrow> edn_double v | None \<Rightarrow> None),
      te_wall_ns = (case ed_find_kw L m ''wall-ns'' of Some (Edn_int i) \<Rightarrow> Some i | _ \<Rightarrow> None),
      te_source = (case ed_find_kw L m ''source'' of Some (Edn_keyword k) \<Rightarrow> Some k | _ \<Rightarrow> None),
      te_path = ed_find_kw L m ''path'',
      te_before = non_nil (ed_find_kw L m ''before''),
      te_after = non_nil (ed_find_kw L m ''after''),
      te_parent = non_nil (ed_find_kw L m ''parent'')\<rparr>"

definition handle_tx_log :: "edn_lib \<Rightarrow> edn_map \<Rightarrow> session \<Rightarrow> effect list" where
  "handle_tx_log L m sess = session_emit sess (entry_of_map L m)"

section \<open>Evaluation and hot swap\<close>

text \<open>The text between the first two quotation marks.\<close>

definition quoted_part :: "string \<Rightarrow> string option" where
  "quoted_part s = (case dropWhile (\<lambda>c. c \<noteq> CHR 0x22) s of
     [] \<Rightarrow> None
   | _ # rest \<Rightarrow> if CHR 0x22 \<in> set rest then Some (takeWhile (\<lambda>c. c \<noteq> CHR 0x22) rest) else None)"

definition quote :: string where
  "quote = [CHR 0x22]"

definition tty_payload :: "string \<Rightarrow> string" where
  "tty_payload result =
     (if starts_with ''{:error'' result then
        (case quoted_part result of
           Some msg \<Rightarrow> ''{:result nil :error '' @ quote @ msg @ quote @ ''}''
         | None \<Rightarrow> ''{:result nil :error '' @ quote @ ''eval error'' @ quote @ ''}'')
      else ''{:result '' @ result @ '' :error nil}'')"

definition error_edn :: "string \<Rightarrow> string" where
  "error_edn msg = ''{:error '' @ quote @ msg @ quote @ ''}''"

definition fennel_eval :: "'e control_env \<Rightarrow> 'e control \<Rightarrow> string \<Rightarrow> string" where
  "fennel_eval V st src = (if ct_lua st then ce_lua_eval V src else error_edn ''LuaJIT not loaded'')"

definition handle_repl_eval :: "'e control_env \<Rightarrow> int \<Rightarrow> edn_map \<Rightarrow> 'e control \<Rightarrow> effect list" where
  "handle_repl_eval V conn_fd m st =
     (let L = ce_edn V; rid = edn_string (ed_find_kw L m ''id''); src = edn_string (ed_find_kw L m ''payload'');
          dest = (case ed_find_kw L m ''dest'' of Some (Edn_keyword k) \<Rightarrow> k | _ \<Rightarrow> []);
          result = (if dest = ''fennel'' \<or> dest = ''vcvrack-tty'' then fennel_eval V st src
                    else if dest = ''nous'' then error_edn ''nous forwarding not yet wired''
                    else error_edn ''unknown :dest'');
          resp = ''{:id '' @ quote @ rid @ quote @ '' :result '' @ result @ ''}'' in
      (if dest = ''vcvrack-tty'' \<and> ct_tty st then [Eff_tty (tty_payload result)] else []) @
      (if 0 \<le> conn_fd then [Eff_reply conn_fd msg_repl_eval resp] else []))"

definition handle_hot_swap :: "'e control_env \<Rightarrow> int \<Rightarrow> edn_map \<Rightarrow> 'e control \<Rightarrow> effect list" where
  "handle_hot_swap V conn_fd m st =
     (let L = ce_edn V; node_id = (case ed_find_kw L m ''node-id'' of Some (Edn_keyword k) \<Rightarrow> k | _ \<Rightarrow> []);
          wasm_path = edn_string (ed_find_kw L m ''wasm-path'') in
      if wasm_path = [] then []
      else
        let ok = (ct_swap st \<and> ce_swap_ok V node_id wasm_path);
            resp = (if ok then ''{:node-id :'' @ node_id @ '' :status :ok}''
                    else ''{:node-id :'' @ node_id @ '' :status :error :reason '' @ quote @ ''swap not wired'' @ quote @ ''}'') in
        (if ct_swap st then [Eff_swap node_id wasm_path] else []) @ [Eff_reply conn_fd msg_wasm_hot_swap resp])"

end
