(* ===== verification/Control_Thread.thy ===== *)
theory Control_Thread
  imports Control_Messages
begin

text \<open>
  The control thread (\<open>rt_control_thread.cpp\<close>): the dispatch of a message, the loop of a connection,
  the in-process frames, and the life of the listening socket.
\<close>

section \<open>Dispatch\<close>

type_synonym 'e dispatched = "(effect list \<times> 'e control \<times> session option) option"

text \<open>The default of the virtual function, used where no derived class overrides it.\<close>

definition dispatch_extension :: "'e control_env \<Rightarrow> int \<Rightarrow> message \<Rightarrow> 'e control \<Rightarrow> effect list" where
  "dispatch_extension V conn_fd msg st =
     (if h_type (m_hdr msg) \<noteq> msg_wasm_hot_swap then []
      else case payload_map (ce_edn V) (m_payload msg) of
        None \<Rightarrow> []
      | Some m \<Rightarrow> handle_hot_swap V conn_fd m st)"

text \<open>The three messages to the modulator engine.\<close>

definition dispatch_modulator :: "'e control_env \<Rightarrow> u8 \<Rightarrow> edn_map \<Rightarrow> 'e control \<Rightarrow> 'e control option" where
  "dispatch_modulator V t m st = (case ct_mod_engine st of
     None \<Rightarrow> Some st
   | Some e \<Rightarrow> map_option (\<lambda>e'. st\<lparr>ct_mod_engine := Some e'\<rparr>)
       (if t = msg_modulator_start then handle_modulator_start (ce_edn V) (ce_mod V) (ct_ext_registry st) m e
        else if t = msg_modulator_stop then Some (handle_modulator_stop (ce_edn V) m e)
        else handle_modulator_update (ce_edn V) (ce_mod V) m e))"

text \<open>The messages that end in \<open>midi_io::send\<close>; \<open>None\<close>: undefined.\<close>

definition dispatch_midi :: "'e control_env \<Rightarrow> u8 \<Rightarrow> edn_map \<Rightarrow> 'e control \<Rightarrow> effect list option" where
  "dispatch_midi V t m st = (case ct_midi st of
     None \<Rightarrow> Some []
   | Some _ \<Rightarrow>
       if t = msg_cc then Some (handle_cc V m st)
       else if t = msg_pitch_bend then Some (handle_pitch_bend V m st)
       else if t = msg_chan_pressure then Some (handle_chan_pressure V m st)
       else if t = msg_sysex then Some (handle_sysex V m st)
       else handle_mts V m st)"

text \<open>A message whose payload has been parsed to a map.\<close>

definition dispatch_map :: "'e control_env \<Rightarrow> int \<Rightarrow> u8 \<Rightarrow> edn_map \<Rightarrow> 'e control \<Rightarrow> session option \<Rightarrow> 'e dispatched" where
  "dispatch_map V conn_fd t m st sess =
     (let L = ce_edn V in
      if t = msg_register_source then
        Some ((case sess of None \<Rightarrow> [] | Some s \<Rightarrow> handle_register_source L m s), st, sess)
      else if t = msg_param_set then Some ([], handle_param_set L m st, sess)
      else if t = msg_note_on \<or> t = msg_note_off then Some ([], handle_note L (t = msg_note_on) m st, sess)
      else if t = msg_schedule_bundle then Some ([], handle_schedule_bundle V m st, sess)
      else if t = msg_midi_in then Some ([], handle_midi_in L m st, sess)
      else if t = msg_tx_log then
        Some ((case sess of None \<Rightarrow> [] | Some s \<Rightarrow> handle_tx_log L m s), st, sess)
      else if t \<in> {msg_modulator_start, msg_modulator_stop, msg_modulator_update} then
        map_option (\<lambda>st'. ([], st', sess)) (dispatch_modulator V t m st)
      else if t \<in> {msg_cc, msg_pitch_bend, msg_chan_pressure, msg_sysex, msg_mts} then
        map_option (\<lambda>effs. (effs, st, sess)) (dispatch_midi V t m st)
      else if t = msg_osc then Some ((case ct_osc st of None \<Rightarrow> [] | Some srv \<Rightarrow> handle_osc V m srv), st, sess)
      else if t = msg_repl_eval then Some (handle_repl_eval V conn_fd m st, st, sess)
      else Some ([], st, sess))"

definition handled_types :: "u8 list" where
  "handled_types = [msg_register_source, msg_param_set, msg_note_on, msg_note_off, msg_schedule_bundle, msg_midi_in,
     msg_tx_log, msg_modulator_start, msg_modulator_stop, msg_modulator_update, msg_cc, msg_pitch_bend,
     msg_chan_pressure, msg_sysex, msg_mts, msg_osc, msg_repl_eval]"

definition dispatch_message :: "'e control_env \<Rightarrow> int \<Rightarrow> message \<Rightarrow> 'e control \<Rightarrow> session option \<Rightarrow> 'e dispatched" where
  "dispatch_message V conn_fd msg st sess =
     (let t = h_type (m_hdr msg) in
      if t = msg_session_open then Some ([], st, session_open (ce_db_ok V))
      else if t = msg_session_close then Some ([], st, None)
      else if t \<in> set handled_types then
        (case payload_map (ce_edn V) (m_payload msg) of
           None \<Rightarrow> Some ([], st, sess)
         | Some m \<Rightarrow> dispatch_map V conn_fd t m st sess)
      else Some (dispatch_extension V conn_fd msg st, st, sess))"

text \<open>A frame handed over in memory; \<open>None\<close> is a null pointer. The rest of the header is zero.\<close>

definition dispatch_ctrl_frame :: "'e control_env \<Rightarrow> u8 list option \<Rightarrow> 'e control \<Rightarrow> (effect list \<times> 'e control) option" where
  "dispatch_ctrl_frame V buf st = (case buf of
     None \<Rightarrow> Some ([], st)
   | Some bs \<Rightarrow>
       if length bs < header_size then Some ([], st)
       else
         let payload_len = unat (bswap32 (le32 bs)) in
         if length bs - header_size < payload_len then Some ([], st)
         else
           let msg = \<lparr>m_hdr = \<lparr>h_payload_len = 0, h_type = bs ! 4, h_reserved = [0, 0, 0]\<rparr>,
                      m_payload = take payload_len (drop header_size bs)\<rparr> in
           map_option (\<lambda>(effs, st', _). (effs, st')) (dispatch_message V (- 1) msg st None))"

definition push_frame :: "u8 \<Rightarrow> string \<Rightarrow> 'e control \<Rightarrow> effect list" where
  "push_frame t payload st = (case ct_conn_write st of None \<Rightarrow> [] | Some fd \<Rightarrow> [Eff_reply fd t payload])"

definition set_tty_sink :: "bool \<Rightarrow> 'e control \<Rightarrow> 'e control" where
  "set_tty_sink fn st = st\<lparr>ct_tty := fn\<rparr>"

definition set_wasm_swap_fn :: "bool \<Rightarrow> 'e control \<Rightarrow> 'e control" where
  "set_wasm_swap_fn fn st = st\<lparr>ct_swap := fn\<rparr>"

section \<open>The listening socket\<close>

text \<open>\<open>c_str()\<close> ends at the first null; \<open>sun_path\<close> holds 108 characters on Linux, the target modelled
  here (104 on macOS), the last of them null.\<close>

definition c_str :: "string \<Rightarrow> string" where
  "c_str s = takeWhile (\<lambda>c. c \<noteq> CHR 0x00) s"

definition sun_path_size :: nat where
  "sun_path_size = 108"

text \<open>What the system answers when the thread starts.\<close>

record start_env =
  sv_socket_ok :: bool
  sv_bind_ok :: bool
  sv_listen_ok :: bool
  sv_has_luajit :: bool
  sv_lua_loads :: bool

definition make_listen_socket :: "start_env \<Rightarrow> string \<Rightarrow> effect list \<times> string option" where
  "make_listen_socket S path =
     (if \<not> sv_socket_ok S then ([], None)
      else
        let addr = take (sun_path_size - 1) (c_str path) in
        if \<not> sv_bind_ok S then ([Eff_unlink (c_str path), Eff_close_listen], None)
        else if \<not> sv_listen_ok S then ([Eff_unlink (c_str path), Eff_bind addr, Eff_close_listen], None)
        else ([Eff_unlink (c_str path), Eff_bind addr], Some addr))"

definition ct_start :: "start_env \<Rightarrow> 'e control \<Rightarrow> effect list \<times> 'e control" where
  "ct_start S st = (case make_listen_socket S (ct_socket_path st) of
     (effs, None) \<Rightarrow> (effs, st\<lparr>ct_listen := None\<rparr>)
   | (effs, Some addr) \<Rightarrow>
       let lua = (if sv_has_luajit S \<and> \<not> ct_lua st then sv_lua_loads S else ct_lua st) in
       (effs @ (if lua \<and> ct_swap st then [Eff_register_swap] else []),
        st\<lparr>ct_listen := Some addr, ct_lua := lua, ct_running := True\<rparr>))"

definition ct_stop :: "'e control \<Rightarrow> effect list \<times> 'e control" where
  "ct_stop st =
     (if \<not> ct_running st then ([], st)
      else
        ((case ct_conn_write st of None \<Rightarrow> [] | Some fd \<Rightarrow> [Eff_shutdown fd]) @
         (case ct_listen st of None \<Rightarrow> [] | Some _ \<Rightarrow> [Eff_close_listen, Eff_unlink (c_str (ct_socket_path st))]),
         st\<lparr>ct_running := False, ct_listen := None\<rparr>))"

definition ct_is_running :: "'e control \<Rightarrow> bool" where
  "ct_is_running st = ct_running st"

section \<open>Connections\<close>

text \<open>
  The loop of a connection. Another thread may call \<open>stop\<close> at any time: \<open>loads\<close> are the values the
  coming loads of \<open>running_\<close> return, \<open>True\<close> once the list is used up. A result \<open>None\<close> means that a
  message led to undefined behaviour.
\<close>

function conn_loop :: "'e control_env \<Rightarrow> int \<Rightarrow> bool list \<Rightarrow> rfd \<Rightarrow> 'e control \<Rightarrow> session option \<Rightarrow> (effect list \<times> 'e control \<times> bool list) option" where
  "conn_loop V conn_fd loads fd st sess =
     (if loads \<noteq> [] \<and> \<not> hd loads then Some ([], st, loads)
      else case read_message fd of
        (Inl e, fd') \<Rightarrow> Some ([], st, tl loads)
      | (Inr msg, fd') \<Rightarrow>
          (case dispatch_message V conn_fd msg st sess of
             None \<Rightarrow> None
           | Some (effs, st', sess') \<Rightarrow>
               (case conn_loop V conn_fd (tl loads) fd' st' sess' of
                  None \<Rightarrow> None
                | Some (effs', r) \<Rightarrow> Some (effs @ effs', r))))"
  by pat_completeness auto
termination
  by (relation "measure (\<lambda>(V, c, loads, fd, st, sess). length (rf_bytes fd))") (auto dest: read_message_shrinks [OF sym])

declare conn_loop.simps [simp del]

definition handle_connection :: "'e control_env \<Rightarrow> int \<Rightarrow> bool list \<Rightarrow> rfd \<Rightarrow> 'e control \<Rightarrow> (effect list \<times> 'e control \<times> bool list) option" where
  "handle_connection V conn_fd loads fd st =
     map_option (\<lambda>(effs, st', loads'). (effs, st'\<lparr>ct_conn_write := None\<rparr>, loads'))
       (conn_loop V conn_fd loads fd (st\<lparr>ct_conn_write := Some conn_fd\<rparr>) None)"

text \<open>The outcomes of the coming \<open>accept\<close> calls; when they are used up the socket has been closed.\<close>

datatype accepted = Acc_conn int rfd | Acc_err nat

fun ct_run :: "'e control_env \<Rightarrow> bool list \<Rightarrow> accepted list \<Rightarrow> 'e control \<Rightarrow> (effect list \<times> 'e control) option" where
  "ct_run V loads [] st = Some ([], st)"
| "ct_run V loads (a # as) st =
     (if loads \<noteq> [] \<and> \<not> hd loads then Some ([], st)
      else case a of
        Acc_err e \<Rightarrow> if e = EINTR then ct_run V (tl loads) as st else Some ([], st)
      | Acc_conn conn_fd fd \<Rightarrow>
          (case handle_connection V conn_fd (tl loads) fd st of
             None \<Rightarrow> None
           | Some (effs, st', loads') \<Rightarrow>
               (case ct_run V loads' as st' of None \<Rightarrow> None | Some (effs', st'') \<Rightarrow> Some (effs @ Eff_close conn_fd # effs', st''))))"

section \<open>Invariant\<close>

text \<open>The queues and the engine the thread writes to are well formed.\<close>

definition control_wf :: "'e control \<Rightarrow> bool" where
  "control_wf st = (q_invar param_queue_capacity (ct_param_queue st) \<and> q_invar in_queue_capacity (ct_in_queue st) \<and>
     pred_option (q_invar sched_queue_capacity) (ct_sched_staging st) \<and> pred_option engine_wf (ct_mod_engine st))"

named_theorems control_wf_intros

lemma push_in_wf [control_wf_intros]: "control_wf st \<Longrightarrow> control_wf (push_in ev st)"
  by (simp add: control_wf_def push_in_def spsc.push_invar)

lemma handle_note_wf [control_wf_intros]: "control_wf st \<Longrightarrow> control_wf (handle_note L b m st)"
  using push_in_wf [of st]
  by (auto simp: handle_note_def Let_def control_wf_def spsc.push_invar split: option.splits)

lemma handle_param_set_wf [control_wf_intros]: "control_wf st \<Longrightarrow> control_wf (handle_param_set L m st)"
  by (auto simp: handle_param_set_def control_wf_def spsc.push_invar split: option.splits)

lemma push_all_staging:
  "q_invar sched_queue_capacity q \<Longrightarrow>
   q_invar sched_queue_capacity (push_all (q_push sched_queue_capacity) q es) \<and>
   q_list sched_queue_capacity (push_all (q_push sched_queue_capacity) q es) = take 1023 (q_list sched_queue_capacity q @ es)"
  using spsc.push_all_spec [of sched_queue_capacity q es] q_list_length [of sched_queue_capacity q]
  by (simp add: sched_queue_capacity_def)

lemma handle_schedule_bundle_wf [control_wf_intros]: "control_wf st \<Longrightarrow> control_wf (handle_schedule_bundle V m st)"
  by (auto simp: handle_schedule_bundle_def control_wf_def Let_def push_all_staging split: option.splits edn.splits)

lemma handle_midi_in_wf [control_wf_intros]: "control_wf st \<Longrightarrow> control_wf (handle_midi_in L m st)"
  by (auto simp: handle_midi_in_def push_in_wf split: option.splits edn.splits)

lemma handle_modulator_start_wf:
  "engine_wf e \<Longrightarrow> handle_modulator_start L E reg m e = Some e' \<Longrightarrow> engine_wf e'"
  by (auto simp: handle_modulator_start_def Let_def engine_start_wf split: option.splits if_splits)

lemma handle_modulator_stop_wf: "engine_wf e \<Longrightarrow> engine_wf (handle_modulator_stop L m e)"
  by (auto simp: handle_modulator_stop_def engine_stop_wf split: option.splits)

lemma handle_modulator_update_wf:
  "engine_wf e \<Longrightarrow> handle_modulator_update L E m e = Some e' \<Longrightarrow> engine_wf e'"
  by (auto simp: handle_modulator_update_def Let_def dest: update_param_wf split: option.splits if_splits)

lemma dispatch_modulator_wf:
  "control_wf st \<Longrightarrow> dispatch_modulator V t m st = Some st' \<Longrightarrow> control_wf st'"
  by (auto simp: dispatch_modulator_def control_wf_def handle_modulator_stop_wf
      dest: handle_modulator_start_wf handle_modulator_update_wf split: option.splits if_splits)

lemma dispatch_map_wf:
  assumes "control_wf st" "dispatch_map V c t m st sess = Some (effs, st', sess')"
  shows "control_wf st'"
  using assms by (auto simp: dispatch_map_def Let_def control_wf_intros dest: dispatch_modulator_wf split: if_splits)

lemma dispatch_message_wf:
  "control_wf st \<Longrightarrow> dispatch_message V c msg st sess = Some (effs, st', sess') \<Longrightarrow> control_wf st'"
  by (auto simp: dispatch_message_def Let_def dest: dispatch_map_wf split: if_splits option.splits)

lemma conn_loop_step:
  assumes "read_message fd = (Inr msg, fd')" "loads = [] \<or> hd loads"
  shows "conn_loop V c loads fd st sess = (case dispatch_message V c msg st sess of
      None \<Rightarrow> None
    | Some (effs, st', sess') \<Rightarrow> map_option (\<lambda>(effs', r). (effs @ effs', r)) (conn_loop V c (tl loads) fd' st' sess'))"
  using assms by (subst conn_loop.simps) (auto split: option.splits)

lemma conn_loop_end:
  "loads \<noteq> [] \<Longrightarrow> \<not> hd loads \<Longrightarrow> conn_loop V c loads fd st sess = Some ([], st, loads)"
  "read_message fd = (Inl e, fd') \<Longrightarrow> loads = [] \<or> hd loads \<Longrightarrow> conn_loop V c loads fd st sess = Some ([], st, tl loads)"
  by (subst conn_loop.simps; auto)+

lemma conn_loop_wf:
  "control_wf st \<Longrightarrow> conn_loop V c loads fd st sess = Some (effs, st', loads') \<Longrightarrow> control_wf st'"
proof (induction V c loads fd st sess arbitrary: effs rule: conn_loop.induct)
  case (1 V c loads fd st sess)
  obtain r fd' where r: "read_message fd = (r, fd')" by fastforce
  show ?case
  proof (cases "loads \<noteq> [] \<and> \<not> hd loads")
    case False
    then have go: "loads = [] \<or> hd loads" by blast
    show ?thesis
    proof (cases r)
      case (Inr msg)
      with 1(3) obtain effs1 st1 sess1 effs2 where d: "dispatch_message V c msg st sess = Some (effs1, st1, sess1)"
        "conn_loop V c (tl loads) fd' st1 sess1 = Some (effs2, st', loads')"
        using conn_loop_step [OF r [unfolded Inr] go, of V c st sess] by (auto split: option.splits)
      show ?thesis using 1(1) [OF False r [symmetric] Inr d(1) refl refl dispatch_message_wf [OF 1(2) d(1)] d(2)] .
    next
      case (Inl e)
      with 1(2,3) r conn_loop_end(2) [of fd e fd' loads V c st sess] go show ?thesis by simp
    qed
  next
    case True
    with 1(2,3) conn_loop_end(1) [of loads V c fd st sess] show ?thesis by simp
  qed
qed

lemma conn_write_wf [simp]: "control_wf (st\<lparr>ct_conn_write := c\<rparr>) = control_wf st"
  by (simp add: control_wf_def)

lemma handle_connection_wf:
  "control_wf st \<Longrightarrow> handle_connection V c loads fd st = Some (effs, st', loads') \<Longrightarrow> control_wf st'"
  using conn_loop_wf [of "st\<lparr>ct_conn_write := Some c\<rparr>" V c loads fd None] by (auto simp: handle_connection_def)

lemma ct_run_wf: "control_wf st \<Longrightarrow> ct_run V loads as st = Some (effs, st') \<Longrightarrow> control_wf st'"
proof (induction "as" arbitrary: loads st effs)
  case (Cons a "as")
  show ?case
  proof (cases "loads \<noteq> [] \<and> \<not> hd loads")
    case go: False
    show ?thesis
    proof (cases a)
      case (Acc_conn c fd)
      then obtain effs1 st1 loads1 effs2 where s: "handle_connection V c (tl loads) fd st = Some (effs1, st1, loads1)"
        "ct_run V loads1 as st1 = Some (effs2, st')"
        using Cons.prems(2) go by (auto split: option.splits)
      show ?thesis by (rule Cons.IH [OF handle_connection_wf [OF Cons.prems(1) s(1)] s(2)])
    next
      case (Acc_err e)
      with Cons.prems go show ?thesis by (auto split: if_splits intro: Cons.IH)
    qed
  qed (use Cons.prems in auto)
qed simp

section \<open>Connections as sequences of messages\<close>

text \<open>The specification of a connection: its messages are dispatched one after the other.\<close>

fun dispatch_all :: "'e control_env \<Rightarrow> int \<Rightarrow> (u8 \<times> u8 list) list \<Rightarrow> 'e control \<Rightarrow> session option \<Rightarrow> (effect list \<times> 'e control) option" where
  "dispatch_all V c [] st sess = Some ([], st)"
| "dispatch_all V c ((t, p) # ms) st sess =
     (case dispatch_message V c \<lparr>m_hdr = frame_header t p, m_payload = p\<rparr> st sess of
        None \<Rightarrow> None
      | Some (effs, st', sess') \<Rightarrow> map_option (\<lambda>(effs', st''). (effs @ effs', st'')) (dispatch_all V c ms st' sess'))"

lemma read_message_eof:
  assumes "rd_benign fd" "rf_bytes fd = []"
  shows "\<exists>fd'. read_message fd = (Inl Ce_eof, fd')"
  using read_exact_benign [OF assms(1), of 8] assms(2) by (auto simp: read_message_def header_size_def read_error_def)

lemma conn_loop_frames:
  assumes "rd_benign fd" "rf_bytes fd = concat (map (\<lambda>(t, p). frame t p) ms)" "list_all (\<lambda>(t, p). fits p) ms"
  shows "map_option (\<lambda>(effs, st', _). (effs, st')) (conn_loop V c [] fd st sess) = dispatch_all V c ms st sess"
  using assms
proof (induction ms arbitrary: fd st sess)
  case Nil
  then obtain fd' where "read_message fd = (Inl Ce_eof, fd')" using read_message_eof by auto
  then show ?case by (simp add: conn_loop_end(2))
next
  case (Cons x ms)
  obtain t p where x: "x = (t, p)" by fastforce
  obtain fd1 where fd1: "read_message fd = (Inr \<lparr>m_hdr = frame_header t p, m_payload = p\<rparr>, fd1)"
    "rf_bytes fd1 = concat (map (\<lambda>(t, p). frame t p) ms)" "rd_benign fd1"
    using read_message_benign [OF Cons.prems(1), of t p] Cons.prems(2,3) x by auto
  have rest: "list_all (\<lambda>(t, p). fits p) ms" using Cons.prems(3) by simp
  note IH = Cons.IH [OF fd1(3,2) rest, symmetric]
  show ?case unfolding x dispatch_all.simps conn_loop_step [OF fd1(1) disjI1 [OF refl]] IH list.sel
    by (auto split: option.splits simp: option.map_comp comp_def split_def)
qed

text \<open>Of a header only the type matters.\<close>

lemma dispatch_type_only:
  "h_type h = h_type h' \<Longrightarrow>
   dispatch_message V c \<lparr>m_hdr = h, m_payload = p\<rparr> st sess = dispatch_message V c \<lparr>m_hdr = h', m_payload = p\<rparr> st sess"
  by (simp add: dispatch_message_def dispatch_extension_def Let_def)

lemma frame_parts:
  assumes "length p < 2 ^ 32"
  shows "unat (bswap32 (le32 (frame t p @ rest))) = length p" "(frame t p @ rest) ! 4 = t"
    "drop header_size (frame t p @ rest) = p @ rest" "length (frame t p) = header_size + length p"
proof -
  let ?n = "of_nat (length p) :: u32"
  have "take 4 (frame t p @ rest) = u32_be ?n" by (simp add: frame_def)
  moreover have "4 \<le> length (frame t p @ rest)" by (simp add: frame_def)
  ultimately have "bswap32 (le32 (frame t p @ rest)) = ?n" using be32_u32_be [of ?n "[]"] by (subst bswap_le32) simp_all
  then show "unat (bswap32 (le32 (frame t p @ rest))) = length p" using assms by (simp add: unat_of_nat take_bit_nat_eq_self)
  show "(frame t p @ rest) ! 4 = t" by (simp add: frame_def nth_append)
  show "drop header_size (frame t p @ rest) = p @ rest" by (simp add: frame_def header_size_def)
  show "length (frame t p) = header_size + length p" by (simp add: frame_def header_size_def)
qed

text \<open>UUIDs: the canonical text of sixteen bytes, in lower case.\<close>

definition hex_digit :: "u8 \<Rightarrow> u8" where
  "hex_digit n = (if n < 10 then n + 48 else n + 87)"

definition hex_byte :: "u8 \<Rightarrow> u8 list" where
  "hex_byte b = [hex_digit (drop_bit 4 b), hex_digit (b AND 15)]"

definition uuid_text :: "u8 list \<Rightarrow> u8 list" where
  "uuid_text bs = concat (map hex_byte (take 4 bs)) @ 45 # concat (map hex_byte (take 2 (drop 4 bs))) @
     45 # concat (map hex_byte (take 2 (drop 6 bs))) @ 45 # concat (map hex_byte (take 2 (drop 8 bs))) @
     45 # concat (map hex_byte (drop 10 bs))"

lemma u8_nibbles: "push_bit 4 (drop_bit 4 b) OR (b AND 15) = (b :: u8)"
proof -
  have "b AND 15 = take_bit 4 b" by (simp add: take_bit_eq_mask mask_eq_exp_minus_1)
  then show ?thesis by (simp add: bit_eq_iff bit_simps) auto
qed

lemma hex_digits_all: "list_all (\<lambda>k. hex_nibble (hex_digit (of_nat k)) = of_nat k \<and> hex_digit (of_nat k) \<noteq> 45) [0..<16]"
  by code_simp

lemma hex_digit_ok:
  assumes "n < 16"
  shows "hex_nibble (hex_digit n) = n" "hex_digit n \<noteq> 45"
proof -
  have "unat n \<in> set [0..<16]" using assms by (simp add: word_less_nat_alt)
  from bspec [OF hex_digits_all [unfolded list_all_iff] this]
  show "hex_nibble (hex_digit n) = n" "hex_digit n \<noteq> 45" by simp_all
qed

lemma hex_byte_ok:
  "hex_digit (drop_bit 4 b) \<noteq> 45" "hex_digit (b AND 15) \<noteq> 45"
  "push_bit 4 (hex_nibble (hex_digit (drop_bit 4 b))) OR hex_nibble (hex_digit (b AND 15)) = (b :: u8)"
proof -
  have "b AND 15 \<le> 15" by (rule word_and_le1)
  then have l: "b AND 15 < 16" by (simp add: word_le_nat_alt word_less_nat_alt)
  have "unat b < 256" using unsigned_less [of b] by simp
  then have "unat (drop_bit 4 b) < 16" by (simp add: unat_div drop_bit_eq_div)
  then have h: "drop_bit 4 b < 16" by (simp add: word_less_nat_alt)
  show "hex_digit (drop_bit 4 b) \<noteq> 45" "hex_digit (b AND 15) \<noteq> 45" using hex_digit_ok l h by blast+
  show "push_bit 4 (hex_nibble (hex_digit (drop_bit 4 b))) OR hex_nibble (hex_digit (b AND 15)) = b"
    using hex_digit_ok(1) l h u8_nibbles by simp
qed

text \<open>The loop over the canonical text, group by group.\<close>

lemma uuid_bytes_dash: "i < 36 \<Longrightarrow> bi < 16 \<Longrightarrow> s ! i = 45 \<Longrightarrow> uuid_bytes s i bi = uuid_bytes s (i + 1) bi"
  by (subst uuid_bytes.simps) simp

lemma uuid_bytes_end: "bi = 16 \<Longrightarrow> uuid_bytes s i bi = []"
  by (subst uuid_bytes.simps) simp

lemma uuid_bytes_group:
  assumes "length pre = i" "i + 2 * length bs \<le> 36" "bi + length bs \<le> 16" "s = pre @ concat (map hex_byte bs) @ post"
  shows "uuid_bytes s i bi = bs @ uuid_bytes s (i + 2 * length bs) (bi + length bs)"
  using assms
proof (induction bs arbitrary: pre i bi)
  case (Cons b bs)
  have s: "s ! i = hex_digit (drop_bit 4 b)" "(s @ [0]) ! (i + 1) = hex_digit (b AND 15)"
    using Cons.prems(1,4) by (auto simp: hex_byte_def nth_append)
  have "uuid_bytes s i bi = b # uuid_bytes s (i + 2) (bi + 1)"
    using Cons.prems(2,3) hex_byte_ok [of b] s by (subst uuid_bytes.simps) simp
  also have "uuid_bytes s (i + 2) (bi + 1) = bs @ uuid_bytes s (i + 2 + 2 * length bs) (bi + 1 + length bs)"
    using Cons.prems by (intro Cons.IH [of "pre @ hex_byte b"]) (auto simp: hex_byte_def)
  finally show ?case by simp
qed simp

text \<open>A thread with its queues and an engine, no libraries loaded and no callbacks.\<close>

definition control_new :: "string \<Rightarrow> unit control" where
  "control_new path = \<lparr>ct_param_queue = q_new param_queue_capacity \<lparr>pe_path = Edn_nil, pe_value = Edn_nil, pe_time = time_identity_new\<rparr>,
     ct_in_queue = q_new in_queue_capacity (Clap_other 0),
     ct_sched_staging = Some (q_new sched_queue_capacity (clap_at (Fin 0) (Clap_other 0))),
     ct_mod_engine = Some engine_new, ct_ext_registry = None, ct_midi = None, ct_osc = None, ct_lua = False, ct_tty = False,
     ct_swap = False, ct_socket_path = path, ct_listen = None, ct_running = False, ct_conn_write = None\<rparr>"

definition env_of :: "edn_lib \<Rightarrow> unit control_env" where
  "env_of L = \<lparr>ce_edn = L, ce_mod = plain_env, ce_pton = \<lambda>_. None, ce_midi_ok = True, ce_db_ok = True,
     ce_lua_eval = \<lambda>s. s, ce_swap_ok = \<lambda>_ _. True\<rparr>"

lemma param_queue_capacity_ok: "q_capacity_ok param_queue_capacity"
  unfolding q_capacity_ok_def param_queue_capacity_def by (intro conjI exI [of _ 9]) simp_all

lemma control_new_wf: "control_wf (control_new path)"
  by (simp add: control_wf_def control_new_def q_new_invar queue_capacities_ok param_queue_capacity_ok)

lemmas msg_type_defs = msg_session_open_def msg_session_close_def msg_register_source_def msg_param_set_def msg_note_on_def
  msg_note_off_def msg_schedule_bundle_def msg_midi_in_def msg_tx_log_def msg_modulator_start_def msg_modulator_stop_def
  msg_modulator_update_def msg_cc_def msg_pitch_bend_def msg_chan_pressure_def msg_sysex_def msg_mts_def msg_osc_def msg_repl_eval_def

lemma map_option_effs:
  "map_option (\<lambda>(effs, st, _). (effs, st)) x = Some (effs, st) \<Longrightarrow> map_option (\<lambda>(effs, st, _). effs) x = Some effs"
  by (cases x) auto

section \<open>Properties\<close>

text \<open>C24: a connection over which a client sends frames of at most 1 MiB, split and interrupted in any way
  on both sides, has exactly the effect of dispatching those messages one after the other; the loop
  returns, and the thread is then ready for the next client.\<close>

theorem connection_dispatches_frames:
  assumes "list_all (\<lambda>(t, p). fits p) ms" "wr_benign w" "wf_out w = []" "rd_benign r"
    and "rf_bytes r = wf_out (snd (write_messages ms w))"
  shows "map_option (\<lambda>(effs, st', _). (effs, st')) (handle_connection V c [] r st) =
    map_option (\<lambda>(effs, st'). (effs, st'\<lparr>ct_conn_write := None\<rparr>)) (dispatch_all V c ms (st\<lparr>ct_conn_write := Some c\<rparr>) None)"
proof -
  have "rf_bytes r = concat (map (\<lambda>(t, p). frame t p) ms)" using write_messages_benign [OF assms(2,1)] assms(3,5) by auto
  from conn_loop_frames [OF assms(4) this assms(1), of V c "st\<lparr>ct_conn_write := Some c\<rparr>" None, symmetric]
  show ?thesis by (simp add: handle_connection_def option.map_comp comp_def split_def)
qed

theorem connection_dispatches_frames_witness:
  "let V = env_of (edn_table [([1], Edn_map [(Edn_keyword ''dest'', Edn_keyword ''nous'')])]);
       w = \<lparr>wf_out = [], wf_plan = [Wr_chunk 2, Wr_err EINTR]\<rparr>;
       r = \<lparr>rf_bytes = wf_out (snd (write_messages [(0x31, []), (0x55, [1])] w)), rf_plan = [Rd_err EINTR, Rd_chunk 4]\<rparr> in
   map_option (\<lambda>(effs, st', _). effs) (handle_connection V 7 [] r (control_new ''s'')) =
     Some [Eff_reply 7 0x55 (''{:id '' @ quote @ quote @ '' :result '' @ error_edn ''nous forwarding not yet wired'' @ ''}'')]"
proof -
  define V where "V = env_of (edn_table [([1], Edn_map [(Edn_keyword ''dest'', Edn_keyword ''nous'')])])"
  let ?ms = "[(0x31, []), (0x55, [1])] :: (u8 \<times> u8 list) list"
  let ?w = "\<lparr>wf_out = [], wf_plan = [Wr_chunk 2, Wr_err EINTR]\<rparr>"
  let ?r = "\<lparr>rf_bytes = wf_out (snd (write_messages ?ms ?w)), rf_plan = [Rd_err EINTR, Rd_chunk 4]\<rparr>"
  have "list_all (\<lambda>(t, p). fits p) ?ms" "wr_benign ?w" "wf_out ?w = []" "rd_benign ?r"
    "rf_bytes ?r = wf_out (snd (write_messages ?ms ?w))"
    by (simp_all add: fits_def wr_benign_def rd_benign_def)
  from connection_dispatches_frames [OF this, of V 7 "control_new ''s''"]
  have eq: "map_option (\<lambda>(effs, st', _). (effs, st')) (handle_connection V 7 [] ?r (control_new ''s'')) =
    map_option (\<lambda>(effs, st'). (effs, st'\<lparr>ct_conn_write := None\<rparr>)) (dispatch_all V 7 ?ms ((control_new ''s'')\<lparr>ct_conn_write := Some 7\<rparr>) None)"
    by simp
  let ?effs = "[Eff_reply 7 0x55 (''{:id '' @ quote @ quote @ '' :result '' @ error_edn ''nous forwarding not yet wired'' @ ''}'')]"
  obtain st' where "dispatch_all V 7 ?ms ((control_new ''s'')\<lparr>ct_conn_write := Some 7\<rparr>) None = Some (?effs, st')"
    by (simp add: V_def dispatch_message_def dispatch_map_def frame_header_def handled_types_def msg_type_defs
        payload_map_def env_of_def edn_table_def edn_is_map_def handle_repl_eval_def Let_def edn_string_def)
  from map_option_effs [OF eq [unfolded this option.map prod.case]]
  show ?thesis unfolding V_def [symmetric] Let_def .
qed

text \<open>A message with an empty payload, or one that does not parse to a map, has no effect at all
  (sessions are opened and closed without a payload).\<close>

theorem malformed_payload_ignored:
  assumes "payload_map (ce_edn V) (m_payload msg) = None"
    and "h_type (m_hdr msg) \<noteq> msg_session_open" "h_type (m_hdr msg) \<noteq> msg_session_close"
  shows "dispatch_message V c msg st sess = Some ([], st, sess)"
  using assms by (simp add: dispatch_message_def dispatch_extension_def Let_def)

theorem malformed_payload_ignored_witness:
  "dispatch_message (env_of (edn_table [([1], Edn_int 3)])) 5 \<lparr>m_hdr = frame_header 0x46 [1], m_payload = [1]\<rparr> (control_new ''s'') None =
     Some ([], control_new ''s'', None)"
  by (rule malformed_payload_ignored)
    (simp_all add: payload_map_def env_of_def edn_table_def edn_is_map_def frame_header_def msg_type_defs)

text \<open>C26: a frame handed over in memory acts like the same message on a connection without a session
  and a descriptor to reply to, whatever follows it in the buffer; a buffer shorter than its frame has no effect.\<close>

theorem ctrl_frame_as_message:
  assumes "length p < 2 ^ 32"
  shows "dispatch_ctrl_frame V (Some (frame t p @ rest)) st =
      map_option (\<lambda>(effs, st', _). (effs, st')) (dispatch_message V (- 1) \<lparr>m_hdr = frame_header t p, m_payload = p\<rparr> st None) \<and>
    (k < length (frame t p) \<longrightarrow> dispatch_ctrl_frame V (Some (take k (frame t p))) st = Some ([], st))"
proof
  show "dispatch_ctrl_frame V (Some (frame t p @ rest)) st =
      map_option (\<lambda>(effs, st', _). (effs, st')) (dispatch_message V (- 1) \<lparr>m_hdr = frame_header t p, m_payload = p\<rparr> st None)"
    using frame_parts(1-3) [OF assms, of t rest] frame_parts(4) [OF assms, of t]
      dispatch_type_only [of "\<lparr>h_payload_len = 0, h_type = t, h_reserved = [0, 0, 0]\<rparr>" "frame_header t p" V "- 1" p st]
    by (simp add: dispatch_ctrl_frame_def Let_def frame_header_def)
  show "k < length (frame t p) \<longrightarrow> dispatch_ctrl_frame V (Some (take k (frame t p))) st = Some ([], st)"
  proof
    assume k: "k < length (frame t p)"
    show "dispatch_ctrl_frame V (Some (take k (frame t p))) st = Some ([], st)"
    proof (cases "k < header_size")
      case False
      then have "le32 (take k (frame t p)) = le32 (frame t p)" by (simp add: le32_def header_size_def)
      moreover have "k - header_size < length p" using k False frame_parts(4) [OF assms, of t] by simp
      ultimately show ?thesis using k False frame_parts(1) [OF assms, of t "[]"]
        by (simp add: dispatch_ctrl_frame_def Let_def)
    qed (use k in \<open>simp add: dispatch_ctrl_frame_def\<close>)
  qed
qed

theorem ctrl_frame_as_message_witness:
  "dispatch_ctrl_frame (env_of (edn_table [])) (Some (frame 0x31 [1, 2] @ [9])) (control_new ''s'') =
     map_option (\<lambda>(effs, st', _). (effs, st'))
       (dispatch_message (env_of (edn_table [])) (- 1) \<lparr>m_hdr = frame_header 0x31 [1, 2], m_payload = [1, 2]\<rparr> (control_new ''s'') None) \<and>
   dispatch_ctrl_frame (env_of (edn_table [])) (Some (take 9 (frame 0x31 [1, 2]))) (control_new ''s'') = Some ([], control_new ''s'')"
  using ctrl_frame_as_message [of "[1, 2]" "env_of (edn_table [])" "0x31" "[9]" "control_new ''s''" 9] by (simp add: frame_def)

text \<open>C27: the canonical text of a UUID is parsed back to its sixteen bytes.\<close>

theorem uuid_roundtrip:
  assumes "length bs = 16"
  shows "parse_uuid (uuid_text bs) = bs"
proof -
  let ?g1 = "take 4 bs" let ?g2 = "take 2 (drop 4 bs)" let ?g3 = "take 2 (drop 6 bs)" let ?g4 = "take 2 (drop 8 bs)"
  let ?t = "uuid_text bs" let ?h = "\<lambda>xs. concat (map hex_byte xs)"
  have len [simp]: "length (?h xs) = 2 * length xs" for xs by (induction xs) (simp_all add: hex_byte_def)
  note l = assms len uuid_text_def nth_append
  have dash: "?t ! 8 = 45" "?t ! 13 = 45" "?t ! 18 = 45" "?t ! 23 = 45" "length ?t = 36" by (simp_all add: l)
  have "uuid_bytes ?t 0 0 = ?g1 @ uuid_bytes ?t 8 4"
    using uuid_bytes_group [of "[]" 0 ?g1 0 ?t] assms by (simp add: uuid_text_def)
  also have "uuid_bytes ?t 8 4 = ?g2 @ uuid_bytes ?t 13 6"
    using uuid_bytes_dash [OF _ _ dash(1), of 4] uuid_bytes_group [of "?h ?g1 @ [45]" 9 ?g2 4 ?t] assms by (simp add: uuid_text_def)
  also have "uuid_bytes ?t 13 6 = ?g3 @ uuid_bytes ?t 18 8"
    using uuid_bytes_dash [OF _ _ dash(2), of 6] uuid_bytes_group [of "?h ?g1 @ 45 # ?h ?g2 @ [45]" 14 ?g3 6 ?t] assms by (simp add: uuid_text_def)
  also have "uuid_bytes ?t 18 8 = ?g4 @ uuid_bytes ?t 23 10"
    using uuid_bytes_dash [OF _ _ dash(3), of 8]
      uuid_bytes_group [of "?h ?g1 @ 45 # ?h ?g2 @ 45 # ?h ?g3 @ [45]" 19 ?g4 8 ?t] assms by (simp add: uuid_text_def)
  also have "uuid_bytes ?t 23 10 = drop 10 bs @ uuid_bytes ?t 36 16"
    using uuid_bytes_dash [OF _ _ dash(4), of 10]
      uuid_bytes_group [of "?h ?g1 @ 45 # ?h ?g2 @ 45 # ?h ?g3 @ 45 # ?h ?g4 @ [45]" 24 "drop 10 bs" 10 ?t] assms by (simp add: uuid_text_def)
  finally have "uuid_bytes ?t 0 0 = ?g1 @ ?g2 @ ?g3 @ ?g4 @ drop 10 bs" by (simp add: uuid_bytes_end)
  also have "?g4 @ drop 10 bs = drop 8 bs" using append_take_drop_id [of 2 "drop 8 bs"] by (simp del: append_take_drop_id)
  also have "?g3 @ drop 8 bs = drop 6 bs" using append_take_drop_id [of 2 "drop 6 bs"] by (simp del: append_take_drop_id)
  also have "?g2 @ drop 6 bs = drop 4 bs" using append_take_drop_id [of 2 "drop 4 bs"] by (simp del: append_take_drop_id)
  finally show ?thesis using assms dash(5) by (simp add: parse_uuid_def)
qed

theorem uuid_roundtrip_witness: "parse_uuid (uuid_text (map of_nat [10..<26])) = map of_nat [10..<26]"
  by (rule uuid_roundtrip) simp

text \<open>C28: stopping a thread that has been started removes the socket file it bound exactly when the
  path fits the address; of a longer path a truncation is bound and left behind.\<close>

theorem stop_removes_socket:
  assumes "ct_start S st = (effs, st')" "ct_listen st' = Some addr"
  shows "Eff_bind addr \<in> set effs \<and> ct_is_running st' \<and> \<not> ct_is_running (snd (ct_stop st')) \<and> ct_listen (snd (ct_stop st')) = None \<and>
    (Eff_unlink addr \<in> set (fst (ct_stop st')) \<longleftrightarrow> length (c_str (ct_socket_path st)) \<le> 107)"
proof -
  have "addr = take 107 (c_str (ct_socket_path st))" "Eff_bind addr \<in> set effs" "ct_running st'" "ct_socket_path st' = ct_socket_path st"
    using assms by (auto simp: ct_start_def make_listen_socket_def Let_def sun_path_size_def split: if_splits prod.splits option.splits)
  moreover have "take 107 s = s \<longleftrightarrow> length s \<le> 107" for s :: string by (metis length_take min.absorb_iff2 take_all_iff)
  ultimately show ?thesis using assms(2) by (auto simp: ct_stop_def ct_is_running_def split: option.splits)
qed

theorem stop_removes_socket_witness:
  "let S = \<lparr>sv_socket_ok = True, sv_bind_ok = True, sv_listen_ok = True, sv_has_luajit = True, sv_lua_loads = False\<rparr>;
       st' = snd (ct_start S (control_new ''/tmp/s'')) in
   ct_is_running st' \<and> Eff_unlink ''/tmp/s'' \<in> set (fst (ct_stop st'))"
proof -
  define S where "S = \<lparr>sv_socket_ok = True, sv_bind_ok = True, sv_listen_ok = True, sv_has_luajit = True, sv_lua_loads = False\<rparr>"
  obtain effs st' where s: "ct_start S (control_new ''/tmp/s'') = (effs, st')" by fastforce
  then have "ct_listen st' = Some ''/tmp/s''"
    by (auto simp: S_def ct_start_def make_listen_socket_def control_new_def c_str_def sun_path_size_def Let_def)
  from stop_removes_socket [OF s this] s show ?thesis
    unfolding S_def [symmetric] Let_def by (simp add: control_new_def c_str_def)
qed

end
