(* ===== verification/C_Strings.thy ===== *)
theory C_Strings
  imports Floats
begin

text \<open>
  The C library's conversions between text and numbers that the sources use, and the bytes of a
  buffer read as text.
\<close>

definition bytes_str :: "u8 list \<Rightarrow> string" where
  "bytes_str bs = map (\<lambda>b. char_of (unat b)) bs"

fun dec_str :: "nat \<Rightarrow> string" where
  "dec_str n = (if n < 10 then [char_of (48 + n)] else dec_str (n div 10) @ [char_of (48 + n mod 10)])"

declare dec_str.simps [simp del]

definition int_str :: "int \<Rightarrow> string" where
  "int_str i = (if i < 0 then CHR ''-'' # dec_str (nat (- i)) else dec_str (nat i))"

definition is_space :: "char \<Rightarrow> bool" where
  "is_space c = (c = CHR '' '' \<or> (9 \<le> (of_char c :: nat) \<and> (of_char c :: nat) \<le> 13))"

definition is_digit :: "char \<Rightarrow> bool" where
  "is_digit c = (48 \<le> (of_char c :: nat) \<and> (of_char c :: nat) \<le> 57)"

fun digits_val :: "nat \<Rightarrow> string \<Rightarrow> nat" where
  "digits_val acc [] = acc"
| "digits_val acc (c # cs) = (if is_digit c then digits_val (10 * acc + (of_char c - 48)) cs else acc)"

text \<open>\<open>atoi\<close>; a value outside the range of \<open>int\<close> is undefined, \<open>None\<close>.\<close>

definition atoi :: "string \<Rightarrow> int option" where
  "atoi s =
     (let t = dropWhile is_space s;
          v = (case t of
              [] \<Rightarrow> 0
            | c # cs \<Rightarrow> if c = CHR ''-'' then - int (digits_val 0 cs) else if c = CHR ''+'' then int (digits_val 0 cs)
                        else int (digits_val 0 t)) in
      if - (2 ^ 31) \<le> v \<and> v < 2 ^ 31 then Some v else None)"

text \<open>\<open>strtol(s, &end, 10)\<close> with a 64-bit \<open>long\<close>: the value, clamped to its range, and what follows it;
  without a digit, nothing is consumed.\<close>

definition sign_split :: "string \<Rightarrow> bool \<times> string" where
  "sign_split t = (case t of [] \<Rightarrow> (False, []) | c # cs \<Rightarrow>
     if c = CHR ''-'' then (True, cs) else if c = CHR ''+'' then (False, cs) else (False, t))"

definition strtol :: "string \<Rightarrow> int \<times> string" where
  "strtol s =
     (case sign_split (dropWhile is_space s) of (neg, u) \<Rightarrow>
        if takeWhile is_digit u = [] then (0, s)
        else let v = int (digits_val 0 u) in
          (max (- (2 ^ 63)) (min (2 ^ 63 - 1) (if neg then - v else v)), dropWhile is_digit u))"

text \<open>\<open>atof\<close>: the longest prefix that is a number, decimal, hexadecimal, infinite or not a number,
  rounded to a double; zero when there is none.\<close>

definition lower :: "char \<Rightarrow> char" where
  "lower c = (if 65 \<le> (of_char c :: nat) \<and> (of_char c :: nat) \<le> 90 then char_of (of_char c + 32 :: nat) else c)"

definition digit_in :: "nat \<Rightarrow> char \<Rightarrow> nat option" where
  "digit_in base c =
     (let d = (if is_digit c then of_char c - 48
               else if 97 \<le> (of_char (lower c) :: nat) \<and> (of_char (lower c) :: nat) \<le> 102 then of_char (lower c) - 87 else 99) in
      if d < base then Some d else None)"

definition digits_of :: "nat \<Rightarrow> string \<Rightarrow> nat list \<times> string" where
  "digits_of base s = (map (the \<circ> digit_in base) (takeWhile (\<lambda>c. digit_in base c \<noteq> None) s),
                       dropWhile (\<lambda>c. digit_in base c \<noteq> None) s)"

definition digits_nat :: "nat \<Rightarrow> nat list \<Rightarrow> nat" where
  "digits_nat base ds = foldl (\<lambda>a d. base * a + d) 0 ds"

definition exponent_of :: "char \<Rightarrow> string \<Rightarrow> int" where
  "exponent_of mark s =
     (case s of [] \<Rightarrow> 0 | c # cs \<Rightarrow>
        if lower c \<noteq> mark then 0
        else (case sign_split cs of (neg, t) \<Rightarrow>
          let e = int (digits_nat 10 (fst (digits_of 10 t))) in if neg then - e else e))"

definition number_of :: "nat \<Rightarrow> char \<Rightarrow> rat \<Rightarrow> string \<Rightarrow> rat option" where
  "number_of base mark radix s =
     (case digits_of base s of (ip, r) \<Rightarrow>
      case (if r \<noteq> [] \<and> hd r = CHR ''.'' then digits_of base (tl r) else ([], r)) of (fr, r') \<Rightarrow>
        if ip @ fr = [] then None
        else Some (rat_of_nat (digits_nat base (ip @ fr)) * rat_of_nat base powi (- int (length fr)) *
          radix powi exponent_of mark r'))"

definition atof :: "string \<Rightarrow> fp" where
  "atof s =
     (case sign_split (dropWhile is_space s) of (neg, t) \<Rightarrow>
      if map lower (take 3 t) = ''inf'' then f_inf neg
      else if map lower (take 3 t) = ''nan'' then NaN
      else (case (case (if map lower (take 2 t) = ''0x'' then number_of 16 CHR ''p'' 2 (drop 2 t) else None) of
                    Some v \<Rightarrow> Some v
                  | None \<Rightarrow> number_of 10 CHR ''e'' 10 t) of
              None \<Rightarrow> Fin 0
            | Some v \<Rightarrow> rnd F64 neg (if neg then - v else v)))"

text \<open>\<open>%g\<close>, and a stream's default format of a double: six significant digits, in fixed notation when the
  decimal exponent is between -4 and 5, without trailing zeros.\<close>

definition exp10 :: "rat \<Rightarrow> int" where
  "exp10 r = (if 1 \<le> r then int (length (dec_str (nat \<lfloor>r\<rfloor>))) - 1 else - int (length (dec_str (nat (\<lceil>1 / r\<rceil> - 1)))))"

definition six_digits :: "rat \<Rightarrow> nat \<times> int" where
  "six_digits r = (let x = exp10 r; d = nat (rne (r * 10 powi (5 - x))) in if d = 10 ^ 6 then (10 ^ 5, x + 1) else (d, x))"

definition strip_zeros :: "string \<Rightarrow> string" where
  "strip_zeros s = rev (dropWhile (\<lambda>c. c = CHR ''0'') (rev s))"

definition with_point :: "string \<Rightarrow> string \<Rightarrow> string" where
  "with_point ip fr = (if strip_zeros fr = [] then ip else ip @ CHR ''.'' # strip_zeros fr)"

definition pos_g :: "rat \<Rightarrow> string" where
  "pos_g r =
     (case six_digits r of (d, x) \<Rightarrow>
      let ds = dec_str d in
      if x < - 4 \<or> 6 \<le> x then
        with_point (take 1 ds) (drop 1 ds) @ CHR ''e'' # (if x < 0 then CHR ''-'' else CHR ''+'') #
          (if \<bar>x\<bar> < 10 then ''0'' else []) @ dec_str (nat \<bar>x\<bar>)
      else if x < 0 then with_point ''0'' (replicate (nat (- x) - 1) CHR ''0'' @ ds)
      else with_point (take (nat x + 1) ds) (drop (nat x + 1) ds))"

fun fmt_g :: "fp \<Rightarrow> string" where
  "fmt_g NaN = ''nan''"
| "fmt_g PInf = ''inf''"
| "fmt_g NInf = ''-inf''"
| "fmt_g NegZero = ''-0''"
| "fmt_g (Fin r) = (if r = 0 then ''0'' else if r < 0 then CHR ''-'' # pos_g (- r) else pos_g r)"

text \<open>\<open>%.2f\<close>.\<close>

definition pos_f2 :: "rat \<Rightarrow> string" where
  "pos_f2 r = (let n = nat (rne (r * 100)) in dec_str (n div 100) @ CHR ''.'' # (if n mod 100 < 10 then ''0'' else []) @ dec_str (n mod 100))"

fun fmt_f2 :: "fp \<Rightarrow> string" where
  "fmt_f2 NaN = ''nan''"
| "fmt_f2 PInf = ''inf''"
| "fmt_f2 NInf = ''-inf''"
| "fmt_f2 NegZero = ''-0.00''"
| "fmt_f2 (Fin r) = (if r < 0 then CHR ''-'' # pos_f2 (- r) else pos_f2 r)"

section \<open>Printing and reading back\<close>

lemma bytes_str_bytes [simp]: "bytes_str (map of_char s) = s"
  by (simp add: bytes_str_def comp_def unat_of_char)

lemma digit_char: "n < 10 \<Longrightarrow> is_digit (char_of (48 + n)) \<and> (of_char (char_of (48 + n)) :: nat) = 48 + n"
  by (simp add: is_digit_def)

lemma dec_str_digits: "c \<in> set (dec_str n) \<Longrightarrow> is_digit c"
proof (induction n rule: dec_str.induct)
  case (1 n)
  then show ?case by (subst (asm) dec_str.simps) (auto simp: digit_char split: if_splits)
qed

lemma dec_str_nonempty: "dec_str n \<noteq> []"
  by (subst dec_str.simps) simp

lemma digits_val_append:
  "list_all is_digit ds \<Longrightarrow> digits_val acc (ds @ cs) = digits_val (digits_val acc ds) cs"
  by (induction ds arbitrary: acc) auto

lemma digits_val_dec: "digits_val 0 (dec_str n) = n"
proof (induction n rule: dec_str.induct)
  case (1 n)
  show ?case
  proof (cases "n < 10")
    case True
    then show ?thesis by (subst dec_str.simps) (simp add: digit_char)
  next
    case False
    have "digits_val 0 (dec_str n) = digits_val (digits_val 0 (dec_str (n div 10))) [char_of (48 + n mod 10)]"
      using False by (subst dec_str.simps) (simp add: digits_val_append list_all_iff dec_str_digits)
    then show ?thesis using 1 [OF False] digit_char [of "n mod 10"] by simp
  qed
qed

lemma atoi_dec:
  assumes "n < 2 ^ 31" "\<not> is_digit c"
  shows "atoi (CHR '' '' # dec_str n @ c # cs) = Some (int n)"
proof -
  obtain d ds where d: "dec_str n = d # ds" using dec_str_nonempty by (cases "dec_str n") auto
  then have dd: "is_digit d" using dec_str_digits [of d n] by simp
  then have sp: "\<not> is_space d" "d \<noteq> CHR ''-''" "d \<noteq> CHR ''+''" by (auto simp: is_digit_def is_space_def)
  have v: "digits_val 0 (d # ds @ c # cs) = n"
    using assms(2) digits_val_dec [of n] digits_val_append [of "dec_str n" 0 "c # cs"] dec_str_digits [of _ n]
    by (simp add: d list_all_iff)
  have "dropWhile is_space (CHR '' '' # d # ds @ c # cs) = d # ds @ c # cs" using sp(1) by (auto simp: is_space_def)
  then show ?thesis using assms(1) sp v by (simp add: atoi_def d Let_def del: digits_val.simps dropWhile.simps)
qed

end
