(* ===== verification/Edn_Text.thy ===== *)
theory Edn_Text
  imports Edn C_Strings
begin

text \<open>
  EDN text, as far as the messages between the programs use it: a map of keywords to keywords and strings, in
  the notation of the format's description (entries apart by blanks, strings in quotation marks with the
  escapes of C). The library that reads it is not part of the sources; what they rely on is that it reads
  such a text back. A reader of this fragment shows that a library can.
\<close>

section \<open>The notation\<close>

text \<open>The characters of a plain keyword.\<close>

definition name_char :: "char \<Rightarrow> bool" where
  "name_char c = (c \<notin> set ('' ,:{}[]()'' @ [CHR 0x22, CHR 0x5C, CHR 0x0A, CHR 0x0D, CHR 0x09]))"

fun plain_value :: "edn \<Rightarrow> bool" where
  "plain_value (Edn_keyword k) = (k \<noteq> [] \<and> list_all name_char k)"
| "plain_value (Edn_string s) = True"
| "plain_value v = False"

definition plain_map :: "edn_map \<Rightarrow> bool" where
  "plain_map m = list_all (\<lambda>(k, v). plain_value k \<and> plain_value v) m"

definition string_char :: "char \<Rightarrow> string" where
  "string_char c =
     (if c = CHR 0x22 then [CHR 0x5C, CHR 0x22] else if c = CHR 0x5C then [CHR 0x5C, CHR 0x5C]
      else if c = CHR 0x0A then [CHR 0x5C, CHR ''n''] else if c = CHR 0x0D then [CHR 0x5C, CHR ''r'']
      else if c = CHR 0x09 then [CHR 0x5C, CHR ''t''] else [c])"

fun edn_text :: "edn \<Rightarrow> string" where
  "edn_text (Edn_keyword k) = CHR '':'' # k"
| "edn_text (Edn_string s) = CHR 0x22 # concat (map string_char s) @ [CHR 0x22]"
| "edn_text v = []"

fun entries_text :: "edn_map \<Rightarrow> string" where
  "entries_text [] = ''}''"
| "entries_text ((k, v) # m) = edn_text k @ '' '' @ edn_text v @ (if m = [] then [] else '' '') @ entries_text m"

definition edn_map_text :: "edn_map \<Rightarrow> string" where
  "edn_map_text m = ''{'' @ entries_text m"

text \<open>What the sources rely on of the library.\<close>

definition reads_plain_maps :: "edn_lib \<Rightarrow> bool" where
  "reads_plain_maps L = (\<forall>m. plain_map m \<longrightarrow> ed_parse L (map of_char (edn_map_text m)) = Some (Edn_map m))"

section \<open>A reader of the fragment\<close>

definition unescape_char :: "char \<Rightarrow> char" where
  "unescape_char c = (if c = CHR ''n'' then CHR 0x0A else if c = CHR ''r'' then CHR 0x0D else if c = CHR ''t'' then CHR 0x09 else c)"

fun read_string :: "string \<Rightarrow> (string \<times> string) option" where
  "read_string [] = None"
| "read_string (c # cs) =
     (if c = CHR 0x22 then Some ([], cs)
      else if c = CHR 0x5C then (case cs of [] \<Rightarrow> None | d # ds \<Rightarrow> map_option (apfst (Cons (unescape_char d))) (read_string ds))
      else map_option (apfst (Cons c)) (read_string cs))"

fun read_value :: "string \<Rightarrow> (edn \<times> string) option" where
  "read_value (c # cs) =
     (if c = CHR '':'' then Some (Edn_keyword (takeWhile name_char cs), dropWhile name_char cs)
      else if c = CHR 0x22 then map_option (apfst Edn_string) (read_string cs)
      else None)"
| "read_value [] = None"

text \<open>The first argument bounds the number of entries.\<close>

fun read_entries :: "nat \<Rightarrow> string \<Rightarrow> edn_map option" where
  "read_entries 0 s = None"
| "read_entries (Suc n) s =
     (let s = dropWhile (\<lambda>c. c = CHR '' '') s in
      if s = ''}'' then Some []
      else case read_value s of
        None \<Rightarrow> None
      | Some (k, s1) \<Rightarrow> (case read_value (dropWhile (\<lambda>c. c = CHR '' '') s1) of
          None \<Rightarrow> None
        | Some (v, s2) \<Rightarrow> map_option (Cons (k, v)) (read_entries n s2)))"

definition read_map :: "string \<Rightarrow> edn option" where
  "read_map s = (case s of
     c # cs \<Rightarrow> if c = CHR ''{'' then map_option Edn_map (read_entries (length s) cs) else None
   | [] \<Rightarrow> None)"

definition plain_edn_lib :: edn_lib where
  "plain_edn_lib = \<lparr>ed_parse = (\<lambda>bs. read_map (bytes_str bs)), ed_find_kw = (\<lambda>m k. map_of m (Edn_keyword k))\<rparr>"

lemma read_string_text: "read_string (concat (map string_char s) @ CHR 0x22 # rest) = Some (s, rest)"
  by (induction s) (auto simp: string_char_def unescape_char_def)

lemma read_value_text:
  assumes "plain_value v" "\<not> name_char c"
  shows "read_value (edn_text v @ c # rest) = Some (v, c # rest)"
proof (cases v)
  case (Edn_keyword k)
  then have "list_all name_char k" using assms(1) by simp
  then have "takeWhile name_char (k @ c # rest) = k" "dropWhile name_char (k @ c # rest) = c # rest"
    using assms(2) by (auto simp: list_all_iff takeWhile_append2 dropWhile_append2)
  then show ?thesis using Edn_keyword by simp
next
  case (Edn_string s)
  then show ?thesis using read_string_text [of s "c # rest"] by simp
qed (use assms in simp_all)

lemma blanks_text: "plain_value v \<Longrightarrow> dropWhile (\<lambda>c. c = CHR '' '') (edn_text v @ rest) = edn_text v @ rest"
  "plain_value v \<Longrightarrow> edn_text v @ rest \<noteq> ''}''"
  by (cases v; simp)+

lemma entries_text_start: "\<exists>c cs. (if m = [] then [] else '' '') @ entries_text m = c # cs \<and> \<not> name_char c"
  by (cases m) (auto simp: name_char_def)

lemma read_entries_text:
  "plain_map m \<Longrightarrow> length m < n \<Longrightarrow> read_entries n ((if b then '' '' else []) @ entries_text m) = Some m"
proof (induction m arbitrary: n b)
  case Nil
  then show ?case by (cases n) (auto simp: Let_def)
next
  case (Cons e m)
  obtain k v where e: "e = (k, v)" by fastforce
  have p: "plain_value k" "plain_value v" "plain_map m" using Cons.prems(1) e by (simp_all add: plain_map_def)
  obtain n' where n: "n = Suc n'" using Cons.prems(2) by (cases n) auto
  let ?rest = "(if m = [] then [] else '' '') @ entries_text m"
  let ?text = "edn_text k @ CHR '' '' # edn_text v @ ?rest"
  have t: "entries_text (e # m) = ?text" by (simp add: e)
  have s: "dropWhile (\<lambda>c. c = CHR '' '') ((if b then '' '' else []) @ ?text) = ?text" "?text \<noteq> ''}''"
    using blanks_text [OF p(1)] by simp_all
  have k: "read_value ?text = Some (k, CHR '' '' # edn_text v @ ?rest)"
    using read_value_text [OF p(1)] by (simp add: name_char_def)
  have v: "read_value (dropWhile (\<lambda>c. c = CHR '' '') (CHR '' '' # edn_text v @ ?rest)) = Some (v, ?rest)"
    using entries_text_start [of m] read_value_text [OF p(2)] blanks_text(1) [OF p(2)] by auto
  have "read_entries n' ?rest = Some m" using Cons.IH [OF p(3), of n' "m \<noteq> []"] Cons.prems(2) n by (cases "m = []") auto
  then show ?case unfolding t n read_entries.simps(2) Let_def s(1) using s(2) k v e by simp
qed

lemma entries_text_length: "length m < Suc (length (entries_text m))"
  by (induction m rule: entries_text.induct) auto

lemma plain_edn_lib_reads: "reads_plain_maps plain_edn_lib" "find_kw_ok plain_edn_lib"
proof -
  have "read_map (edn_map_text m) = Some (Edn_map m)" if "plain_map m" for m
    using read_entries_text [OF that entries_text_length, of False] by (simp add: read_map_def edn_map_text_def)
  then show "reads_plain_maps plain_edn_lib" by (simp add: reads_plain_maps_def plain_edn_lib_def)
qed (simp add: find_kw_ok_def plain_edn_lib_def)

end
