(* ===== verification/Mcp.thy ===== *)
theory Mcp
  imports Control_Thread Edn_Text "HOL-Library.Sublist"
begin

text \<open>
  The bridge from the Model Context Protocol to the control socket (\<open>tools/nomos-mcp.cpp\<close>): its own
  framing helpers, a minimal JSON reader, the \<open>evaluate\<close> tool and the main loop. Standard input and
  output are strings; a connection to the socket is a descriptor to write to and one to read from.
\<close>

section \<open>The socket\<close>

definition kMsgReplEval :: u8 where
  "kMsgReplEval = 0x55"

text \<open>One \<open>write\<close> for the header and one for the payload, which have to take everything.\<close>

definition ipc_write :: "u8 \<Rightarrow> string \<Rightarrow> wfd \<Rightarrow> bool \<times> wfd" where
  "ipc_write type payload fd =
     (let plen = of_nat (length payload) :: u32; hdr = u32_le (bswap32 plen) @ [type, 0, 0, 0] in
      case sys_write hdr fd of (r, fd1) \<Rightarrow>
        if r \<noteq> Inr 8 then (False, fd1)
        else if payload = [] then (True, fd1)
        else (case sys_write (str_bytes payload) fd1 of (r2, fd2) \<Rightarrow> (r2 = Inr (length payload), fd2)))"

function ipc_read_loop :: "nat \<Rightarrow> rfd \<Rightarrow> u8 list option" where
  "ipc_read_loop rem fd =
     (if rem = 0 then Some []
      else case sys_read rem fd of
        (Inl e, fd') \<Rightarrow> None
      | (Inr bs, fd') \<Rightarrow> if bs = [] then None else map_option (\<lambda>cs. bs @ cs) (ipc_read_loop (rem - length bs) fd'))"
  by pat_completeness auto
termination by (relation "measure fst") auto

declare ipc_read_loop.simps [simp del]

text \<open>The empty string stands for every failure, as in the source.\<close>

definition ipc_read :: "rfd \<Rightarrow> string" where
  "ipc_read fd = (case sys_read 8 fd of
     (Inl e, fd') \<Rightarrow> []
   | (Inr hdr, fd') \<Rightarrow>
       if length hdr \<noteq> 8 then []
       else (case ipc_read_loop (unat (bswap32 (le32 hdr))) fd' of None \<Rightarrow> [] | Some bs \<Rightarrow> bytes_str bs))"

text \<open>The system calls of a connection attempt; what they return are arguments.\<close>

datatype sock_call = Sock_socket | Sock_connect int string | Sock_close int

definition connect_kairos :: "string \<Rightarrow> int \<Rightarrow> int \<Rightarrow> int \<times> sock_call list" where
  "connect_kairos socket_path fd rc =
     (if fd < 0 then (- 1, [Sock_socket])
      else
        let call = Sock_connect fd (take (sun_path_size - 1) (c_str socket_path)) in
        if rc < 0 then (- 1, [Sock_socket, call, Sock_close fd]) else (fd, [Sock_socket, call]))"

text \<open>The bridge connects to the file that the control thread bound, also when both cut the path; a failed
  attempt leaves no descriptor open.\<close>

lemma connect_kairos_address:
  assumes "make_listen_socket S path = (effs, Some addr)" "connect_kairos path fd rc = (r, calls)"
  shows "Sock_connect d a \<in> set calls \<Longrightarrow> a = addr" and "r < 0 \<Longrightarrow> 0 \<le> fd \<Longrightarrow> Sock_close fd \<in> set calls"
  using assms by (auto simp: make_listen_socket_def connect_kairos_def Let_def split: if_splits)

section \<open>JSON\<close>

fun json_escape :: "string \<Rightarrow> string" where
  "json_escape [] = []"
| "json_escape (c # cs) =
     (if c = CHR 0x22 then [CHR 0x5C, CHR 0x22]
      else if c = CHR 0x5C then [CHR 0x5C, CHR 0x5C]
      else if c = CHR 0x0A then [CHR 0x5C, CHR ''n'']
      else if c = CHR 0x0D then [CHR 0x5C, CHR ''r'']
      else if c = CHR 0x09 then [CHR 0x5C, CHR ''t'']
      else [c]) @ json_escape cs"

text \<open>\<open>std::string::find\<close>: the position of the first occurrence.\<close>

fun str_find :: "string \<Rightarrow> string \<Rightarrow> nat option" where
  "str_find pat [] = (if pat = [] then Some 0 else None)"
| "str_find pat (c # s) = (if take (length pat) (c # s) = pat then Some 0 else map_option Suc (str_find pat s))"

text \<open>The loop over the characters of a string value; the flag is \<open>esc\<close>.\<close>

fun json_unescape :: "bool \<Rightarrow> string \<Rightarrow> string" where
  "json_unescape esc [] = []"
| "json_unescape esc (c # cs) =
     (if esc then
        (if c = CHR ''n'' then CHR 0x0A else if c = CHR ''r'' then CHR 0x0D else if c = CHR ''t'' then CHR 0x09 else c) # json_unescape False cs
      else if c = CHR 0x5C then json_unescape True cs
      else if c = CHR 0x22 then []
      else c # json_unescape False cs)"

definition json_str :: "string \<Rightarrow> string \<Rightarrow> string" where
  "json_str json key =
     (let pat = quote @ key @ quote in
      case str_find pat json of
        None \<Rightarrow> []
      | Some pos \<Rightarrow>
          (case dropWhile (\<lambda>c. c = CHR '' '' \<or> c = CHR '':'' \<or> c = CHR 0x09) (drop (pos + length pat) json) of
             [] \<Rightarrow> []
           | c # cs \<Rightarrow> if c \<noteq> CHR 0x22 then [] else json_unescape False cs))"

text \<open>Trailing spaces of the raw value are cut.\<close>

definition rstrip_spaces :: "string \<Rightarrow> string" where
  "rstrip_spaces s = rev (dropWhile (\<lambda>c. c = CHR '' '') (rev s))"

definition json_id_raw :: "string \<Rightarrow> string" where
  "json_id_raw json =
     (let kw = quote @ ''id'' @ quote in
      case str_find kw json of
        None \<Rightarrow> ''null''
      | Some pos \<Rightarrow>
          (let rest = dropWhile (\<lambda>c. c = CHR '' '' \<or> c = CHR '':'') (drop (pos + length kw) json) in
           if rest = [] then ''null''
           else if hd rest = CHR 0x22 then quote @ json_escape (json_str json ''id'') @ quote
           else rstrip_spaces (takeWhile (\<lambda>c. c \<noteq> CHR '','' \<and> c \<noteq> CHR ''}'') rest)))"

section \<open>Framing\<close>

definition crlf2 :: string where
  "crlf2 = [CHR 0x0D, CHR 0x0A, CHR 0x0D, CHR 0x0A]"

definition lf2 :: string where
  "lf2 = [CHR 0x0A, CHR 0x0A]"

definition ends_with :: "string \<Rightarrow> string \<Rightarrow> bool" where
  "ends_with p s = (length p \<le> length s \<and> drop (length s - length p) s = p)"

text \<open>Header bytes until a blank line; \<open>None\<close> at the end of the input.\<close>

fun read_headers :: "string \<Rightarrow> string \<Rightarrow> (string \<times> string) option" where
  "read_headers buf [] = None"
| "read_headers buf (c # cs) =
     (if ends_with crlf2 (buf @ [c]) \<or> ends_with lf2 (buf @ [c]) then Some (buf @ [c], cs) else read_headers (buf @ [c]) cs)"

definition content_length :: "string \<Rightarrow> int option" where
  "content_length h = (case str_find ''Content-Length:'' h of None \<Rightarrow> Some (- 1) | Some pos \<Rightarrow> atoi (drop (pos + 15) h))"

text \<open>The body, empty for every failure, and the input that is left.\<close>

definition mcp_read :: "string \<Rightarrow> (string \<times> string) option" where
  "mcp_read inp = (case read_headers [] inp of
     None \<Rightarrow> Some ([], [])
   | Some (h, rest) \<Rightarrow> (case content_length h of
         None \<Rightarrow> None
       | Some n \<Rightarrow>
           if n \<le> 0 then Some ([], rest)
           else if length rest < nat n then Some ([], [])
           else Some (take (nat n) rest, drop (nat n) rest)))"

definition mcp_write :: "string \<Rightarrow> string" where
  "mcp_write body = ''Content-Length: '' @ dec_str (length body) @ crlf2 @ body"

definition mcp_error :: "string \<Rightarrow> int \<Rightarrow> string \<Rightarrow> string" where
  "mcp_error id_raw code msg = mcp_write (''{\"jsonrpc\":\"2.0\",\"id\":'' @ id_raw @ '',\"error\":{\"code\":'' @ int_str code @
     '',\"message\":\"'' @ json_escape msg @ ''\"}}'')"

definition mcp_result :: "string \<Rightarrow> string \<Rightarrow> string" where
  "mcp_result id_raw result_json = mcp_write (''{\"jsonrpc\":\"2.0\",\"id\":'' @ id_raw @ '',\"result\":'' @ result_json @ ''}'')"

section \<open>The tool\<close>

text \<open>The destination a prefix selects, and the expression without it.\<close>

definition eval_dest :: "string \<Rightarrow> string \<times> string" where
  "eval_dest expr =
     (if 3 \<le> length expr \<and> expr ! 0 = CHR ''#'' then
        (if expr ! 1 = CHR ''v'' then (''vcvrack-tty'', drop 2 expr)
         else if expr ! 1 = CHR ''f'' then (''fennel'', drop 2 expr)
         else if expr ! 1 = CHR ''n'' then (''nous'', drop 2 expr)
         else (''fennel'', expr))
      else (''fennel'', expr))"

definition trim_leading :: "string \<Rightarrow> string" where
  "trim_leading s = dropWhile (\<lambda>c. c = CHR '' '' \<or> c = CHR 0x09) s"

definition eval_payload :: "string \<Rightarrow> string \<Rightarrow> string" where
  "eval_payload dest expr = ''{:dest :'' @ dest @ '' :payload \"'' @ json_escape expr @ ''\"'' @ '' :id \"mcp\"}''"

text \<open>
  What is printed, and the descriptor written to. The connection is \<open>None\<close> when \<open>connect_kairos\<close>
  fails.
\<close>

definition handle_evaluate :: "string \<Rightarrow> string \<Rightarrow> (wfd \<times> rfd) option \<Rightarrow> string \<times> wfd option" where
  "handle_evaluate id_raw expression conn =
     (case eval_dest expression of (dest, e) \<Rightarrow>
      (case conn of
         None \<Rightarrow> (mcp_error id_raw (- 32603) ''cannot connect to kairos socket'', None)
       | Some (w, r) \<Rightarrow>
           (case ipc_write kMsgReplEval (eval_payload dest (trim_leading e)) w of
              (False, w') \<Rightarrow> (mcp_error id_raw (- 32603) ''failed to send eval to kairos'', Some w')
            | (True, w') \<Rightarrow>
                (let resp = ipc_read r in
                 if resp = [] then (mcp_error id_raw (- 32603) ''no response from kairos'', Some w')
                 else (mcp_result id_raw (''{\"content\":[{\"type\":\"text\",\"text\":\"'' @ json_escape resp @ ''\"}]}''), Some w')))))"

section \<open>The main loop\<close>

definition k_tool_schema :: string where
  "k_tool_schema = ''{'' @ [CHR 0x0A] @
     ''  \"name\": \"evaluate\",'' @ [CHR 0x0A] @
     ''  \"description\": \"Evaluate an expression in the nomos-rt runtime via kairos IPC. Prefix: #v '' @ [CHR 0xE2, CHR 0x86, CHR 0x92] @ '' VCVRack TTY, #f '' @ [CHR 0xE2, CHR 0x86, CHR 0x92] @ '' Fennel (default), #n '' @ [CHR 0xE2, CHR 0x86, CHR 0x92] @ '' nous.\",'' @ [CHR 0x0A] @
     ''  \"inputSchema\": {'' @ [CHR 0x0A] @
     ''    \"type\": \"object\",'' @ [CHR 0x0A] @
     ''    \"properties\": {'' @ [CHR 0x0A] @
     ''      \"expression\": {'' @ [CHR 0x0A] @
     ''        \"type\": \"string\",'' @ [CHR 0x0A] @
     ''        \"description\": \"Expression to evaluate. Optional prefix: #v (VCVRack TTY), #f (Fennel), #n (nous).\"'' @ [CHR 0x0A] @
     ''      }'' @ [CHR 0x0A] @
     ''    },'' @ [CHR 0x0A] @
     ''    \"required\": [\"expression\"]'' @ [CHR 0x0A] @
     ''  }'' @ [CHR 0x0A] @
     ''}''"

definition handle_initialize :: "string \<Rightarrow> string" where
  "handle_initialize id_raw = mcp_result id_raw
     (''{\"protocolVersion\":\"2024-11-05\",'' @ ''\"capabilities\":{\"tools\":{}},'' @
      ''\"serverInfo\":{\"name\":\"nomos-mcp\",\"version\":\"0.1.0\"}}'')"

definition handle_tools_list :: "string \<Rightarrow> string" where
  "handle_tools_list id_raw = mcp_result id_raw (''{\"tools\":['' @ k_tool_schema @ '']}'')"

text \<open>One request: what is printed, what is written to the socket, the connections still to come.\<close>

type_synonym mcp_conns = "(wfd \<times> rfd) option list"

definition mcp_evaluate :: "string \<Rightarrow> string \<Rightarrow> mcp_conns \<Rightarrow> string \<times> wfd list \<times> mcp_conns" where
  "mcp_evaluate id_raw expr conns =
     (case handle_evaluate id_raw expr (case conns of [] \<Rightarrow> None | c # _ \<Rightarrow> c) of
        (out, w) \<Rightarrow> (out, case w of None \<Rightarrow> [] | Some w' \<Rightarrow> [w'], tl conns))"

definition mcp_handle :: "string \<Rightarrow> mcp_conns \<Rightarrow> string \<times> wfd list \<times> mcp_conns" where
  "mcp_handle body conns =
     (let id_raw = json_id_raw body; method = json_str body ''method'' in
      if method = ''initialize'' then (handle_initialize id_raw, [], conns)
      else if method = ''notifications/initialized'' then ([], [], conns)
      else if method = ''tools/list'' then (handle_tools_list id_raw, [], conns)
      else if method = ''tools/call'' then
        (if json_str body ''name'' = ''evaluate'' then
           (let expr = json_str body ''expression'' in
            if expr = [] then (mcp_error id_raw (- 32602) ''missing required argument: expression'', [], conns)
            else mcp_evaluate id_raw expr conns)
         else (mcp_error id_raw (- 32601) ''unknown tool'', [], conns))
      else if id_raw \<noteq> ''null'' then (mcp_error id_raw (- 32601) ''method not found'', [], conns)
      else ([], [], conns))"

lemma read_headers_shorter: "read_headers buf inp = Some (h, rest) \<Longrightarrow> length rest < length inp"
  by (induction buf inp rule: read_headers.induct) (auto split: if_splits)

lemma mcp_read_shorter:
  assumes "mcp_read inp = Some (body, rest)" "body \<noteq> []"
  shows "length rest < length inp"
proof -
  obtain h rest' where h: "read_headers [] inp = Some (h, rest')" and "length rest \<le> length rest'"
    using assms by (auto simp: mcp_read_def split: option.splits if_splits)
  with read_headers_shorter [OF h] show ?thesis by simp
qed

function mcp_main :: "mcp_conns \<Rightarrow> string \<Rightarrow> (string \<times> wfd list) option" where
  "mcp_main conns inp = (case mcp_read inp of
     None \<Rightarrow> None
   | Some (body, rest) \<Rightarrow>
       if body = [] then Some ([], [])
       else (case mcp_handle body conns of (out, ws, conns') \<Rightarrow>
         map_option (\<lambda>(out', ws'). (out @ out', ws @ ws')) (mcp_main conns' rest)))"
  by pat_completeness auto
termination by (relation "measure (\<lambda>(conns, inp). length inp)") (auto dest: mcp_read_shorter)

declare mcp_main.simps [simp del]

text \<open>The path of the socket: the last \<open>--socket\<close> that has a value.\<close>

fun socket_arg :: "string \<Rightarrow> string list \<Rightarrow> string" where
  "socket_arg path (a # b # args) = socket_arg (if a = ''--socket'' then b else path) (b # args)"
| "socket_arg path args = path"

definition mcp_socket_path :: "string list \<Rightarrow> string" where
  "mcp_socket_path args = socket_arg ''/tmp/kairos.sock'' args"

section \<open>Lemmas\<close>

lemma json_unescape_escape: "json_unescape False (json_escape s @ CHR 0x22 # rest) = s"
  by (induction s) auto

text \<open>An occurrence before the end of the first one would lie in the text without its last character.\<close>

lemma str_find_first:
  assumes "\<not> sublist pat (pre @ butlast pat)" "pat \<noteq> []"
  shows "str_find pat (pre @ pat @ rest) = Some (length pre)"
  using assms(1)
proof (induction pre)
  case Nil
  then show ?case using assms(2) by (cases pat) auto
next
  case (Cons c pre)
  have "take (length pat) (c # pre @ pat @ rest) \<noteq> pat"
  proof
    assume a: "take (length pat) (c # pre @ pat @ rest) = pat"
    have "c # pre @ pat @ rest = (c # pre @ butlast pat) @ last pat # rest" using assms(2) by simp
    moreover have "length pat \<le> length (c # pre @ butlast pat)" using assms(2) by (cases pat) auto
    ultimately have "prefix pat (c # pre @ butlast pat)" using a by (metis append_eq_conv_conj prefix_def take_append take_is_prefix diff_is_0_eq take0 append_Nil2)
    then show False using Cons.prems by (simp add: sublist_Cons_right)
  qed
  moreover have "\<not> sublist pat (pre @ butlast pat)" using Cons.prems by (simp add: sublist_Cons_right)
  ultimately show ?case using Cons.IH by simp
qed

lemma drop_separators: "list_all P seps \<Longrightarrow> \<not> P c \<Longrightarrow> dropWhile P (seps @ c # cs) = c # cs"
  by (induction seps) auto

lemma ends_with_snoc: "ends_with p (buf @ [c]) \<Longrightarrow> p \<noteq> [] \<Longrightarrow> last p = c"
  by (metis append_take_drop_id ends_with_def last_append last_snoc)

lemma read_headers_skip:
  "CHR 0x0A \<notin> set xs \<Longrightarrow> read_headers buf (xs @ ys) = read_headers (buf @ xs) ys"
proof (induction xs arbitrary: buf)
  case (Cons c xs)
  have "\<not> ends_with crlf2 (buf @ [c])" "\<not> ends_with lf2 (buf @ [c])"
    using Cons.prems ends_with_snoc [of crlf2 buf c] ends_with_snoc [of lf2 buf c] by (auto simp: crlf2_def lf2_def)
  then show ?case using Cons by simp
qed simp

text \<open>After a line without line feeds the blank line ends the headers.\<close>

lemma read_headers_line:
  assumes "CHR 0x0A \<notin> set line"
  shows "read_headers [] (line @ crlf2 @ rest) = Some (line @ crlf2, rest)"
proof -
  have a: "\<not> ends_with crlf2 (line @ [CHR 0x0D, CHR 0x0A])"
  proof
    assume "ends_with crlf2 (line @ [CHR 0x0D, CHR 0x0A])"
    then have "drop (length line - Suc (Suc 0)) line = [CHR 0x0D, CHR 0x0A]" by (simp add: ends_with_def crlf2_def)
    then have "CHR 0x0A \<in> set (drop (length line - Suc (Suc 0)) line)" by simp
    with assms show False using set_drop_subset by fastforce
  qed
  have b: "\<not> ends_with lf2 (line @ [CHR 0x0D, CHR 0x0A])" by (simp add: ends_with_def lf2_def Suc_diff_le numeral_2_eq_2)
  have c: "ends_with crlf2 (line @ crlf2)" by (simp add: ends_with_def)
  have "read_headers [] (line @ crlf2 @ rest) = read_headers (line @ [CHR 0x0D]) (CHR 0x0A # CHR 0x0D # CHR 0x0A # rest)"
    using read_headers_skip [of "line @ [CHR 0x0D]" "[]"] assms by (simp add: crlf2_def)
  also have "\<dots> = read_headers (line @ [CHR 0x0D, CHR 0x0A]) (CHR 0x0D # CHR 0x0A # rest)" using a b by simp
  also have "\<dots> = read_headers (line @ [CHR 0x0D, CHR 0x0A, CHR 0x0D]) (CHR 0x0A # rest)"
    using read_headers_skip [of "[CHR 0x0D]" "line @ [CHR 0x0D, CHR 0x0A]"] by simp
  also have "\<dots> = Some (line @ crlf2, rest)" using c by (simp add: crlf2_def)
  finally show ?thesis .
qed

lemma ipc_write_plain:
  assumes "length payload < 2 ^ 32"
  shows "ipc_write t payload \<lparr>wf_out = out, wf_plan = []\<rparr> = (True, \<lparr>wf_out = out @ frame t (str_bytes payload), wf_plan = []\<rparr>)"
  by (simp add: ipc_write_def sys_write_def Let_def u32_le_bswap frame_def)

lemma ipc_read_loop_plain: "ipc_read_loop (length bs) \<lparr>rf_bytes = bs @ rest, rf_plan = []\<rparr> = Some bs"
proof (cases "bs = []")
  case False
  then show ?thesis
    by (subst ipc_read_loop.simps) (simp add: sys_read_def ipc_read_loop.simps [of 0])
qed (simp add: ipc_read_loop.simps)

lemma ipc_read_plain:
  assumes "length s < 2 ^ 32"
  shows "ipc_read \<lparr>rf_bytes = frame t (str_bytes s) @ rest, rf_plan = []\<rparr> = s"
proof -
  let ?p = "str_bytes s"
  define f where "f = frame t ?p @ rest"
  have l: "length ?p < 2 ^ 32" using assms by simp
  have h: "drop 8 f = ?p @ rest" "8 \<le> length f"
    using frame_parts(3,4) [OF l, of t] by (simp_all add: f_def header_size_def)
  have "le32 (take 8 f) = le32 f" by (simp add: le32_def)
  then have "unat (bswap32 (le32 (take 8 f))) = length ?p" using frame_parts(1) [OF l, of t rest] by (simp add: f_def)
  then show ?thesis using h ipc_read_loop_plain [of ?p rest] unfolding f_def [symmetric] by (simp add: ipc_read_def sys_read_def)
qed

text \<open>The payload is the text of a map in the notation of EDN: the escapes of JSON are those of its strings.\<close>

lemma json_escape_string_char: "json_escape s = concat (map string_char s)"
  by (induction s) (auto simp: string_char_def)

lemma eval_payload_text:
  "eval_payload dest expr = edn_map_text [(Edn_keyword ''dest'', Edn_keyword dest), (Edn_keyword ''payload'', Edn_string expr),
     (Edn_keyword ''id'', Edn_string ''mcp'')]"
  by (simp add: eval_payload_def edn_map_text_def json_escape_string_char string_char_def)

section \<open>Properties\<close>

text \<open>C33: a string put into a JSON object by \<open>json_escape\<close> is read back by \<open>json_str\<close>, whatever characters it
  contains and whatever follows, with any spacing after the key, when the quoted key does not occur earlier in
  the text. (Where it does, as a key of an enclosing object or as a value, the reader takes that occurrence.)\<close>

theorem json_str_roundtrip:
  assumes "\<not> sublist (quote @ key @ quote) (pre @ quote @ key)" "list_all (\<lambda>c. c = CHR '' '' \<or> c = CHR '':'' \<or> c = CHR 0x09) seps"
  shows "json_str (pre @ quote @ key @ quote @ seps @ quote @ json_escape s @ quote @ rest) key = s"
proof -
  let ?pat = "quote @ key @ quote" let ?tail = "seps @ quote @ json_escape s @ quote @ rest"
  have "butlast ?pat = quote @ key" by (simp add: quote_def butlast_append)
  then have f: "str_find ?pat (pre @ ?pat @ ?tail) = Some (length pre)"
    using assms(1) by (intro str_find_first) (simp_all add: quote_def)
  have d: "dropWhile (\<lambda>c. c = CHR '' '' \<or> c = CHR '':'' \<or> c = CHR 0x09) ?tail = CHR 0x22 # json_escape s @ quote @ rest"
    using drop_separators [OF assms(2), of "CHR 0x22" "json_escape s @ quote @ rest"] by (simp add: quote_def)
  have "json_str (pre @ ?pat @ ?tail) key = json_unescape False (json_escape s @ quote @ rest)"
    unfolding json_str_def Let_def f by (simp add: d)
  then show ?thesis using json_unescape_escape [of s rest] by (simp add: quote_def)
qed

text \<open>The expression of a request as a client of the protocol sends it.\<close>

theorem json_str_roundtrip_witness:
  "json_str (''{\"jsonrpc\":\"2.0\",\"id\":7,\"method\":\"tools/call\",\"params\":{\"name\":\"evaluate\",\"arguments\":{'' @
     quote @ ''expression'' @ quote @ '': '' @ quote @ json_escape ''(print \"a\")'' @ quote @ ''}}}'') ''expression'' = ''(print \"a\")''"
proof -
  have "\<not> sublist (quote @ ''expression'' @ quote)
      (''{\"jsonrpc\":\"2.0\",\"id\":7,\"method\":\"tools/call\",\"params\":{\"name\":\"evaluate\",\"arguments\":{'' @ quote @ ''expression'')"
    by (simp add: quote_def sublist_Cons_right)
  then show ?thesis by (rule json_str_roundtrip) simp
qed

text \<open>A value that equals the key is taken for the key.\<close>

lemma json_str_value_as_key: "json_str ''{\"method\":\"name\",\"name\":\"v\"}'' ''name'' \<noteq> ''v''"
  by (simp add: json_str_def quote_def)

text \<open>C34: a message framed by \<open>mcp_write\<close> is read back by \<open>mcp_read\<close>, with what follows it left unread.\<close>

theorem mcp_framing_roundtrip:
  assumes "body \<noteq> []" "length body < 2 ^ 31"
  shows "mcp_read (mcp_write body @ rest) = Some (body, rest)"
proof -
  let ?line = "''Content-Length: '' @ dec_str (length body)"
  have "CHR 0x0A \<notin> set (dec_str (length body))" using dec_str_digits [of "CHR 0x0A"] by (auto simp: is_digit_def)
  then have h: "read_headers [] (?line @ crlf2 @ body @ rest) = Some (?line @ crlf2, body @ rest)"
    by (intro read_headers_line) simp
  have "atoi (CHR '' '' # dec_str (length body) @ crlf2) = Some (int (length body))"
    using atoi_dec [OF assms(2), of "CHR 0x0D" "tl crlf2"] by (simp add: crlf2_def is_digit_def)
  then have "content_length (?line @ crlf2) = Some (int (length body))" by (simp add: content_length_def)
  with h assms(1) show ?thesis by (simp add: mcp_read_def mcp_write_def)
qed

theorem mcp_framing_roundtrip_witness: "mcp_read (mcp_write ''{}'' @ ''x'') = Some (''{}'', ''x'')"
  by (rule mcp_framing_roundtrip) simp_all

end
