(* ===== verification/Common_Args.thy ===== *)
theory Common_Args
  imports C_Strings
begin

text \<open>
  The command-line arguments every process shares (\<open>common_args.hpp\<close>): the settings, the parser with
  its remainder for the caller, and the help text. \<open>argv[1..]\<close> is a list of strings. A number outside
  the range of \<open>int\<close> makes \<open>atoi\<close> undefined, and the parse \<open>None\<close>.
\<close>

section \<open>Settings\<close>

record common_args =
  ca_socket_path :: string
  ca_db_path :: string
  ca_bpm :: fp
  ca_midi_port :: int
  ca_midi_port_name :: string
  ca_midi_in_port :: int
  ca_midi_in_port_name :: string
  ca_osc_port :: u16
  ca_audio_device :: u32
  ca_audio_out_ch :: u32
  ca_audio_in_ch :: u32
  ca_block_size :: u32
  ca_heartbeat_ms :: u32
  ca_no_audio :: bool
  ca_list_audio_devs :: bool
  ca_version :: bool

definition common_args_new :: common_args where
  "common_args_new = \<lparr>ca_socket_path = [], ca_db_path = ''nomos.db'', ca_bpm = Fin 120, ca_midi_port = - 1, ca_midi_port_name = [],
     ca_midi_in_port = - 1, ca_midi_in_port_name = [], ca_osc_port = 9000, ca_audio_device = 0, ca_audio_out_ch = 2,
     ca_audio_in_ch = 0, ca_block_size = 256, ca_heartbeat_ms = 0, ca_no_audio = False, ca_list_audio_devs = False, ca_version = False\<rparr>"

section \<open>Parsing\<close>

text \<open>A port is an index when the whole argument is a number (converted from \<open>long\<close> to \<open>int\<close>), a name otherwise.\<close>

definition long_to_int :: "int \<Rightarrow> int" where
  "long_to_int n = (n + 2 ^ 31) mod 2 ^ 32 - 2 ^ 31"

definition parse_midi :: "string \<Rightarrow> int + string" where
  "parse_midi v = (case strtol v of (n, end) \<Rightarrow> if end \<noteq> v \<and> end = [] then Inl (long_to_int n) else Inr v)"

text \<open>The flags with a value and what they set.\<close>

definition value_flag :: "string \<Rightarrow> (string \<Rightarrow> common_args \<Rightarrow> common_args option) option" where
  "value_flag a =
     (if a = ''--socket'' then Some (\<lambda>v c. Some (c\<lparr>ca_socket_path := v\<rparr>))
      else if a = ''--db'' then Some (\<lambda>v c. Some (c\<lparr>ca_db_path := v\<rparr>))
      else if a = ''--bpm'' then Some (\<lambda>v c. Some (c\<lparr>ca_bpm := atof v\<rparr>))
      else if a = ''--midi-port'' then Some (\<lambda>v c. Some (case parse_midi v of Inl n \<Rightarrow> c\<lparr>ca_midi_port := n\<rparr> | Inr s \<Rightarrow> c\<lparr>ca_midi_port_name := s\<rparr>))
      else if a = ''--midi-in-port'' then Some (\<lambda>v c. Some (case parse_midi v of Inl n \<Rightarrow> c\<lparr>ca_midi_in_port := n\<rparr> | Inr s \<Rightarrow> c\<lparr>ca_midi_in_port_name := s\<rparr>))
      else if a = ''--osc-port'' then Some (\<lambda>v c. map_option (\<lambda>n. c\<lparr>ca_osc_port := word_of_int n\<rparr>) (atoi v))
      else if a = ''--audio-device'' then Some (\<lambda>v c. map_option (\<lambda>n. c\<lparr>ca_audio_device := word_of_int n\<rparr>) (atoi v))
      else if a = ''--audio-out-ch'' then Some (\<lambda>v c. map_option (\<lambda>n. c\<lparr>ca_audio_out_ch := word_of_int n\<rparr>) (atoi v))
      else if a = ''--audio-in-ch'' then Some (\<lambda>v c. map_option (\<lambda>n. c\<lparr>ca_audio_in_ch := word_of_int n\<rparr>) (atoi v))
      else if a = ''--block-size'' then Some (\<lambda>v c. map_option (\<lambda>n. c\<lparr>ca_block_size := word_of_int n\<rparr>) (atoi v))
      else if a = ''--heartbeat-ms'' then Some (\<lambda>v c. map_option (\<lambda>n. c\<lparr>ca_heartbeat_ms := word_of_int n\<rparr>) (atoi v))
      else None)"

definition switch_flag :: "string \<Rightarrow> (common_args \<Rightarrow> common_args) option" where
  "switch_flag a =
     (if a = ''--no-audio'' then Some (\<lambda>c. c\<lparr>ca_no_audio := True\<rparr>)
      else if a = ''--list-audio-devices'' then Some (\<lambda>c. c\<lparr>ca_list_audio_devs := True\<rparr>)
      else if a = ''--version'' then Some (\<lambda>c. c\<lparr>ca_version := True\<rparr>)
      else None)"

definition looks_like_flag :: "string \<Rightarrow> bool" where
  "looks_like_flag v = (v \<noteq> [] \<and> hd v = CHR ''-'')"

text \<open>The loop. A flag with a value that is the last argument is not recognised and goes to the
  remainder; an unknown argument takes the next one with it unless that looks like a flag.\<close>

function parse_args_loop :: "string list \<Rightarrow> common_args \<Rightarrow> string list \<Rightarrow> (common_args \<times> string list) option" where
  "parse_args_loop [] c rem = Some (c, rem)"
| "parse_args_loop (a # rest) c rem =
     (if value_flag a \<noteq> None \<and> rest \<noteq> [] then
        (case the (value_flag a) (hd rest) c of None \<Rightarrow> None | Some c' \<Rightarrow> parse_args_loop (tl rest) c' rem)
      else (case switch_flag a of
          Some f \<Rightarrow> parse_args_loop rest (f c) rem
        | None \<Rightarrow>
            if rest \<noteq> [] \<and> \<not> looks_like_flag (hd rest) then parse_args_loop (tl rest) c (rem @ [a, hd rest])
            else parse_args_loop rest c (rem @ [a])))"
  by pat_completeness auto
termination by (relation "measure (length \<circ> fst)") (auto simp: less_Suc_eq_le)

definition parse_common_args :: "string list \<Rightarrow> common_args \<Rightarrow> (common_args \<times> string list) option" where
  "parse_common_args argv c = parse_args_loop argv c []"

section \<open>Help\<close>

abbreviation lf :: string where
  "lf \<equiv> [CHR 0x0A]"

definition uint_str :: "'a::len word \<Rightarrow> string" where
  "uint_str w = dec_str (unat w)"

definition print_common_args_help :: "common_args \<Rightarrow> string" where
  "print_common_args_help c =
     ''  --socket <path>            Unix domain socket          (default: '' @ ca_socket_path c @ '')'' @ lf @
     ''  --db <path>                txlog database path         (default: '' @ ca_db_path c @ '')'' @ lf @
     ''  --bpm <bpm>                Initial Link tempo          (default: '' @ fmt_g (ca_bpm c) @ '')'' @ lf @
     ''  --midi-port <n|name>       MIDI output port index or name substring'' @ lf @
     ''  --midi-in-port <n|name>    MIDI input port index or name substring'' @ lf @
     ''  --osc-port <n>             UDP OSC listen port         (default: '' @ uint_str (ca_osc_port c) @ '')'' @ lf @
     ''  --audio-device <id>        RtAudio device id           (default: '' @ uint_str (ca_audio_device c) @ '', see --list-audio-devices)'' @ lf @
     ''  --audio-out-ch <n>         Audio output channels       (default: '' @ uint_str (ca_audio_out_ch c) @ '')'' @ lf @
     ''  --audio-in-ch <n>          Audio input channels        (default: '' @ uint_str (ca_audio_in_ch c) @ '')'' @ lf @
     ''  --block-size <n>           Audio buffer / CLAP block   (default: '' @ uint_str (ca_block_size c) @ '')'' @ lf @
     ''  --heartbeat-ms <n>         Emit [heartbeat] to stderr every n ms (default: 0 = off)'' @ lf @
     ''  --no-audio                 Skip audio device'' @ lf @
     ''  --list-audio-devices       Print available audio devices and exit'' @ lf @
     ''  --version                  Print version and exit'' @ lf"

section \<open>The grammar of a command line\<close>

text \<open>
  What a command line says, read as a sequence of items: a setting, a switch, or an argument of the
  caller, with or without a value.
\<close>

datatype cli_item = Cli_set string string | Cli_switch string | Cli_other string | Cli_other_value string string

fun cli_words :: "cli_item \<Rightarrow> string list" where
  "cli_words (Cli_set a v) = [a, v]"
| "cli_words (Cli_switch a) = [a]"
| "cli_words (Cli_other a) = [a]"
| "cli_words (Cli_other_value a v) = [a, v]"

abbreviation cli_tokens :: "cli_item list \<Rightarrow> string list" where
  "cli_tokens items \<equiv> concat (map cli_words items)"

fun cli_ok :: "cli_item list \<Rightarrow> bool" where
  "cli_ok [] = True"
| "cli_ok (it # its) =
     (cli_ok its \<and>
      (case it of
         Cli_set a v \<Rightarrow> value_flag a \<noteq> None
       | Cli_switch a \<Rightarrow> switch_flag a \<noteq> None
       | Cli_other_value a v \<Rightarrow> value_flag a = None \<and> switch_flag a = None \<and> \<not> looks_like_flag v
       | Cli_other a \<Rightarrow> switch_flag a = None \<and> (its = [] \<or> value_flag a = None \<and> looks_like_flag (hd (cli_tokens its)))))"

fun cli_apply :: "cli_item list \<Rightarrow> common_args \<Rightarrow> common_args option" where
  "cli_apply [] c = Some c"
| "cli_apply (Cli_set a v # its) c = (case the (value_flag a) v c of None \<Rightarrow> None | Some c' \<Rightarrow> cli_apply its c')"
| "cli_apply (Cli_switch a # its) c = cli_apply its (the (switch_flag a) c)"
| "cli_apply (Cli_other a # its) c = cli_apply its c"
| "cli_apply (Cli_other_value a v # its) c = cli_apply its c"

fun cli_rest :: "cli_item list \<Rightarrow> string list" where
  "cli_rest [] = []"
| "cli_rest (Cli_other a # its) = a # cli_rest its"
| "cli_rest (Cli_other_value a v # its) = a # v # cli_rest its"
| "cli_rest (_ # its) = cli_rest its"

lemma flags_disjoint: "switch_flag a \<noteq> None \<Longrightarrow> value_flag a = None"
  by (auto simp: switch_flag_def value_flag_def split: if_splits)

lemma cli_words_nonempty [simp]: "cli_words it \<noteq> []"
  by (cases it) auto

lemma cli_tokens_nil [simp]: "cli_tokens its = [] \<longleftrightarrow> its = []"
  by (cases its) auto

lemma parse_items:
  "cli_ok items \<Longrightarrow> parse_args_loop (cli_tokens items) c rem = map_option (\<lambda>c'. (c', rem @ cli_rest items)) (cli_apply items c)"
proof (induction items arbitrary: c rem)
  case (Cons it its)
  then have ok: "cli_ok its" by simp
  show ?case
  proof (cases it)
    case (Cli_set a v)
    then show ?thesis using Cons.prems Cons.IH [OF ok] by (auto split: option.splits)
  next
    case (Cli_switch a)
    then show ?thesis using Cons.prems Cons.IH [OF ok] flags_disjoint [of a] by (auto split: option.splits)
  next
    case (Cli_other a)
    then show ?thesis using Cons.prems Cons.IH [OF ok] by (cases "its = []") auto
  next
    case (Cli_other_value a v)
    then show ?thesis using Cons.prems Cons.IH [OF ok] by auto
  qed
qed simp

lemma cli_reading_exists: "\<exists>items. cli_ok items \<and> cli_tokens items = argv"
proof (induction "length argv" arbitrary: argv rule: less_induct)
  case less
  have ext: "\<exists>items. cli_ok items \<and> cli_tokens items = argv"
    if "argv = cli_words it @ rest" "\<And>its. cli_ok its \<Longrightarrow> cli_tokens its = rest \<Longrightarrow> cli_ok (it # its)" for it rest
  proof -
    have "length rest < length argv" using that(1) by (cases it) auto
    then obtain its where "cli_ok its" "cli_tokens its = rest" using less by blast
    with that show ?thesis by (intro exI [of _ "it # its"]) auto
  qed
  show ?case
  proof (cases argv)
    case Nil
    then show ?thesis by (intro exI [of _ "[]"]) simp
  next
    case (Cons a rest)
    consider "value_flag a \<noteq> None" "rest \<noteq> []" | "switch_flag a \<noteq> None" "value_flag a = None \<or> rest = []"
      | "switch_flag a = None" "value_flag a = None" "rest \<noteq> []" "\<not> looks_like_flag (hd rest)"
      | "switch_flag a = None" "value_flag a = None \<or> rest = []" "rest = [] \<or> looks_like_flag (hd rest)" by metis
    then show ?thesis
    proof cases
      case 1
      with Cons show ?thesis by (intro ext [of "Cli_set a (hd rest)" "tl rest"]) auto
    next
      case 2
      with Cons show ?thesis by (intro ext [of "Cli_switch a" rest]) auto
    next
      case 3
      with Cons show ?thesis by (intro ext [of "Cli_other_value a (hd rest)" "tl rest"]) auto
    next
      case 4
      with Cons show ?thesis by (intro ext [of "Cli_other a" rest]) auto
    qed
  qed
qed

section \<open>Writing a configuration as arguments\<close>

definition common_args_argv :: "string \<Rightarrow> common_args \<Rightarrow> string list" where
  "common_args_argv bpm c =
     [''--socket'', ca_socket_path c, ''--db'', ca_db_path c, ''--bpm'', bpm,
      ''--midi-port'', int_str (ca_midi_port c), ''--midi-in-port'', int_str (ca_midi_in_port c),
      ''--osc-port'', uint_str (ca_osc_port c), ''--audio-device'', uint_str (ca_audio_device c),
      ''--audio-out-ch'', uint_str (ca_audio_out_ch c), ''--audio-in-ch'', uint_str (ca_audio_in_ch c),
      ''--block-size'', uint_str (ca_block_size c), ''--heartbeat-ms'', uint_str (ca_heartbeat_ms c)] @
     (if ca_no_audio c then [''--no-audio''] else []) @
     (if ca_list_audio_devs c then [''--list-audio-devices''] else []) @
     (if ca_version c then [''--version''] else [])"

lemma atoi_dec_str: "n < 2 ^ 31 \<Longrightarrow> atoi (dec_str n) = Some (int n)"
proof -
  assume n: "n < 2 ^ 31"
  obtain d ds where d: "dec_str n = d # ds" using dec_str_nonempty by (cases "dec_str n") auto
  then have "is_digit d" using dec_str_digits [of d n] by simp
  then have sp: "\<not> is_space d" "d \<noteq> CHR ''-''" "d \<noteq> CHR ''+''" by (auto simp: is_digit_def is_space_def)
  have v: "digits_val 0 (d # ds) = n" using digits_val_dec [of n] by (simp add: d)
  show ?thesis using n sp v by (simp add: atoi_def d Let_def del: digits_val.simps)
qed

lemma strtol_int_str: "- (2 ^ 63) \<le> i \<Longrightarrow> i < 2 ^ 63 \<Longrightarrow> strtol (int_str i) = (i, [])"
proof -
  assume i: "- (2 ^ 63) \<le> i" "i < 2 ^ 63"
  have td: "takeWhile is_digit (dec_str n) = dec_str n" "dropWhile is_digit (dec_str n) = []" for n
    using dec_str_digits by (auto simp: dropWhile_eq_Nil_conv)
  obtain d ds where d: "dec_str (nat i) = d # ds" using dec_str_nonempty by (cases "dec_str (nat i)") auto
  then have dd: "is_digit d" using dec_str_digits [of d "nat i"] by simp
  have "\<not> is_space d" "d \<noteq> CHR ''-''" "d \<noteq> CHR ''+''" "\<not> is_space CHR ''-''"
    using dd by (auto simp: is_digit_def is_space_def)
  then have s: "sign_split (dropWhile is_space (int_str i)) = (i < 0, dec_str (nat \<bar>i\<bar>))"
    by (simp add: int_str_def sign_split_def d)
  show ?thesis unfolding strtol_def s using i by (simp add: td dec_str_nonempty digits_val_dec Let_def)
qed

lemma parse_midi_int: "- (2 ^ 31) \<le> i \<Longrightarrow> i < 2 ^ 31 \<Longrightarrow> parse_midi (int_str i) = Inl i"
proof -
  assume i: "- (2 ^ 31) \<le> i" "i < 2 ^ 31"
  have "int_str i \<noteq> []" by (simp add: int_str_def dec_str_nonempty)
  moreover have "long_to_int i = i" using i by (simp add: long_to_int_def)
  ultimately show ?thesis using i strtol_int_str [of i] by (simp add: parse_midi_def)
qed

definition cli_of :: "string \<Rightarrow> common_args \<Rightarrow> cli_item list" where
  "cli_of bpm c =
     [Cli_set ''--socket'' (ca_socket_path c), Cli_set ''--db'' (ca_db_path c), Cli_set ''--bpm'' bpm,
      Cli_set ''--midi-port'' (int_str (ca_midi_port c)), Cli_set ''--midi-in-port'' (int_str (ca_midi_in_port c)),
      Cli_set ''--osc-port'' (uint_str (ca_osc_port c)), Cli_set ''--audio-device'' (uint_str (ca_audio_device c)),
      Cli_set ''--audio-out-ch'' (uint_str (ca_audio_out_ch c)), Cli_set ''--audio-in-ch'' (uint_str (ca_audio_in_ch c)),
      Cli_set ''--block-size'' (uint_str (ca_block_size c)), Cli_set ''--heartbeat-ms'' (uint_str (ca_heartbeat_ms c))] @
     map Cli_switch ((if ca_no_audio c then [''--no-audio''] else []) @
       (if ca_list_audio_devs c then [''--list-audio-devices''] else []) @ (if ca_version c then [''--version''] else []))"

lemma cli_of_argv: "cli_tokens (cli_of bpm c) = common_args_argv bpm c"
  by (simp add: cli_of_def common_args_argv_def)

lemma cli_of_ok: "cli_ok (cli_of bpm c)"
  by (simp add: cli_of_def value_flag_def switch_flag_def)

lemma cli_of_rest: "cli_rest (cli_of bpm c) = []"
  by (simp add: cli_of_def)

text \<open>The fields that are numbers fit an \<open>int\<close>, and the names and switches are those the defaults leave.\<close>

definition args_writable :: "common_args \<Rightarrow> common_args \<Rightarrow> bool" where
  "args_writable d c =
     (- (2 ^ 31) \<le> ca_midi_port c \<and> ca_midi_port c < 2 ^ 31 \<and> - (2 ^ 31) \<le> ca_midi_in_port c \<and> ca_midi_in_port c < 2 ^ 31 \<and>
      ca_midi_port_name c = ca_midi_port_name d \<and> ca_midi_in_port_name c = ca_midi_in_port_name d \<and>
      list_all (\<lambda>w. unat w < 2 ^ 31) [ca_audio_device c, ca_audio_out_ch c, ca_audio_in_ch c, ca_block_size c, ca_heartbeat_ms c] \<and>
      (ca_no_audio d \<longrightarrow> ca_no_audio c) \<and> (ca_list_audio_devs d \<longrightarrow> ca_list_audio_devs c) \<and> (ca_version d \<longrightarrow> ca_version c))"

lemma atoi_uint_str: "unat w < 2 ^ 31 \<Longrightarrow> atoi (uint_str w) = Some (uint w)"
  by (simp add: uint_str_def atoi_dec_str)

lemma atoi_uint_str16: "atoi (uint_str (w :: u16)) = Some (uint w)"
  using unsigned_less [of w, where ?'a = nat] by (intro atoi_uint_str) simp

lemma cli_of_apply:
  assumes "args_writable d c" "atof bpm = ca_bpm c"
  shows "cli_apply (cli_of bpm c) d = Some c"
  using assms by (cases c; cases d) (auto simp: cli_of_def value_flag_def switch_flag_def args_writable_def parse_midi_int atoi_uint_str atoi_uint_str16)

section \<open>Properties\<close>

text \<open>C40: every command line reads as a sequence of settings, switches and arguments of the caller,
  and for every such sequence the parser applies the settings and switches in their order (or hits a
  number that \<open>atoi\<close> does not define) and returns the caller's arguments, with their values, in theirs.\<close>

theorem parse_common_args_exact:
  "(\<exists>items. cli_ok items \<and> cli_tokens items = argv) \<and>
   (\<forall>items. cli_ok items \<and> cli_tokens items = argv \<longrightarrow>
      parse_common_args argv c = map_option (\<lambda>c'. (c', cli_rest items)) (cli_apply items c))"
  using cli_reading_exists parse_items [of _ c "[]"] by (auto simp: parse_common_args_def)

theorem parse_common_args_exact_witness:
  "parse_common_args [''--seed'', ''7'', ''--no-audio'', ''--socket''] common_args_new =
     Some (common_args_new\<lparr>ca_no_audio := True\<rparr>, [''--seed'', ''7'', ''--socket''])"
proof -
  let ?its = "[Cli_other_value ''--seed'' ''7'', Cli_switch ''--no-audio'', Cli_other ''--socket'']"
  have ok: "cli_ok ?its" by (simp add: value_flag_def switch_flag_def looks_like_flag_def)
  have "cli_tokens ?its = [''--seed'', ''7'', ''--no-audio'', ''--socket'']" by simp
  with ok have "parse_common_args [''--seed'', ''7'', ''--no-audio'', ''--socket''] common_args_new =
      map_option (\<lambda>c'. (c', cli_rest ?its)) (cli_apply ?its common_args_new)"
    using parse_common_args_exact [of "[''--seed'', ''7'', ''--no-audio'', ''--socket'']" common_args_new] by blast
  then show ?thesis by (simp add: switch_flag_def)
qed

text \<open>A configuration written as arguments is read back as it is, whatever the defaults were, and
  leaves nothing for the caller.\<close>

theorem common_args_roundtrip:
  assumes "args_writable d c" "atof bpm = ca_bpm c"
  shows "parse_common_args (common_args_argv bpm c) d = Some (c, [])"
  using parse_items [OF cli_of_ok, of bpm c d "[]"] cli_of_apply [OF assms]
  by (simp add: parse_common_args_def cli_of_argv cli_of_rest)

lemma atof_120: "atof ''120'' = Fin 120"
proof -
  have "number_of 10 CHR ''e'' 10 ''120'' = Some 120" by code_simp
  moreover have "rnd F64 False 120 = Fin 120" by (simp add: rnd_rep mk_fin_def)
  moreover have "sign_split (dropWhile is_space ''120'') = (False, ''120'')" "map lower ''120'' = ''120''" "lower CHR ''1'' = CHR ''1''"
    "lower CHR ''2'' = CHR ''2''" by code_simp+
  ultimately show ?thesis by (simp add: atof_def)
qed

theorem common_args_roundtrip_witness:
  "let c = common_args_new\<lparr>ca_socket_path := ''/tmp/aion.sock'', ca_osc_port := 9001, ca_no_audio := True\<rparr> in
   args_writable common_args_new c \<and> parse_common_args (common_args_argv ''120'' c) common_args_new = Some (c, [])"
proof -
  define c where "c = common_args_new\<lparr>ca_socket_path := ''/tmp/aion.sock'', ca_osc_port := 9001, ca_no_audio := True\<rparr>"
  have w: "args_writable common_args_new c" by (simp add: c_def common_args_new_def args_writable_def)
  have "atof ''120'' = ca_bpm c" by (simp add: atof_120 c_def common_args_new_def)
  from common_args_roundtrip [OF w this] w show ?thesis by (simp add: c_def Let_def)
qed

end
