(* ===== verification/Luajit.thy ===== *)
theory Luajit
  imports Osc C_Strings "HOL-Library.Monad_Syntax"
begin

text \<open>
  The scripting participant (\<open>luajit_participant.cpp\<close>). LuaJIT is a parameter: a record of the C API
  functions the sources call, over a type \<open>'s\<close> of Lua states. What the code relies on is \<open>lua_ok\<close>, the
  documented effect of each function on the stack and on the rest of the state: a push needs a free slot,
  of which the manual guarantees \<open>LUA_MINSTACK\<close>; a call, and an access that may run a metamethod, may change
  anything but the stack below and need not return. Failing allocations and finalizers are left out. The REPL
  prelude, which the file holds as Fennel source, is the subject of the theory \<open>Luajit_Prelude\<close>.
\<close>

section \<open>The Lua C API\<close>

datatype lua_value =
    Lua_nil
  | Lua_bool bool
  | Lua_number fp
  | Lua_string string
  | Lua_table nat
  | Lua_function nat
  | Lua_pointer nat
  | Lua_object nat

text \<open>The C functions the file registers.\<close>

datatype lua_cfun = C_osc_push_endpoints | C_vcv_hot_swap

text \<open>\<open>la_at\<close> is the value at an index, which \<open>lua_type\<close>, \<open>lua_tonumber\<close>, \<open>lua_toboolean\<close> and
  \<open>lua_touserdata\<close> read; \<open>la_push\<close> is every function that pushes a given value. \<open>lua_tolstring\<close> may
  convert the value it reads. The functions that can run Lua code give \<open>None\<close> when they do not return, because
  the code loops or raises an error outside a protected call.\<close>

record 's lua_api =
  la_newstate :: "'s option"
  la_openlibs :: "'s \<Rightarrow> 's"
  la_loadbuffer :: "'s \<Rightarrow> string \<Rightarrow> string \<Rightarrow> int \<times> 's"
  la_gettop :: "'s \<Rightarrow> int"
  la_settop :: "'s \<Rightarrow> int \<Rightarrow> 's"
  la_at :: "'s \<Rightarrow> int \<Rightarrow> lua_value"
  la_upvalue :: "'s \<Rightarrow> nat \<Rightarrow> lua_value"
  la_tointeger :: "'s \<Rightarrow> int \<Rightarrow> int"
  la_tolstring :: "'s \<Rightarrow> int \<Rightarrow> string option \<times> 's"
  la_getglobal :: "'s \<Rightarrow> string \<Rightarrow> 's option"
  la_setglobal :: "'s \<Rightarrow> string \<Rightarrow> 's option"
  la_getfield :: "'s \<Rightarrow> int \<Rightarrow> string \<Rightarrow> 's option"
  la_gettable :: "'s \<Rightarrow> int \<Rightarrow> 's option"
  la_next :: "'s \<Rightarrow> int \<Rightarrow> bool \<times> 's"
  la_push :: "'s \<Rightarrow> lua_value \<Rightarrow> 's"
  la_pushvalue :: "'s \<Rightarrow> int \<Rightarrow> 's"
  la_pushcclosure :: "'s \<Rightarrow> lua_cfun \<Rightarrow> nat \<Rightarrow> 's"
  la_pcall :: "'s \<Rightarrow> nat \<Rightarrow> nat \<Rightarrow> (int \<times> 's) option"

text \<open>The macro \<open>lua_pop\<close>.\<close>

definition la_pop :: "'s lua_api \<Rightarrow> 's \<Rightarrow> int \<Rightarrow> 's" where
  "la_pop A L n = la_settop A L (- n - 1)"

fun is_table :: "lua_value \<Rightarrow> bool" where
  "is_table (Lua_table _) = True" | "is_table _ = False"

fun is_function :: "lua_value \<Rightarrow> bool" where
  "is_function (Lua_function _) = True" | "is_function _ = False"

fun is_string :: "lua_value \<Rightarrow> bool" where
  "is_string (Lua_string _) = True" | "is_string _ = False"

section \<open>Values as text\<close>

definition lua_tostring_safe :: "'s lua_api \<Rightarrow> 's \<Rightarrow> int \<Rightarrow> string \<times> 's" where
  "lua_tostring_safe A L idx = (case la_tolstring A L idx of (s, L') \<Rightarrow> (case s of None \<Rightarrow> [] | Some t \<Rightarrow> t, L'))"

fun edn_escape :: "string \<Rightarrow> string" where
  "edn_escape [] = []"
| "edn_escape (c # cs) = (if c = CHR 0x22 \<or> c = CHR 0x5C then [CHR 0x5C, c] else [c]) @ edn_escape cs"

definition edn_quoted :: "string \<Rightarrow> string" where
  "edn_quoted s = CHR 0x22 # s @ [CHR 0x22]"

definition lua_to_edn :: "'s lua_api \<Rightarrow> 's \<Rightarrow> int \<Rightarrow> (string \<times> 's) option" where
  "lua_to_edn A L idx =
     (case la_at A L idx of
        Lua_number n \<Rightarrow>
          let i = la_tointeger A L idx in Some (if feq (of_int_fp F64 i) n then int_str i else fmt_g n, L)
      | Lua_bool b \<Rightarrow> Some (if b then ''true'' else ''false'', L)
      | Lua_nil \<Rightarrow> Some (''nil'', L)
      | Lua_string _ \<Rightarrow> (case lua_tostring_safe A L idx of (raw, L') \<Rightarrow> Some (edn_quoted (edn_escape raw), L'))
      | _ \<Rightarrow> do {
          L1 \<leftarrow> la_getglobal A L ''tostring'';
          (st, L3) \<leftarrow> la_pcall A (la_pushvalue A L1 idx) 1 1;
          Some (if st = 0 then (case lua_tostring_safe A L3 (- 1) of (s, L4) \<Rightarrow> (edn_quoted s, la_pop A L4 1))
                else ('':unknown'', la_pop A L3 1))
        })"

section \<open>The C functions\<close>

text \<open>A callable that was registered is held by its position; \<open>None\<close> is a null upvalue. Each function
  gives the calls it makes, the number of results it returns and the state.\<close>

definition upvalue_fn :: "'s lua_api \<Rightarrow> 's \<Rightarrow> 'f list \<Rightarrow> 'f option" where
  "upvalue_fn A L fns = (case la_upvalue A L 1 of Lua_pointer k \<Rightarrow> if k < length fns then Some (fns ! k) else None | _ \<Rightarrow> None)"

definition l_osc_push_endpoints :: "'s lua_api \<Rightarrow> 'f list \<Rightarrow> 's \<Rightarrow> 'f list \<times> nat \<times> 's" where
  "l_osc_push_endpoints A fns L =
     (case upvalue_fn A L fns of None \<Rightarrow> [] | Some fn \<Rightarrow> [fn], 1, la_push A L (Lua_bool True))"

definition l_vcv_hot_swap ::
  "'s lua_api \<Rightarrow> ('f \<Rightarrow> string \<Rightarrow> string \<Rightarrow> bool) \<Rightarrow> 'f list \<Rightarrow> 's \<Rightarrow> ('f \<times> string \<times> string) list \<times> nat \<times> 's" where
  "l_vcv_hot_swap A swap fns L =
     (case la_tolstring A L 1 of (s1, L1) \<Rightarrow>
      case la_tolstring A L1 2 of (s2, L2) \<Rightarrow>
        (case (upvalue_fn A L fns, s1, s2) of
           (Some fn, Some slot, Some path) \<Rightarrow>
             let node_id = ''vcv-slot-'' @ slot in
             ([(fn, node_id, path)], 1,
              la_push A L2 (Lua_string (if swap fn node_id path then ''{:status :ok}''
                else ''{:status :error :reason '' @ edn_quoted ''swap failed'' @ ''}'')))
         | _ \<Rightarrow> ([], 1, la_push A L2 (Lua_string (''{:status :error :reason '' @ edn_quoted ''bad args'' @ ''}'')))))"

section \<open>The participant\<close>

text \<open>\<open>lj_L\<close> is \<open>None\<close> once the state is closed. The mutex makes each operation one step.\<close>

record ('s, 'w, 'o) participant =
  lj_L :: "'s option"
  lj_beat :: fp
  lj_bpm :: fp
  lj_running :: bool
  lj_wasm_fns :: "'w list"
  lj_osc_fns :: "'o list"

definition participant_new :: "'s \<Rightarrow> ('s, 'w, 'o) participant" where
  "participant_new L = \<lparr>lj_L = Some L, lj_beat = Fin 0, lj_bpm = Fin 120, lj_running = True, lj_wasm_fns = [], lj_osc_fns = []\<rparr>"

definition participant_destroy :: "('s, 'w, 'o) participant \<Rightarrow> ('s, 'w, 'o) participant" where
  "participant_destroy p = p\<lparr>lj_running := False, lj_L := None\<rparr>"

definition kFennelPaths :: "string list" where
  "kFennelPaths = [''/opt/homebrew/share/lua/5.1/fennel.lua'', ''/usr/local/share/lua/5.1/fennel.lua'',
     ''/usr/share/lua/5.1/fennel.lua'', ''fennel.lua'']"

text \<open>\<open>slurp\<close> is the contents of a file, empty when it cannot be read.\<close>

definition fennel_source :: "(string \<Rightarrow> string) \<Rightarrow> string \<Rightarrow> string" where
  "fennel_source slurp hint =
     (let s = (if hint = [] then [] else slurp hint) in
      if s \<noteq> [] then s
      else (case find (\<lambda>p. slurp p \<noteq> []) kFennelPaths of None \<Rightarrow> [] | Some p \<Rightarrow> slurp p))"

text \<open>\<open>fennel.eval\<close> called on a text, as \<open>eval\<close> and \<open>load_prelude\<close> do; the first component says how it ended.\<close>

datatype fennel_status = Fennel_missing | Fennel_eval_missing | Fennel_failed | Fennel_done

definition fennel_call :: "'s lua_api \<Rightarrow> 's \<Rightarrow> string \<Rightarrow> (fennel_status \<times> 's) option" where
  "fennel_call A L src = do {
     L1 \<leftarrow> la_getglobal A L ''fennel'';
     if \<not> is_table (la_at A L1 (- 1)) then Some (Fennel_missing, L1)
     else do {
       L2 \<leftarrow> la_getfield A L1 (- 1) ''eval'';
       if \<not> is_function (la_at A L2 (- 1)) then Some (Fennel_eval_missing, L2)
       else do {
         (st, L3) \<leftarrow> la_pcall A (la_push A L2 (Lua_string src)) 1 1;
         Some (if st \<noteq> 0 then Fennel_failed else Fennel_done, L3)
       }
     }
   }"

definition load_prelude :: "'s lua_api \<Rightarrow> string \<Rightarrow> ('s, 'w, 'o) participant \<Rightarrow> ('s, 'w, 'o) participant option" where
  "load_prelude A kPrelude p =
     (case lj_L p of None \<Rightarrow> Some p | Some L \<Rightarrow>
        let base = la_gettop A L in do {
          (st, L') \<leftarrow> fennel_call A L kPrelude;
          Some (case st of
             Fennel_failed \<Rightarrow> p\<lparr>lj_L := Some (la_settop A (snd (lua_tostring_safe A L' (- 1))) base)\<rparr>
           | _ \<Rightarrow> p\<lparr>lj_L := Some (la_settop A L' base)\<rparr>)
        })"

text \<open>\<open>Some None\<close> is the null pointer.\<close>

definition participant_load :: "'s lua_api \<Rightarrow> (string \<Rightarrow> string) \<Rightarrow> string \<Rightarrow> string \<Rightarrow> ('s, 'w, 'o) participant option option" where
  "participant_load A slurp kPrelude hint =
     (let src = fennel_source slurp hint in
      if src = [] then Some None
      else (case la_newstate A of None \<Rightarrow> Some None | Some L \<Rightarrow>
        case la_loadbuffer A (la_openlibs A L) src ''fennel'' of (st, L1) \<Rightarrow>
          if st \<noteq> 0 then Some None
          else do {
            (st2, L2) \<leftarrow> la_pcall A L1 0 1;
            if st2 \<noteq> 0 then Some None
            else do {
              L3 \<leftarrow> la_setglobal A L2 ''fennel'';
              p \<leftarrow> load_prelude A kPrelude (participant_new L3);
              Some (Some p)
            }
          }))"

definition participant_eval :: "'s lua_api \<Rightarrow> string \<Rightarrow> ('s, 'w, 'o) participant \<Rightarrow> (string \<times> ('s, 'w, 'o) participant) option" where
  "participant_eval A src p =
     (case lj_L p of None \<Rightarrow> Some (''{:error '' @ edn_quoted ''Lua state closed'' @ ''}'', p) | Some L \<Rightarrow>
        let base = la_gettop A L in do {
          (st, L') \<leftarrow> fennel_call A L src;
          (case st of
             Fennel_missing \<Rightarrow> Some (''{:error '' @ edn_quoted ''fennel global missing'' @ ''}'', p\<lparr>lj_L := Some (la_settop A L' base)\<rparr>)
           | Fennel_eval_missing \<Rightarrow> Some (''{:error '' @ edn_quoted ''fennel.eval missing'' @ ''}'', p\<lparr>lj_L := Some (la_settop A L' base)\<rparr>)
           | Fennel_failed \<Rightarrow> (case lua_tostring_safe A L' (- 1) of (err, L2) \<Rightarrow>
               Some (''{:error '' @ edn_quoted (edn_escape err) @ ''}'', p\<lparr>lj_L := Some (la_settop A L2 base)\<rparr>))
           | Fennel_done \<Rightarrow> do {
               (result, L2) \<leftarrow> lua_to_edn A L' (- 1);
               Some (result, p\<lparr>lj_L := Some (la_settop A L2 base)\<rparr>)
             })
        })"

definition register_wasm_swap_fn :: "'s lua_api \<Rightarrow> 'w \<Rightarrow> ('s, 'w, 'o) participant \<Rightarrow> ('s, 'w, 'o) participant option" where
  "register_wasm_swap_fn A fn p =
     (case lj_L p of None \<Rightarrow> Some p | Some L \<Rightarrow>
        let L1 = la_push A L (Lua_pointer (length (lj_wasm_fns p))) in do {
          L2 \<leftarrow> la_setglobal A (la_pushcclosure A L1 C_vcv_hot_swap 1) ''nomos_vcv_hot_swap'';
          Some (p\<lparr>lj_wasm_fns := lj_wasm_fns p @ [fn], lj_L := Some L2\<rparr>)
        })"

definition register_osc_push_fn :: "'s lua_api \<Rightarrow> 'o \<Rightarrow> ('s, 'w, 'o) participant \<Rightarrow> ('s, 'w, 'o) participant option" where
  "register_osc_push_fn A fn p =
     (case lj_L p of None \<Rightarrow> Some p | Some L \<Rightarrow>
        let L1 = la_push A L (Lua_pointer (length (lj_osc_fns p))) in do {
          L2 \<leftarrow> la_setglobal A (la_pushcclosure A L1 C_osc_push_endpoints 1) ''nomos_osc_push_endpoints'';
          Some (p\<lparr>lj_osc_fns := lj_osc_fns p @ [fn], lj_L := Some L2\<rparr>)
        })"

text \<open>The arguments of an OSC message, pushed in order; a tag without enough bytes, or of another type, is skipped.
  The loop does not ask for stack space: with more values than free slots it runs past the stack.\<close>

fun push_osc_args :: "'s lua_api \<Rightarrow> u8 list \<Rightarrow> u8 list \<Rightarrow> nat \<Rightarrow> 's \<Rightarrow> nat \<Rightarrow> 's \<times> nat" where
  "push_osc_args A [] args off L n = (L, n)"
| "push_osc_args A (tag # tags) args off L n =
     (if tag = of_char CHR ''i'' \<and> off + 4 \<le> length args then
        push_osc_args A tags args (off + 4) (la_push A L (Lua_number (of_int_fp F64 (sint (osc_int32 args off))))) (n + 1)
      else if tag = of_char CHR ''f'' \<and> off + 4 \<le> length args then
        push_osc_args A tags args (off + 4) (la_push A L (Lua_number (osc_float args off))) (n + 1)
      else if tag = of_char CHR ''s'' \<and> off < length args then
        let slen = strnlen (drop off args) in
        push_osc_args A tags args (off + pad4 (slen + 1)) (la_push A L (Lua_string (bytes_str (take slen (drop off args))))) (n + 1)
      else push_osc_args A tags args off L n)"

definition dispatch_osc ::
  "'s lua_api \<Rightarrow> u8 list \<Rightarrow> u8 list \<Rightarrow> u8 list \<Rightarrow> ('s, 'w, 'o) participant \<Rightarrow> (bool \<times> ('s, 'w, 'o) participant) option" where
  "dispatch_osc A path type_tags args p =
     (case lj_L p of None \<Rightarrow> Some (False, p) | Some L \<Rightarrow>
        let base = la_gettop A L in do {
          L1 \<leftarrow> la_getglobal A L ''nomos-osc-dispatch'';
          if \<not> is_table (la_at A L1 (- 1)) then Some (False, p\<lparr>lj_L := Some (la_settop A L1 base)\<rparr>)
          else do {
            L2 \<leftarrow> la_gettable A (la_push A L1 (Lua_string (bytes_str path))) (- 2);
            if \<not> is_function (la_at A L2 (- 1)) then Some (False, p\<lparr>lj_L := Some (la_settop A L2 base)\<rparr>)
            else (case push_osc_args A type_tags args 0 L2 0 of (L3, nargs) \<Rightarrow> do {
              (st, L4) \<leftarrow> la_pcall A L3 nargs 0;
              Some (True, p\<lparr>lj_L := Some (la_settop A (if st \<noteq> 0 then snd (lua_tostring_safe A L4 (- 1)) else L4) base)\<rparr>)
            })
          }
        })"

partial_function (option) endpoints_loop :: "'s lua_api \<Rightarrow> 's \<Rightarrow> string \<Rightarrow> (string \<times> 's) option" where
  "endpoints_loop A L result =
     (case la_next A L (- 2) of (again, L1) \<Rightarrow>
        if \<not> again then Some (result, L1)
        else case (if is_string (la_at A L1 (- 2)) then lua_tostring_safe A L1 (- 2) else ([], L1)) of (key, L2) \<Rightarrow>
          endpoints_loop A (la_pop A L2 1) (if is_string (la_at A L1 (- 2)) then result @ key @ [CHR 0x0A] else result))"

definition get_osc_endpoints :: "'s lua_api \<Rightarrow> ('s, 'w, 'o) participant \<Rightarrow> (string \<times> ('s, 'w, 'o) participant) option" where
  "get_osc_endpoints A p =
     (case lj_L p of None \<Rightarrow> Some ([], p) | Some L \<Rightarrow>
        let base = la_gettop A L in do {
          L1 \<leftarrow> la_getglobal A L ''nomos-osc-dispatch'';
          if \<not> is_table (la_at A L1 (- 1)) then Some ([], p\<lparr>lj_L := Some (la_settop A L1 base)\<rparr>)
          else do {
            (result, L2) \<leftarrow> endpoints_loop A (la_push A L1 Lua_nil) [];
            Some (result, p\<lparr>lj_L := Some (la_settop A L2 base)\<rparr>)
          }
        })"

definition set_beat :: "fp \<Rightarrow> fp \<Rightarrow> ('s, 'w, 'o) participant \<Rightarrow> ('s, 'w, 'o) participant" where
  "set_beat beat bpm p = p\<lparr>lj_beat := beat, lj_bpm := bpm\<rparr>"

definition tick_once :: "'s lua_api \<Rightarrow> ('s, 'w, 'o) participant \<Rightarrow> ('s, 'w, 'o) participant option" where
  "tick_once A p =
     (case lj_L p of None \<Rightarrow> Some p | Some L \<Rightarrow> do {
        L1 \<leftarrow> la_getglobal A L ''nomos_rt_tick'';
        if \<not> is_function (la_at A L1 (- 1)) then Some (p\<lparr>lj_L := Some (la_pop A L1 1)\<rparr>)
        else do {
          (st, L2) \<leftarrow> la_pcall A (la_push A (la_push A L1 (Lua_number (lj_beat p))) (Lua_number (lj_bpm p))) 2 0;
          Some (p\<lparr>lj_L := Some (if st \<noteq> 0 then la_pop A L2 1 else L2)\<rparr>)
        }
      })"

text \<open>The stubs of a build without LuaJIT.\<close>

definition stub_load :: "string \<Rightarrow> ('s, 'w, 'o) participant option" where
  "stub_load hint = None"

definition stub_eval :: "string \<Rightarrow> string" where
  "stub_eval src = ''{:error '' @ edn_quoted ''LuaJIT not compiled in'' @ ''}''"

section \<open>What the code relies on\<close>

text \<open>
  The stack and the rest of a Lua state as the reference manual describes them: globals, tables, the
  order \<open>lua_next\<close> visits a table in, and the effect of calling a value (results or an error).
\<close>

record ('s, 'h) lua_sem =
  ls_stack :: "'s \<Rightarrow> lua_value list"
  ls_heap :: "'s \<Rightarrow> 'h"
  ls_global :: "'h \<Rightarrow> string \<Rightarrow> (lua_value \<times> 'h) option"
  ls_set_global :: "'h \<Rightarrow> string \<Rightarrow> lua_value \<Rightarrow> 'h option"
  ls_get :: "'h \<Rightarrow> lua_value \<Rightarrow> lua_value \<Rightarrow> (lua_value \<times> 'h) option"
  ls_entries :: "'h \<Rightarrow> lua_value \<Rightarrow> (lua_value \<times> lua_value) list"
  ls_call :: "'h \<Rightarrow> lua_value \<Rightarrow> lua_value list \<Rightarrow> ((lua_value + lua_value list) \<times> 'h) option"
  ls_closure :: "'h \<Rightarrow> lua_cfun \<Rightarrow> lua_value list \<Rightarrow> lua_value \<times> 'h"

definition lua_obs :: "('s, 'h) lua_sem \<Rightarrow> 's \<Rightarrow> lua_value list \<times> 'h" where
  "lua_obs M L = (ls_stack M L, ls_heap M L)"

text \<open>A negative index counts from the top.\<close>

definition lua_idx :: "nat \<Rightarrow> int \<Rightarrow> nat" where
  "lua_idx n i = (if i < 0 then nat (int n + i) else nat i - 1)"

definition lua_idx_ok :: "nat \<Rightarrow> int \<Rightarrow> bool" where
  "lua_idx_ok n i = (- int n \<le> i \<and> i \<le> int n \<and> i \<noteq> 0)"

text \<open>The successor of a key in the order of the entries; \<open>nil\<close> starts.\<close>

fun next_entry :: "(lua_value \<times> lua_value) list \<Rightarrow> lua_value \<Rightarrow> (lua_value \<times> lua_value) option" where
  "next_entry es k = (if k = Lua_nil then (case es of [] \<Rightarrow> None | e # _ \<Rightarrow> Some e)
     else (case dropWhile (\<lambda>e. fst e \<noteq> k) es of _ # e # _ \<Rightarrow> Some e | _ \<Rightarrow> None))"

text \<open>\<open>LUA_MINSTACK\<close>: the slots that are there without \<open>lua_checkstack\<close>, which the code never calls.\<close>

definition lua_minstack :: nat where
  "lua_minstack = 20"

definition lua_push_ok :: "'s lua_api \<Rightarrow> ('s, 'h) lua_sem \<Rightarrow> bool" where
  "lua_push_ok A M =
     (\<forall>L xs h. lua_obs M L = (xs, h) \<longrightarrow>
        la_gettop A L = int (length xs) \<and>
        (\<forall>n \<le> length xs. lua_obs M (la_settop A L (int n)) = (take n xs, h)) \<and>
        (\<forall>n \<le> length xs. lua_obs M (la_settop A L (- int n - 1)) = (take (length xs - n) xs, h)) \<and>
        (\<forall>v. length xs < lua_minstack \<longrightarrow> lua_obs M (la_push A L v) = (xs @ [v], h)) \<and>
        (\<forall>i. lua_idx_ok (length xs) i \<longrightarrow>
           la_at A L i = xs ! lua_idx (length xs) i \<and>
           (length xs < lua_minstack \<longrightarrow> lua_obs M (la_pushvalue A L i) = (xs @ [xs ! lua_idx (length xs) i], h))))"

definition lua_read_ok :: "'s lua_api \<Rightarrow> ('s, 'h) lua_sem \<Rightarrow> bool" where
  "lua_read_ok A M =
     (\<forall>L xs h i. lua_obs M L = (xs, h) \<longrightarrow> lua_idx_ok (length xs) i \<longrightarrow>
        (\<forall>t. xs ! lua_idx (length xs) i = Lua_string t \<longrightarrow> fst (la_tolstring A L i) = Some t \<and> lua_obs M (snd (la_tolstring A L i)) = (xs, h)) \<and>
        (\<exists>v. lua_obs M (snd (la_tolstring A L i)) = (xs[lua_idx (length xs) i := v], h)) \<and>
        (\<forall>x r. xs ! lua_idx (length xs) i = Lua_number x \<longrightarrow> fin_val x = Some r \<longrightarrow> \<bar>r\<bar> < 2 ^ 63 \<longrightarrow> la_tointeger A L i = trunc_fp r))"

text \<open>Accesses to globals and fields may run metamethods: they give a value and change the rest of the state, or do
  not return.\<close>

definition lua_access_ok :: "'s lua_api \<Rightarrow> ('s, 'h) lua_sem \<Rightarrow> bool" where
  "lua_access_ok A M =
     (\<forall>L xs h. lua_obs M L = (xs, h) \<longrightarrow>
        (\<forall>nm. length xs < lua_minstack \<longrightarrow>
           map_option (lua_obs M) (la_getglobal A L nm) = map_option (\<lambda>(v, h'). (xs @ [v], h')) (ls_global M h nm)) \<and>
        (\<forall>ys v nm. xs = ys @ [v] \<longrightarrow>
           map_option (lua_obs M) (la_setglobal A L nm) = map_option (\<lambda>h'. (ys, h')) (ls_set_global M h nm v)) \<and>
        (\<forall>i nm. lua_idx_ok (length xs) i \<longrightarrow> length xs < lua_minstack \<longrightarrow>
           map_option (lua_obs M) (la_getfield A L i nm) =
             map_option (\<lambda>(v, h'). (xs @ [v], h')) (ls_get M h (xs ! lua_idx (length xs) i) (Lua_string nm))) \<and>
        (\<forall>ys k i. xs = ys @ [k] \<longrightarrow> lua_idx_ok (length xs) i \<longrightarrow>
           map_option (lua_obs M) (la_gettable A L i) =
             map_option (\<lambda>(v, h'). (ys @ [v], h')) (ls_get M h (xs ! lua_idx (length xs) i) k)))"

text \<open>\<open>lua_next\<close> is for tables and for keys it has given itself.\<close>

definition lua_next_ok :: "'s lua_api \<Rightarrow> ('s, 'h) lua_sem \<Rightarrow> bool" where
  "lua_next_ok A M =
     ((\<forall>h t. distinct (map fst (ls_entries M h t)) \<and> Lua_nil \<notin> fst ` set (ls_entries M h t)) \<and>
      (\<forall>L ys k h i. lua_obs M L = (ys @ [k], h) \<longrightarrow> lua_idx_ok (length (ys @ [k])) i \<longrightarrow> length (ys @ [k]) < lua_minstack \<longrightarrow>
         (let t = (ys @ [k]) ! lua_idx (length (ys @ [k])) i in
          is_table t \<longrightarrow> k = Lua_nil \<or> k \<in> fst ` set (ls_entries M h t) \<longrightarrow>
            (case next_entry (ls_entries M h t) k of
               None \<Rightarrow> \<not> fst (la_next A L i) \<and> lua_obs M (snd (la_next A L i)) = (ys, h)
             | Some (k', v) \<Rightarrow> fst (la_next A L i) \<and> lua_obs M (snd (la_next A L i)) = (ys @ [k', v], h)))))"

text \<open>A protected call pops the function and its arguments and leaves its results, as many as asked for, or the
  error; it need not return.\<close>

definition lua_call_ok :: "'s lua_api \<Rightarrow> ('s, 'h) lua_sem \<Rightarrow> bool" where
  "lua_call_ok A M =
     (\<forall>L ys h. (\<forall>f args nres. lua_obs M L = (ys @ f # args, h) \<longrightarrow>
        map_option (map_prod (\<lambda>st. st = 0) (lua_obs M)) (la_pcall A L (length args) nres) =
          map_option (\<lambda>(r, h'). case r of
              Inr rs \<Rightarrow> (True, ys @ take nres (rs @ replicate nres Lua_nil), h')
            | Inl e \<Rightarrow> (False, ys @ [e], h')) (ls_call M h f args)) \<and>
      (\<forall>us f. lua_obs M L = (ys @ us, h) \<longrightarrow> us \<noteq> [] \<longrightarrow>
        (case ls_closure M h f us of (v, h') \<Rightarrow> lua_obs M (la_pushcclosure A L f (length us)) = (ys @ [v], h'))))"

definition lua_load_ok :: "'s lua_api \<Rightarrow> ('s, 'h) lua_sem \<Rightarrow> bool" where
  "lua_load_ok A M =
     ((\<forall>L. la_newstate A = Some L \<longrightarrow> ls_stack M L = []) \<and> (\<forall>L. ls_stack M (la_openlibs A L) = ls_stack M L) \<and>
      (\<forall>L src nm. fst (la_loadbuffer A L src nm) = 0 \<longrightarrow> length (ls_stack M L) < lua_minstack \<longrightarrow>
         (\<exists>f. ls_stack M (snd (la_loadbuffer A L src nm)) = ls_stack M L @ [f])))"

definition lua_ok :: "'s lua_api \<Rightarrow> ('s, 'h) lua_sem \<Rightarrow> bool" where
  "lua_ok A M = (lua_push_ok A M \<and> lua_read_ok A M \<and> lua_access_ok A M \<and> lua_next_ok A M \<and> lua_call_ok A M \<and> lua_load_ok A M)"

lemma lua_okD:
  "lua_ok A M \<Longrightarrow> lua_push_ok A M" "lua_ok A M \<Longrightarrow> lua_read_ok A M" "lua_ok A M \<Longrightarrow> lua_access_ok A M" "lua_ok A M \<Longrightarrow> lua_next_ok A M"
  "lua_ok A M \<Longrightarrow> lua_call_ok A M"
  by (simp_all add: lua_ok_def)

text \<open>The same facts in the form the code uses them: with the values it left on top of the stack.\<close>

lemma lua_gettop: "lua_ok A M \<Longrightarrow> lua_obs M L = (xs, h) \<Longrightarrow> la_gettop A L = int (length xs)"
  using lua_okD(1) [of A M] by (simp add: lua_push_ok_def)

lemma lua_settop: "lua_ok A M \<Longrightarrow> lua_obs M L = (xs @ ys, h) \<Longrightarrow> lua_obs M (la_settop A L (int (length xs))) = (xs, h)"
  using lua_okD(1) [of A M] unfolding lua_push_ok_def by fastforce

lemma lua_unwind:
  "lua_ok A M \<Longrightarrow> lua_obs M L = (xs, h) \<Longrightarrow> lua_obs M L' = (xs @ ys, h') \<Longrightarrow> lua_obs M (la_settop A L' (la_gettop A L)) = (xs, h')"
  using lua_settop [of A M L' xs ys h'] by (simp add: lua_gettop)

lemma lua_pop1: "lua_ok A M \<Longrightarrow> lua_obs M L = (xs @ [v], h) \<Longrightarrow> lua_obs M (la_pop A L 1) = (xs, h)"
proof -
  assume a: "lua_ok A M" "lua_obs M L = (xs @ [v], h)"
  then have "\<forall>n \<le> length (xs @ [v]). lua_obs M (la_settop A L (- int n - 1)) = (take (length (xs @ [v]) - n) (xs @ [v]), h)"
    using lua_okD(1) [of A M] unfolding lua_push_ok_def by blast
  from this [rule_format, of 1] show ?thesis by (simp add: la_pop_def)
qed

lemma lua_push: "lua_ok A M \<Longrightarrow> lua_obs M L = (xs, h) \<Longrightarrow> length xs < lua_minstack \<Longrightarrow> lua_obs M (la_push A L v) = (xs @ [v], h)"
  using lua_okD(1) [of A M] by (simp add: lua_push_ok_def)

lemma lua_idx_top: "lua_idx_ok (length (xs @ [v])) (- 1)" "(xs @ [v]) ! lua_idx (length (xs @ [v])) (- 1) = v"
  by (simp_all add: lua_idx_ok_def lua_idx_def nat_diff_distrib')

lemma lua_idx_snd: "lua_idx_ok (length (xs @ [u, v])) (- 2)" "(xs @ [u, v]) ! lua_idx (length (xs @ [u, v])) (- 2) = u"
  by (simp_all add: lua_idx_ok_def lua_idx_def nat_diff_distrib' nth_append)

lemma lua_at_top: "lua_ok A M \<Longrightarrow> lua_obs M L = (xs @ [v], h) \<Longrightarrow> la_at A L (- 1) = v"
  using lua_okD(1) [of A M] lua_idx_top [of xs v] unfolding lua_push_ok_def by metis

lemma lua_at_snd: "lua_ok A M \<Longrightarrow> lua_obs M L = (xs @ [u, v], h) \<Longrightarrow> la_at A L (- 2) = u"
  using lua_okD(1) [of A M] lua_idx_snd [of xs u v] unfolding lua_push_ok_def by metis

lemma lua_pushvalue_top:
  assumes "lua_ok A M" "lua_obs M L = (xs @ [v], h)" "length xs + 1 < lua_minstack"
  shows "lua_obs M (la_pushvalue A L (- 1)) = (xs @ [v, v], h)"
proof -
  have "length (xs @ [v]) < lua_minstack" using assms(3) by simp
  then have "lua_obs M (la_pushvalue A L (- 1)) = ((xs @ [v]) @ [(xs @ [v]) ! lua_idx (length (xs @ [v])) (- 1)], h)"
    using assms(1,2) lua_okD(1) [of A M] lua_idx_top(1) [of xs v] unfolding lua_push_ok_def by blast
  then show ?thesis unfolding lua_idx_top(2) by simp
qed

lemma lua_getglobal:
  "lua_ok A M \<Longrightarrow> lua_obs M L = (xs, h) \<Longrightarrow> length xs < lua_minstack \<Longrightarrow>
   map_option (lua_obs M) (la_getglobal A L nm) = map_option (\<lambda>(v, h'). (xs @ [v], h')) (ls_global M h nm)"
  using lua_okD(3) [of A M] by (simp add: lua_access_ok_def)

lemma lua_setglobal:
  "lua_ok A M \<Longrightarrow> lua_obs M L = (xs @ [v], h) \<Longrightarrow>
   map_option (lua_obs M) (la_setglobal A L nm) = map_option (\<lambda>h'. (xs, h')) (ls_set_global M h nm v)"
  using lua_okD(3) [of A M] by (simp add: lua_access_ok_def)

lemma lua_getfield_top:
  assumes "lua_ok A M" "lua_obs M L = (xs @ [t], h)" "length xs + 1 < lua_minstack"
  shows "map_option (lua_obs M) (la_getfield A L (- 1) nm) = map_option (\<lambda>(v, h'). (xs @ [t, v], h')) (ls_get M h t (Lua_string nm))"
proof -
  have "length (xs @ [t]) < lua_minstack" using assms(3) by simp
  then have "map_option (lua_obs M) (la_getfield A L (- 1) nm) =
      map_option (\<lambda>(v, h'). ((xs @ [t]) @ [v], h')) (ls_get M h ((xs @ [t]) ! lua_idx (length (xs @ [t])) (- 1)) (Lua_string nm))"
    using lua_okD(3) [OF assms(1)] assms(2) lua_idx_top(1) [of xs t] unfolding lua_access_ok_def by blast
  then show ?thesis unfolding lua_idx_top(2) by simp
qed

lemma lua_gettable_snd:
  assumes "lua_ok A M" "lua_obs M L = (xs @ [t, k], h)"
  shows "map_option (lua_obs M) (la_gettable A L (- 2)) = map_option (\<lambda>(v, h'). (xs @ [t, v], h')) (ls_get M h t k)"
proof -
  have "xs @ [t, k] = (xs @ [t]) @ [k]" by simp
  then have "map_option (lua_obs M) (la_gettable A L (- 2)) =
      map_option (\<lambda>(v, h'). ((xs @ [t]) @ [v], h')) (ls_get M h ((xs @ [t, k]) ! lua_idx (length (xs @ [t, k])) (- 2)) k)"
    using lua_okD(3) [OF assms(1)] assms(2) lua_idx_snd(1) [of xs t k] unfolding lua_access_ok_def by blast
  then show ?thesis unfolding lua_idx_snd(2) by simp
qed

lemma lua_next_snd:
  assumes "lua_ok A M" "lua_obs M L = (xs @ [t, k], h)" "length xs + 2 < lua_minstack" "is_table t"
    and "k = Lua_nil \<or> k \<in> fst ` set (ls_entries M h t)"
  shows "next_entry (ls_entries M h t) k = None \<Longrightarrow> \<exists>L'. la_next A L (- 2) = (False, L') \<and> lua_obs M L' = (xs @ [t], h)"
    and "next_entry (ls_entries M h t) k = Some (k', v) \<Longrightarrow> \<exists>L'. la_next A L (- 2) = (True, L') \<and> lua_obs M L' = (xs @ [t, k', v], h)"
proof -
  have e: "(xs @ [t]) @ [k] = xs @ [t, k]" by simp
  have "lua_obs M L = ((xs @ [t]) @ [k], h)" "lua_idx_ok (length ((xs @ [t]) @ [k])) (- 2)" "length ((xs @ [t]) @ [k]) < lua_minstack"
    using assms(2,3) lua_idx_snd(1) [of xs t k] unfolding e by simp_all
  with lua_okD(4) [OF assms(1), unfolded lua_next_ok_def, THEN conjunct2]
  have "let t' = ((xs @ [t]) @ [k]) ! lua_idx (length ((xs @ [t]) @ [k])) (- 2) in
      is_table t' \<longrightarrow> k = Lua_nil \<or> k \<in> fst ` set (ls_entries M h t') \<longrightarrow>
        (case next_entry (ls_entries M h t') k of
           None \<Rightarrow> \<not> fst (la_next A L (- 2)) \<and> lua_obs M (snd (la_next A L (- 2))) = (xs @ [t], h)
         | Some (k', v) \<Rightarrow> fst (la_next A L (- 2)) \<and> lua_obs M (snd (la_next A L (- 2))) = ((xs @ [t]) @ [k', v], h))"
    by blast
  then have n: "case next_entry (ls_entries M h t) k of
      None \<Rightarrow> \<not> fst (la_next A L (- 2)) \<and> lua_obs M (snd (la_next A L (- 2))) = (xs @ [t], h)
    | Some (k', v) \<Rightarrow> fst (la_next A L (- 2)) \<and> lua_obs M (snd (la_next A L (- 2))) = ((xs @ [t]) @ [k', v], h)"
    using assms(4,5) unfolding e lua_idx_snd(2) Let_def by blast
  show "next_entry (ls_entries M h t) k = None \<Longrightarrow> \<exists>L'. la_next A L (- 2) = (False, L') \<and> lua_obs M L' = (xs @ [t], h)"
    "next_entry (ls_entries M h t) k = Some (k', v) \<Longrightarrow> \<exists>L'. la_next A L (- 2) = (True, L') \<and> lua_obs M L' = (xs @ [t, k', v], h)"
    using n by (cases "la_next A L (- 2)"; simp)+
qed

lemma lua_pcall:
  assumes "lua_ok A M" "lua_obs M L = (ys @ f # args, h)" "n = length args"
  shows "map_option (map_prod (\<lambda>st. st = 0) (lua_obs M)) (la_pcall A L n nres) =
          map_option (\<lambda>(r, h'). case r of
              Inr rs \<Rightarrow> (True, ys @ take nres (rs @ replicate nres Lua_nil), h')
            | Inl e \<Rightarrow> (False, ys @ [e], h')) (ls_call M h f args)"
  using lua_okD(5) [OF assms(1)] assms(2,3) unfolding lua_call_ok_def by blast

lemma lua_pushcclosure:
  assumes "lua_ok A M" "lua_obs M L = (ys @ [u], h)"
  shows "\<exists>v h'. lua_obs M (la_pushcclosure A L f 1) = (ys @ [v], h')"
proof -
  have "case ls_closure M h f [u] of (v, h') \<Rightarrow> lua_obs M (la_pushcclosure A L f (length [u])) = (ys @ [v], h')"
    by (rule lua_okD(5) [OF assms(1), unfolded lua_call_ok_def, THEN spec, THEN spec, THEN spec, THEN conjunct2,
        THEN spec, THEN spec, THEN mp, THEN mp, OF assms(2)]) simp
  then show ?thesis by (auto split: prod.splits)
qed

lemma lua_tostring_safe_string:
  assumes "lua_ok A M" "lua_obs M L = (xs, h)" "lua_idx_ok (length xs) i" "xs ! lua_idx (length xs) i = Lua_string t"
  shows "\<exists>L'. lua_tostring_safe A L i = (t, L') \<and> lua_obs M L' = (xs, h)"
proof -
  have "fst (la_tolstring A L i) = Some t \<and> lua_obs M (snd (la_tolstring A L i)) = (xs, h)"
    using lua_okD(2) [OF assms(1)] assms(2-4) unfolding lua_read_ok_def by blast
  then show ?thesis by (cases "la_tolstring A L i") (auto simp: lua_tostring_safe_def)
qed

lemma lua_tostring_safe_top:
  assumes "lua_ok A M" "lua_obs M L = (xs @ [v], h)"
  shows "\<exists>w. lua_obs M (snd (lua_tostring_safe A L (- 1))) = (xs @ [w], h)"
proof -
  have "\<exists>w. lua_obs M (snd (la_tolstring A L (- 1))) = ((xs @ [v])[lua_idx (length (xs @ [v])) (- 1) := w], h)"
    using lua_okD(2) [OF assms(1)] assms(2) lua_idx_top(1) [of xs v] unfolding lua_read_ok_def by blast
  moreover have "lua_idx (length (xs @ [v])) (- 1) = length xs" by (simp add: lua_idx_def)
  ultimately show ?thesis by (auto simp: lua_tostring_safe_def split: prod.splits)
qed

text \<open>When the access or the call is known to return.\<close>

lemma map_option_SomeD: "map_option f x = map_option g y \<Longrightarrow> y = Some b \<Longrightarrow> \<exists>a. x = Some a \<and> f a = g b"
  by (cases x) auto

lemma lua_getglobal_Some:
  "lua_ok A M \<Longrightarrow> lua_obs M L = (xs, h) \<Longrightarrow> length xs < lua_minstack \<Longrightarrow> ls_global M h nm = Some (v, h') \<Longrightarrow>
   \<exists>L'. la_getglobal A L nm = Some L' \<and> lua_obs M L' = (xs @ [v], h')"
  using map_option_SomeD [OF lua_getglobal] by fastforce

lemma lua_getfield_Some:
  "lua_ok A M \<Longrightarrow> lua_obs M L = (xs @ [t], h) \<Longrightarrow> length xs + 1 < lua_minstack \<Longrightarrow> ls_get M h t (Lua_string nm) = Some (v, h') \<Longrightarrow>
   \<exists>L'. la_getfield A L (- 1) nm = Some L' \<and> lua_obs M L' = (xs @ [t, v], h')"
  using map_option_SomeD [OF lua_getfield_top] by fastforce

lemma lua_gettable_Some:
  "lua_ok A M \<Longrightarrow> lua_obs M L = (xs @ [t, k], h) \<Longrightarrow> ls_get M h t k = Some (v, h') \<Longrightarrow>
   \<exists>L'. la_gettable A L (- 2) = Some L' \<and> lua_obs M L' = (xs @ [t, v], h')"
  using map_option_SomeD [OF lua_gettable_snd] by fastforce

lemma lua_pcall_Some:
  assumes "lua_ok A M" "lua_obs M L = (ys @ f # args, h)" "n = length args" "ls_call M h f args = Some (r, h')"
  shows "\<exists>st L'. la_pcall A L n nres = Some (st, L') \<and> (st = 0 \<longleftrightarrow> \<not> isl r) \<and>
    lua_obs M L' = (case r of Inr rs \<Rightarrow> ys @ take nres (rs @ replicate nres Lua_nil) | Inl e \<Rightarrow> ys @ [e], h')"
  using map_option_SomeD [OF lua_pcall [OF assms(1-3)] assms(4)] by (auto split: sum.splits)

section \<open>Operations that may not return\<close>

text \<open>The scripts return: every call ends with results or an error, and every access to a global or to a field of a
  table ends without an error.\<close>

definition scripts_return :: "('s, 'h) lua_sem \<Rightarrow> bool" where
  "scripts_return M = ((\<forall>h f args. ls_call M h f args \<noteq> None) \<and> (\<forall>h nm. ls_global M h nm \<noteq> None) \<and>
     (\<forall>h nm v. ls_set_global M h nm v \<noteq> None) \<and> (\<forall>h t k. is_table t \<longrightarrow> ls_get M h t k \<noteq> None))"

text \<open>What an operation gives satisfies \<open>P\<close>, and it gives something when the scripts return.\<close>

definition gives :: "('s, 'h) lua_sem \<Rightarrow> 'a option \<Rightarrow> ('a \<Rightarrow> bool) \<Rightarrow> bool" where
  "gives M r P = ((\<forall>x. r = Some x \<longrightarrow> P x) \<and> (scripts_return M \<longrightarrow> r \<noteq> None))"

lemma gives_Some [simp]: "gives M (Some x) P \<longleftrightarrow> P x"
  by (simp add: gives_def)

lemma gives_bind: "gives M r Q \<Longrightarrow> (\<And>x. Q x \<Longrightarrow> gives M (f x) P) \<Longrightarrow> gives M (r \<bind> f) P"
  by (cases r) (auto simp: gives_def)

lemma gives_mono: "gives M r Q \<Longrightarrow> (\<And>x. Q x \<Longrightarrow> P x) \<Longrightarrow> gives M r P"
  by (auto simp: gives_def)

lemma gives_obs:
  assumes "map_option f r = map_option g s" "scripts_return M \<Longrightarrow> s \<noteq> None" "\<And>x y. f x = g y \<Longrightarrow> P x"
  shows "gives M r P"
  using assms by (cases r; cases s) (auto simp: gives_def)

lemma gives_getglobal:
  "lua_ok A M \<Longrightarrow> lua_obs M L = (xs, h) \<Longrightarrow> length xs < lua_minstack \<Longrightarrow>
   gives M (la_getglobal A L nm) (\<lambda>L'. \<exists>v h'. lua_obs M L' = (xs @ [v], h'))"
  by (rule gives_obs [OF lua_getglobal]) (auto simp: scripts_return_def)

lemma gives_setglobal:
  "lua_ok A M \<Longrightarrow> lua_obs M L = (xs @ [v], h) \<Longrightarrow> gives M (la_setglobal A L nm) (\<lambda>L'. \<exists>h'. lua_obs M L' = (xs, h'))"
  by (rule gives_obs [OF lua_setglobal]) (auto simp: scripts_return_def)

lemma gives_getfield:
  "lua_ok A M \<Longrightarrow> lua_obs M L = (xs @ [t], h) \<Longrightarrow> length xs + 1 < lua_minstack \<Longrightarrow> is_table t \<Longrightarrow>
   gives M (la_getfield A L (- 1) nm) (\<lambda>L'. \<exists>v h'. lua_obs M L' = (xs @ [t, v], h'))"
  by (rule gives_obs [OF lua_getfield_top]) (auto simp: scripts_return_def)

lemma gives_gettable:
  "lua_ok A M \<Longrightarrow> lua_obs M L = (xs @ [t, k], h) \<Longrightarrow> is_table t \<Longrightarrow>
   gives M (la_gettable A L (- 2)) (\<lambda>L'. \<exists>v h'. lua_obs M L' = (xs @ [t, v], h'))"
  by (rule gives_obs [OF lua_gettable_snd]) (auto simp: scripts_return_def)

lemma gives_pcall:
  "lua_ok A M \<Longrightarrow> lua_obs M L = (ys @ f # args, h) \<Longrightarrow> n = length args \<Longrightarrow>
   gives M (la_pcall A L n nres) (\<lambda>(st, L'). \<exists>zs h'. lua_obs M L' = (ys @ zs, h') \<and> length zs = (if st = 0 then nres else 1))"
  by (rule gives_obs [OF lua_pcall]) (auto simp: scripts_return_def split: sum.splits)

section \<open>The operations\<close>

lemma lua_to_edn_string:
  assumes "lua_ok A M" "lua_obs M L = (xs @ [Lua_string t], h)"
  shows "\<exists>L'. lua_to_edn A L (- 1) = Some (edn_quoted (edn_escape t), L') \<and> lua_obs M L' = (xs @ [Lua_string t], h)"
  using lua_tostring_safe_string [OF assms lua_idx_top] lua_at_top [OF assms] by (auto simp: lua_to_edn_def)

text \<open>The last branch: \<open>idx\<close> is relative to the top, which \<open>tostring\<close> has become.\<close>

definition other_value :: "lua_value \<Rightarrow> bool" where
  "other_value v = (is_table v \<or> is_function v \<or> (\<exists>k. v = Lua_pointer k \<or> v = Lua_object k))"

lemma lua_to_edn_branch:
  assumes "lua_ok A M" "lua_obs M L = (xs @ [v], h)" "other_value v"
  shows "lua_to_edn A L (- 1) = do {
      L1 \<leftarrow> la_getglobal A L ''tostring'';
      (st, L3) \<leftarrow> la_pcall A (la_pushvalue A L1 (- 1)) 1 1;
      Some (if st = 0 then (case lua_tostring_safe A L3 (- 1) of (s, L4) \<Rightarrow> (edn_quoted s, la_pop A L4 1))
            else ('':unknown'', la_pop A L3 1))
    }"
  using assms(3) lua_at_top [OF assms(1,2)] by (cases v) (simp_all add: lua_to_edn_def other_value_def)

lemma lua_to_edn_other:
  assumes ok: "lua_ok A M" and o: "lua_obs M L = (xs @ [v], h)" "other_value v" "length xs + 2 < lua_minstack"
    and ts: "ls_global M h ''tostring'' = Some (ts, h1)" "ls_call M h1 ts [ts] = Some (Inr (Lua_string t # rs), h2)"
  shows "\<exists>L'. lua_to_edn A L (- 1) = Some (edn_quoted t, L') \<and> lua_obs M L' = (xs @ [v], h2)"
proof -
  obtain L1 where L1: "la_getglobal A L ''tostring'' = Some L1" "lua_obs M L1 = ((xs @ [v]) @ [ts], h1)"
    using lua_getglobal_Some [OF ok o(1) _ ts(1)] o(3) by auto
  have o2: "lua_obs M (la_pushvalue A L1 (- 1)) = ((xs @ [v]) @ ts # [ts], h1)"
    using lua_pushvalue_top [OF ok L1(2)] o(3) by simp
  obtain L3 where L3: "la_pcall A (la_pushvalue A L1 (- 1)) 1 1 = Some (0, L3)" "lua_obs M L3 = ((xs @ [v]) @ [Lua_string t], h2)"
    using lua_pcall_Some [OF ok o2 _ ts(2), of 1 1] by auto
  obtain L4 where "lua_tostring_safe A L3 (- 1) = (t, L4)" "lua_obs M L4 = ((xs @ [v]) @ [Lua_string t], h2)"
    using lua_tostring_safe_string [OF ok L3(2) lua_idx_top] by blast
  then show ?thesis using L1(1) L3(1) lua_pop1 [OF ok] by (simp add: lua_to_edn_branch [OF ok o(1,2)])
qed

lemma gives_lua_to_edn:
  assumes ok: "lua_ok A M" and o: "lua_obs M L = (xs @ [v], h)" "length xs + 2 < lua_minstack"
  shows "gives M (lua_to_edn A L (- 1)) (\<lambda>(s, L'). \<exists>h'. lua_obs M L' = (xs @ [v], h'))"
proof (cases "other_value v")
  case True
  have popped: "\<exists>h'. lua_obs M (la_pop A L3 1) = (xs @ [v], h')" "\<exists>h'. lua_obs M (la_pop A (snd (lua_tostring_safe A L3 (- 1))) 1) = (xs @ [v], h')"
    if z: "lua_obs M L3 = ((xs @ [v]) @ zs, h')" "length zs = 1" for L3 zs h'
  proof -
    obtain w where w: "lua_obs M L3 = ((xs @ [v]) @ [w], h')" using z by (cases zs) auto
    then obtain u where u: "lua_obs M (snd (lua_tostring_safe A L3 (- 1))) = ((xs @ [v]) @ [u], h')" using lua_tostring_safe_top [OF ok w] by auto
    show "\<exists>h'. lua_obs M (la_pop A L3 1) = (xs @ [v], h')" "\<exists>h'. lua_obs M (la_pop A (snd (lua_tostring_safe A L3 (- 1))) 1) = (xs @ [v], h')"
      using lua_pop1 [OF ok w] lua_pop1 [OF ok u] by blast+
  qed
  show ?thesis unfolding lua_to_edn_branch [OF ok o(1) True]
  proof (rule gives_bind [OF gives_getglobal [OF ok o(1)]], use o(2) in simp, elim exE)
    fix L1 ts h1 assume L1: "lua_obs M L1 = ((xs @ [v]) @ [ts], h1)"
    have o2: "lua_obs M (la_pushvalue A L1 (- 1)) = ((xs @ [v]) @ ts # [ts], h1)"
      using lua_pushvalue_top [OF ok L1] o(2) by simp
    show "gives M (do {
        (st, L3) \<leftarrow> la_pcall A (la_pushvalue A L1 (- 1)) 1 1;
        Some (if st = 0 then (case lua_tostring_safe A L3 (- 1) of (s, L4) \<Rightarrow> (edn_quoted s, la_pop A L4 1))
              else ('':unknown'', la_pop A L3 1)) }) (\<lambda>(s, L'). \<exists>h'. lua_obs M L' = (xs @ [v], h'))"
      by (rule gives_bind [OF gives_pcall [OF ok o2]]) (use popped in \<open>auto simp: split_beta split: if_splits\<close>)
  qed
next
  case False
  obtain raw L' where t: "lua_tostring_safe A L (- 1) = (raw, L')" by fastforce
  then have "\<exists>w. v = Lua_string w \<Longrightarrow> lua_obs M L' = (xs @ [v], h)"
    using lua_tostring_safe_string [OF ok o(1) lua_idx_top(1)] lua_idx_top(2) [of xs v] by fastforce
  then show ?thesis using lua_at_top [OF ok o(1)] False o(1) t by (cases v) (auto simp: lua_to_edn_def Let_def other_value_def)
qed

text \<open>The Fennel compiler is loaded: the global \<open>fennel\<close> is a table whose \<open>eval\<close> is the function \<open>g\<close>.\<close>

definition fennel_loaded :: "('s, 'h) lua_sem \<Rightarrow> 'h \<Rightarrow> nat \<Rightarrow> bool" where
  "fennel_loaded M h g =
     (\<exists>t. ls_global M h ''fennel'' = Some (t, h) \<and> is_table t \<and> ls_get M h t (Lua_string ''eval'') = Some (Lua_function g, h))"

definition call_value :: "lua_value + lua_value list \<Rightarrow> lua_value" where
  "call_value r = (case r of Inl e \<Rightarrow> e | Inr rs \<Rightarrow> hd (rs @ [Lua_nil]))"

lemma fennel_call_loaded:
  assumes ok: "lua_ok A M" and o: "lua_obs M L = (xs, h)" "length xs + 2 < lua_minstack" and f: "fennel_loaded M h g"
    and c: "ls_call M h (Lua_function g) [Lua_string src] = Some (r, h')"
  shows "\<exists>t L'. fennel_call A L src = Some (if isl r then Fennel_failed else Fennel_done, L') \<and> lua_obs M L' = (xs @ [t, call_value r], h')"
proof -
  obtain t where t: "ls_global M h ''fennel'' = Some (t, h)" "is_table t" "ls_get M h t (Lua_string ''eval'') = Some (Lua_function g, h)"
    using f by (auto simp: fennel_loaded_def)
  obtain L1 where L1: "la_getglobal A L ''fennel'' = Some L1" "lua_obs M L1 = (xs @ [t], h)"
    using lua_getglobal_Some [OF ok o(1) _ t(1)] o(2) by auto
  obtain L2 where L2: "la_getfield A L1 (- 1) ''eval'' = Some L2" "lua_obs M L2 = ((xs @ [t]) @ [Lua_function g], h)"
    using lua_getfield_Some [OF ok L1(2) _ t(3)] o(2) by auto
  have o3: "lua_obs M (la_push A L2 (Lua_string src)) = ((xs @ [t]) @ Lua_function g # [Lua_string src], h)"
    using lua_push [OF ok L2(2)] o(2) by simp
  obtain st L3 where L3: "la_pcall A (la_push A L2 (Lua_string src)) 1 1 = Some (st, L3)" "st = 0 \<longleftrightarrow> \<not> isl r"
    "lua_obs M L3 = (case r of Inr rs \<Rightarrow> (xs @ [t]) @ take 1 (rs @ replicate 1 Lua_nil) | Inl e \<Rightarrow> (xs @ [t]) @ [e], h')"
    using lua_pcall_Some [OF ok o3 _ c, of 1 1] by auto
  have "take 1 (rs @ replicate 1 Lua_nil) = [hd (rs @ [Lua_nil])]" for rs by (cases rs) simp_all
  then have "lua_obs M L3 = (xs @ [t, call_value r], h')" using L3(3) by (cases r) (simp_all add: call_value_def)
  then show ?thesis using L1(1) L2(1) L3(1,2) lua_at_top [OF ok L1(2)] lua_at_top [OF ok L2(2)] t(2) by (auto simp: fennel_call_def)
qed

lemma gives_fennel_call:
  assumes ok: "lua_ok A M" and o: "lua_obs M L = (xs, h)" "length xs + 2 < lua_minstack"
  shows "gives M (fennel_call A L src) (\<lambda>(st, L'). \<exists>ys v h'. lua_obs M L' = ((xs @ ys) @ [v], h') \<and> length ys \<le> 1)"
  unfolding fennel_call_def
proof (rule gives_bind [OF gives_getglobal [OF ok o(1)]], use o(2) in simp, elim exE)
  fix L1 t h1 assume L1: "lua_obs M L1 = (xs @ [t], h1)"
  have a1: "la_at A L1 (- 1) = t" by (rule lua_at_top [OF ok L1])
  let ?rest = "\<lambda>L2. if \<not> is_function (la_at A L2 (- 1)) then Some (Fennel_eval_missing, L2)
       else do { (st, L3) \<leftarrow> la_pcall A (la_push A L2 (Lua_string src)) 1 1; Some (if st \<noteq> 0 then Fennel_failed else Fennel_done, L3) }"
  let ?P = "\<lambda>(st, L'). \<exists>ys v h'. lua_obs M L' = ((xs @ ys) @ [v], h') \<and> length ys \<le> 1"
  have rest: "gives M (?rest L2) ?P" if L2: "lua_obs M L2 = (xs @ [t, v], h2)" for L2 v h2
  proof (cases "is_function (la_at A L2 (- 1))")
    case True
    have o3: "lua_obs M (la_push A L2 (Lua_string src)) = ((xs @ [t]) @ v # [Lua_string src], h2)"
      using lua_push [OF ok L2] o(2) by simp
    have "?rest L2 = do { (st, L3) \<leftarrow> la_pcall A (la_push A L2 (Lua_string src)) 1 1; Some (if st \<noteq> 0 then Fennel_failed else Fennel_done, L3) }"
      using True by simp
    then show ?thesis
      by (simp only:, intro gives_bind [OF gives_pcall [OF ok o3]]) (auto simp: length_Suc_conv intro!: exI [of _ "[t]"] split: if_splits)
  next
    case False
    have "lua_obs M L2 = ((xs @ [t]) @ [v], h2)" using L2 by simp
    with False show ?thesis by (auto intro!: exI [of _ "[t]"])
  qed
  show "gives M (if \<not> is_table (la_at A L1 (- 1)) then Some (Fennel_missing, L1)
      else do { L2 \<leftarrow> la_getfield A L1 (- 1) ''eval''; ?rest L2 }) ?P"
  proof (cases "is_table t")
    case True
    have "gives M (do { L2 \<leftarrow> la_getfield A L1 (- 1) ''eval''; ?rest L2 }) ?P"
      by (rule gives_bind [OF gives_getfield [OF ok L1 _ True]]) (use o(2) in simp, use rest in blast)
    then show ?thesis unfolding a1 using True by (simp only: simp_thms if_False)
  next
    case False
    then show ?thesis using a1 L1 by (auto intro!: exI [of _ "[]"])
  qed
qed

text \<open>Reading a string literal back: up to the closing quote, a backslash taking the next character as it is.\<close>

fun edn_read_body :: "string \<Rightarrow> (string \<times> string) option" where
  "edn_read_body [] = None"
| "edn_read_body (c # cs) =
     (if c = CHR 0x22 then Some ([], cs)
      else if c = CHR 0x5C then (case cs of [] \<Rightarrow> None | d # ds \<Rightarrow> map_option (\<lambda>(s, r). (d # s, r)) (edn_read_body ds))
      else map_option (\<lambda>(s, r). (c # s, r)) (edn_read_body cs))"

definition edn_read_string :: "string \<Rightarrow> (string \<times> string) option" where
  "edn_read_string s = (case s of c # cs \<Rightarrow> if c = CHR 0x22 then edn_read_body cs else None | [] \<Rightarrow> None)"

lemma edn_read_escaped: "edn_read_body (edn_escape s @ CHR 0x22 # rest) = Some (s, rest)"
  by (induction s) auto

lemma edn_read_quoted: "edn_read_string (edn_quoted (edn_escape s) @ rest) = Some (s, rest)"
  using edn_read_escaped [of s rest] by (simp add: edn_read_string_def edn_quoted_def)

text \<open>Each operation leaves the stack as it found it.\<close>

definition has_stack :: "('s, 'h) lua_sem \<Rightarrow> lua_value list \<Rightarrow> ('s, 'w, 'o) participant \<Rightarrow> bool" where
  "has_stack M xs p = (\<exists>L h. lj_L p = Some L \<and> lua_obs M L = (xs, h))"

lemma has_stackI: "lj_L p = Some L \<Longrightarrow> lua_obs M L = (xs, h) \<Longrightarrow> has_stack M xs p"
  by (auto simp: has_stack_def)

lemma has_stack_unwind:
  "lua_ok A M \<Longrightarrow> lua_obs M L = (xs, h) \<Longrightarrow> lua_obs M L' = (xs @ ys, h') \<Longrightarrow> has_stack M xs (p\<lparr>lj_L := Some (la_settop A L' (la_gettop A L))\<rparr>)"
  using lua_unwind [of A M L xs h L' ys h'] by (simp add: has_stack_def)

lemma gives_eval:
  assumes ok: "lua_ok A M" and p: "has_stack M xs p" "length xs + 3 < lua_minstack"
  shows "gives M (participant_eval A src p) (\<lambda>(s, p'). has_stack M xs p')"
proof -
  obtain L h where L: "lj_L p = Some L" "lua_obs M L = (xs, h)" using p(1) by (auto simp: has_stack_def)
  have g: "gives M (fennel_call A L src) (\<lambda>(st, L'). \<exists>ys v h'. lua_obs M L' = ((xs @ ys) @ [v], h') \<and> length ys \<le> 1)"
    using gives_fennel_call [OF ok L(2)] p(2) by simp
  show ?thesis unfolding participant_eval_def L(1) option.case Let_def
  proof (rule gives_bind [OF g], clarify)
    fix st L' ys v h' assume o': "lua_obs M L' = ((xs @ ys) @ [v], h')" and l: "length ys \<le> 1"
    have rewound: "has_stack M xs (p\<lparr>lj_L := Some (la_settop A L2 (la_gettop A L))\<rparr>)" if "lua_obs M L2 = ((xs @ ys) @ [w], h2)" for L2 w h2
      using has_stack_unwind [OF ok L(2), of L2 "ys @ [w]" h2 p] that by simp
    obtain err L2 where t: "lua_tostring_safe A L' (- 1) = (err, L2)" by fastforce
    obtain w where w: "lua_obs M L2 = ((xs @ ys) @ [w], h')" using lua_tostring_safe_top [OF ok o'] t by auto
    have e: "gives M (do { (result, L2) \<leftarrow> lua_to_edn A L' (- 1); Some (result, p\<lparr>lj_L := Some (la_settop A L2 (la_gettop A L))\<rparr>) })
        (\<lambda>(s, p'). has_stack M xs p')"
      by (rule gives_bind [OF gives_lua_to_edn [OF ok o']]) (use p(2) l rewound in auto)
    show "gives M (case st of
             Fennel_missing \<Rightarrow> Some (''{:error '' @ edn_quoted ''fennel global missing'' @ ''}'', p\<lparr>lj_L := Some (la_settop A L' (la_gettop A L))\<rparr>)
           | Fennel_eval_missing \<Rightarrow> Some (''{:error '' @ edn_quoted ''fennel.eval missing'' @ ''}'', p\<lparr>lj_L := Some (la_settop A L' (la_gettop A L))\<rparr>)
           | Fennel_failed \<Rightarrow> (case lua_tostring_safe A L' (- 1) of (err, L2) \<Rightarrow>
               Some (''{:error '' @ edn_quoted (edn_escape err) @ ''}'', p\<lparr>lj_L := Some (la_settop A L2 (la_gettop A L))\<rparr>))
           | Fennel_done \<Rightarrow> do { (result, L2) \<leftarrow> lua_to_edn A L' (- 1); Some (result, p\<lparr>lj_L := Some (la_settop A L2 (la_gettop A L))\<rparr>) })
        (\<lambda>(s, p'). has_stack M xs p')"
      using rewound [OF o'] rewound [OF w] e t by (cases st) simp_all
  qed
qed

lemma gives_load_prelude:
  assumes ok: "lua_ok A M" and p: "has_stack M xs p" "length xs + 2 < lua_minstack"
  shows "gives M (load_prelude A src p) (has_stack M xs)"
proof -
  obtain L h where L: "lj_L p = Some L" "lua_obs M L = (xs, h)" using p(1) by (auto simp: has_stack_def)
  show ?thesis unfolding load_prelude_def L(1) option.case Let_def
  proof (rule gives_bind [OF gives_fennel_call [OF ok L(2) p(2)]], clarify)
    fix st L' ys v h' assume o': "lua_obs M L' = ((xs @ ys) @ [v], h')"
    have rewound: "has_stack M xs (p\<lparr>lj_L := Some (la_settop A L2 (la_gettop A L))\<rparr>)" if "lua_obs M L2 = ((xs @ ys) @ [w], h2)" for L2 w h2
      using has_stack_unwind [OF ok L(2), of L2 "ys @ [w]" h2 p] that by simp
    obtain w where w: "lua_obs M (snd (lua_tostring_safe A L' (- 1))) = ((xs @ ys) @ [w], h')" using lua_tostring_safe_top [OF ok o'] by auto
    show "gives M (Some (case st of
             Fennel_failed \<Rightarrow> p\<lparr>lj_L := Some (la_settop A (snd (lua_tostring_safe A L' (- 1))) (la_gettop A L))\<rparr>
           | _ \<Rightarrow> p\<lparr>lj_L := Some (la_settop A L' (la_gettop A L))\<rparr>)) (has_stack M xs)"
      using rewound [OF o'] rewound [OF w] by (cases st) simp_all
  qed
qed

lemma gives_tick_once:
  fixes p :: "('s, 'w, 'o) participant"
  assumes ok: "lua_ok A M" and p: "has_stack M xs p" "length xs + 2 < lua_minstack"
  shows "gives M (tick_once A p) (has_stack M xs)"
proof -
  obtain L h where L: "lj_L p = Some L" "lua_obs M L = (xs, h)" using p(1) by (auto simp: has_stack_def)
  show ?thesis unfolding tick_once_def L(1) option.case
  proof (rule gives_bind [OF gives_getglobal [OF ok L(2)]], use p(2) in simp, elim exE)
    fix L1 f h1 assume L1: "lua_obs M L1 = (xs @ [f], h1)"
    let ?L = "la_push A (la_push A L1 (Lua_number (lj_beat p))) (Lua_number (lj_bpm p))"
    have "lua_obs M (la_push A L1 (Lua_number (lj_beat p))) = ((xs @ [f]) @ [Lua_number (lj_beat p)], h1)"
      using lua_push [OF ok L1] p(2) by simp
    from lua_push [OF ok this] have o2: "lua_obs M ?L = (xs @ f # [Lua_number (lj_beat p), Lua_number (lj_bpm p)], h1)" using p(2) by simp
    have "gives M (do { (st, L2) \<leftarrow> la_pcall A ?L 2 0; Some (p\<lparr>lj_L := Some (if st \<noteq> 0 then la_pop A L2 1 else L2)\<rparr>) }) (has_stack M xs)"
    proof (rule gives_bind [OF gives_pcall [OF ok o2]])
      fix x :: "int \<times> 's"
      assume "case x of (st, L2) \<Rightarrow> \<exists>zs h'. lua_obs M L2 = (xs @ zs, h') \<and> length zs = (if st = 0 then 0 else 1)"
      then obtain st L2 zs h' where x: "x = (st, L2)" and z: "lua_obs M L2 = (xs @ zs, h')" "length zs = (if st = 0 then 0 else 1)" by auto
      have "length zs = 1 \<Longrightarrow> lua_obs M (la_pop A L2 1) = (xs, h')"
        using lua_pop1 [OF ok, of L2 xs "hd zs" h'] z(1) by (cases zs) auto
      then show "gives M (case x of (st, L2) \<Rightarrow> Some (p\<lparr>lj_L := Some (if st \<noteq> 0 then la_pop A L2 1 else L2)\<rparr>)) (has_stack M xs)"
        using z x by (auto simp: has_stack_def)
    qed simp
    then show "gives M (if \<not> is_function (la_at A L1 (- 1)) then Some (p\<lparr>lj_L := Some (la_pop A L1 1)\<rparr>)
        else do { (st, L2) \<leftarrow> la_pcall A ?L 2 0; Some (p\<lparr>lj_L := Some (if st \<noteq> 0 then la_pop A L2 1 else L2)\<rparr>) }) (has_stack M xs)"
      using has_stackI [OF _ lua_pop1 [OF ok L1], of "p\<lparr>lj_L := Some (la_pop A L1 1)\<rparr>"] by simp
  qed
qed

lemma gives_register:
  assumes ok: "lua_ok A M" and p: "has_stack M xs p" "length xs < lua_minstack"
  shows "gives M (register_wasm_swap_fn A fw p) (has_stack M xs)" and "gives M (register_osc_push_fn A fo p) (has_stack M xs)"
proof -
  obtain L h where L: "lj_L p = Some L" "lua_obs M L = (xs, h)" using p(1) by (auto simp: has_stack_def)
  have set: "gives M (la_setglobal A (la_pushcclosure A (la_push A L u) c 1) nm) (\<lambda>L'. \<exists>h'. lua_obs M L' = (xs, h'))" for u c nm
    using lua_pushcclosure [OF ok lua_push [OF ok L(2) p(2)]] gives_setglobal [OF ok] by blast
  show "gives M (register_wasm_swap_fn A fw p) (has_stack M xs)"
    unfolding register_wasm_swap_fn_def L(1) option.case Let_def by (rule gives_bind [OF set]) (auto simp: has_stack_def)
  show "gives M (register_osc_push_fn A fo p) (has_stack M xs)"
    unfolding register_osc_push_fn_def L(1) option.case Let_def by (rule gives_bind [OF set]) (auto simp: has_stack_def)
qed

section \<open>OSC handlers\<close>

text \<open>The values the loop pushes.\<close>

fun osc_values :: "u8 list \<Rightarrow> u8 list \<Rightarrow> nat \<Rightarrow> lua_value list" where
  "osc_values [] args off = []"
| "osc_values (tag # tags) args off =
     (if tag = of_char CHR ''i'' \<and> off + 4 \<le> length args then
        Lua_number (of_int_fp F64 (sint (osc_int32 args off))) # osc_values tags args (off + 4)
      else if tag = of_char CHR ''f'' \<and> off + 4 \<le> length args then Lua_number (osc_float args off) # osc_values tags args (off + 4)
      else if tag = of_char CHR ''s'' \<and> off < length args then
        Lua_string (bytes_str (take (strnlen (drop off args)) (drop off args))) # osc_values tags args (off + pad4 (strnlen (drop off args) + 1))
      else osc_values tags args off)"

lemma push_osc_args_values:
  assumes "lua_ok A M"
  shows "lua_obs M L = (xs, h) \<Longrightarrow> length xs + length (osc_values tags args off) \<le> lua_minstack \<Longrightarrow>
    \<exists>L'. push_osc_args A tags args off L n = (L', n + length (osc_values tags args off)) \<and> lua_obs M L' = (xs @ osc_values tags args off, h)"
proof (induction tags arbitrary: off L n xs)
  case (Cons tag tags)
  have push: "\<exists>L'. push_osc_args A tags args off' (la_push A L v) (n + 1) = (L', n + length (v # osc_values tags args off')) \<and>
      lua_obs M L' = (xs @ v # osc_values tags args off', h)"
    if "length xs + length (v # osc_values tags args off') \<le> lua_minstack" for off' v
    using Cons.IH [OF lua_push [OF assms Cons.prems(1), of v], of off' "n + 1"] that by auto
  consider "tag = of_char CHR ''i''" "off + 4 \<le> length args"
    | "tag = of_char CHR ''f''" "off + 4 \<le> length args"
    | "tag = of_char CHR ''s''" "off < length args"
    | "\<not> (tag = of_char CHR ''i'' \<and> off + 4 \<le> length args)" "\<not> (tag = of_char CHR ''f'' \<and> off + 4 \<le> length args)"
      "\<not> (tag = of_char CHR ''s'' \<and> off < length args)" by blast
  then show ?case
  proof cases
    case 1
    then show ?thesis using push [of _ "off + 4"] Cons.prems(2) by (simp del: One_nat_def)
  next
    case 2
    then show ?thesis using push [of _ "off + 4"] Cons.prems(2) by (simp del: One_nat_def)
  next
    case 3
    then show ?thesis using push Cons.prems(2) by (simp add: Let_def del: One_nat_def)
  next
    case 4
    then have "push_osc_args A (tag # tags) args off L n = push_osc_args A tags args off L n"
      "osc_values (tag # tags) args off = osc_values tags args off" unfolding push_osc_args.simps osc_values.simps by (simp_all only: if_False)
    then show ?thesis using Cons.IH [OF Cons.prems(1)] Cons.prems(2) by simp
  qed
qed simp

text \<open>The Lua value of an argument.\<close>

definition lua_arg :: "osc_arg \<Rightarrow> lua_value" where
  "lua_arg a =
     (if a_tag a = CHR ''i'' then Lua_number (of_int_fp F64 (sint (a_i a)))
      else if a_tag a = CHR ''f'' then Lua_number (a_f a)
      else Lua_string (a_s a))"

definition arg_plain :: "osc_arg \<Rightarrow> bool" where
  "arg_plain a = (known_tag a \<and> (a_tag a = CHR ''f'' \<longrightarrow> is_float (a_f a) \<and> a_f a \<noteq> NaN) \<and> (a_tag a = CHR ''s'' \<longrightarrow> CHR 0x00 \<notin> set (a_s a)))"

lemma osc_value_wire:
  assumes "arg_plain a"
  shows "osc_values (of_char (a_tag a) # tags) (pre @ arg_wire a @ rest) (length pre) =
    lua_arg a # osc_values tags (pre @ arg_wire a @ rest) (length (pre @ arg_wire a))"
proof -
  consider "a_tag a = CHR ''i''" | "a_tag a = CHR ''f''" | "a_tag a = CHR ''s''" using assms(1) by (auto simp: arg_plain_def known_tag_def)
  then show ?thesis
  proof cases
    case 1
    then show ?thesis by (simp add: arg_wire_def osc_int32_def lua_arg_def)
  next
    case 2
    then have "bits_f32 (f32_bits (a_f a)) = a_f a" using f32_bits_roundtrip assms(1) by (simp add: arg_plain_def)
    with 2 show ?thesis by (simp add: arg_wire_def osc_float_def lua_arg_def)
  next
    case 3
    let ?b = "str_bytes (a_s a)" let ?all = "pre @ arg_wire a @ rest"
    have z: "0 \<notin> set ?b" using assms(1) 3 str_bytes_no_nul by (simp add: arg_plain_def)
    have w: "arg_wire a = osc_pad ?b" using 3 by (simp add: arg_wire_def)
    have n: "strnlen (drop (length pre) ?all) = length ?b" using strnlen_osc_pad [OF z, of rest] by (simp add: w)
    have t: "take (length ?b) (drop (length pre) ?all) = ?b" by (simp add: w osc_pad_def)
    have l: "length (arg_wire a) = pad4 (length ?b + 1)" by (simp add: w length_osc_pad)
    then have lt: "length pre < length ?all" using pad4_Suc [of "length ?b"] by simp
    have "osc_values (of_char (a_tag a) # tags) ?all (length pre) =
        Lua_string (bytes_str (take (strnlen (drop (length pre) ?all)) (drop (length pre) ?all))) #
          osc_values tags ?all (length pre + pad4 (strnlen (drop (length pre) ?all) + 1))"
      using 3 lt by simp
    then show ?thesis unfolding n t using 3 l by (simp add: lua_arg_def)
  qed
qed

lemma osc_values_wire:
  "list_all arg_plain as \<Longrightarrow> osc_values (map (of_char \<circ> a_tag) as) (pre @ concat (map arg_wire as)) (length pre) = map lua_arg as"
proof (induction as arbitrary: pre)
  case (Cons a as)
  then have a: "arg_plain a" and as: "list_all arg_plain as" by simp_all
  show ?case using osc_value_wire [OF a, of "map (of_char \<circ> a_tag) as" pre "concat (map arg_wire as)"] Cons.IH [OF as, of "pre @ arg_wire a"]
    by (simp add: comp_def del: osc_values.simps)
qed simp

text \<open>A handler is registered for an address: \<open>nomos-osc-dispatch\<close> is a table with the function \<open>f\<close> there; \<open>h'\<close> is the
  state after the two accesses.\<close>

definition osc_handler :: "('s, 'h) lua_sem \<Rightarrow> 'h \<Rightarrow> string \<Rightarrow> lua_value \<Rightarrow> 'h \<Rightarrow> bool" where
  "osc_handler M h path f h' =
     (is_function f \<and> (\<exists>d h1. ls_global M h ''nomos-osc-dispatch'' = Some (d, h1) \<and> is_table d \<and> ls_get M h1 d (Lua_string path) = Some (f, h')))"

lemma dispatch_osc_call:
  assumes ok: "lua_ok A M" and L: "lj_L p = Some L" and o: "lua_obs M L = (xs, h)"
    and hd: "osc_handler M h (bytes_str path) f h1" and len: "length xs + length (osc_values tags args 0) + 2 \<le> lua_minstack"
    and c: "ls_call M h1 f (osc_values tags args 0) = Some (r, h')"
  shows "\<exists>L'. dispatch_osc A path tags args p = Some (True, p\<lparr>lj_L := Some L'\<rparr>) \<and> lua_obs M L' = (xs, h')"
proof -
  let ?vs = "osc_values tags args 0"
  obtain d h0 where d: "ls_global M h ''nomos-osc-dispatch'' = Some (d, h0)" "is_table d" "ls_get M h0 d (Lua_string (bytes_str path)) = Some (f, h1)"
    and f: "is_function f" using hd by (auto simp: osc_handler_def)
  obtain L1 where L1: "la_getglobal A L ''nomos-osc-dispatch'' = Some L1" "lua_obs M L1 = (xs @ [d], h0)"
    using lua_getglobal_Some [OF ok o _ d(1)] len by auto
  have o1: "lua_obs M (la_push A L1 (Lua_string (bytes_str path))) = (xs @ [d, Lua_string (bytes_str path)], h0)"
    using lua_push [OF ok L1(2)] len by simp
  obtain L2 where L2: "la_gettable A (la_push A L1 (Lua_string (bytes_str path))) (- 2) = Some L2" "lua_obs M L2 = ((xs @ [d]) @ [f], h1)"
    using lua_gettable_Some [OF ok o1 d(3)] by auto
  obtain L3 where L3: "push_osc_args A tags args 0 L2 0 = (L3, length ?vs)" "lua_obs M L3 = ((xs @ [d]) @ f # ?vs, h1)"
    using push_osc_args_values [OF ok L2(2), of tags args 0 0] len by auto
  obtain st L4 where L4: "la_pcall A L3 (length ?vs) 0 = Some (st, L4)" "st = 0 \<longleftrightarrow> \<not> isl r"
    "lua_obs M L4 = (case r of Inr rs \<Rightarrow> (xs @ [d]) @ take 0 (rs @ replicate 0 Lua_nil) | Inl e \<Rightarrow> (xs @ [d]) @ [e], h')"
    using lua_pcall_Some [OF ok L3(2) refl c, of 0] by blast
  define L5 where "L5 = (if st \<noteq> 0 then snd (lua_tostring_safe A L4 (- 1)) else L4)"
  have "\<exists>zs. lua_obs M L5 = (xs @ zs, h')"
  proof (cases r)
    case (Inl e)
    then have "lua_obs M L4 = ((xs @ [d]) @ [e], h')" using L4(3) by simp
    from lua_tostring_safe_top [OF ok this] show ?thesis using Inl L4(2) by (auto simp: L5_def)
  next
    case (Inr rs)
    then show ?thesis using L4(2,3) by (auto simp: L5_def)
  qed
  then obtain zs where "lua_obs M L5 = (xs @ zs, h')" by blast
  from lua_unwind [OF ok o this] show ?thesis
    using L1(1) L2(1) L3(1) L4(1) lua_at_top [OF ok L1(2)] lua_at_top [OF ok L2(2)] d(2) f
    by (intro exI [of _ "la_settop A L5 (la_gettop A L)"]) (simp add: dispatch_osc_def L flip: L5_def)
qed

lemma gives_dispatch_osc:
  fixes p :: "('s, 'w, 'o) participant"
  assumes ok: "lua_ok A M" and p: "has_stack M xs p" and len: "length xs + length (osc_values tags args 0) + 2 \<le> lua_minstack"
  shows "gives M (dispatch_osc A path tags args p) (\<lambda>(b, p'). has_stack M xs p')"
proof -
  obtain L h where L: "lj_L p = Some L" "lua_obs M L = (xs, h)" using p by (auto simp: has_stack_def)
  let ?P = "\<lambda>(b, p'). has_stack M xs p'"
  have "gives M (do {
      (st, L4) \<leftarrow> la_pcall A L3 n 0;
      Some (True, p\<lparr>lj_L := Some (la_settop A (if st \<noteq> 0 then snd (lua_tostring_safe A L4 (- 1)) else L4) (la_gettop A L))\<rparr>) }) ?P"
    if o3: "lua_obs M L3 = ((xs @ [d]) @ f # vs, h3)" "n = length vs" for L3 d f h3 vs n
  proof (rule gives_bind [OF gives_pcall [OF ok o3]])
    fix x :: "int \<times> 's"
    assume "case x of (st, L4) \<Rightarrow> \<exists>zs h'. lua_obs M L4 = ((xs @ [d]) @ zs, h') \<and> length zs = (if st = 0 then 0 else 1)"
    then obtain st L4 zs h' where x: "x = (st, L4)" and z: "lua_obs M L4 = ((xs @ [d]) @ zs, h')" "length zs = (if st = 0 then 0 else 1)" by auto
    have "\<exists>w. lua_obs M (snd (lua_tostring_safe A L4 (- 1))) = (xs @ [d, w], h')" if "length zs = 1"
      using lua_tostring_safe_top [OF ok, of L4 "xs @ [d]" "hd zs" h'] z(1) that by (cases zs) auto
    then show "gives M (case x of (st, L4) \<Rightarrow>
        Some (True, p\<lparr>lj_L := Some (la_settop A (if st \<noteq> 0 then snd (lua_tostring_safe A L4 (- 1)) else L4) (la_gettop A L))\<rparr>)) ?P"
      using x z has_stack_unwind [OF ok L(2)] by (auto split: if_splits)
  qed
  note call = this
  show ?thesis unfolding dispatch_osc_def L(1) option.case Let_def
  proof (rule gives_bind [OF gives_getglobal [OF ok L(2)]], use len in simp, elim exE)
    fix L1 d h1 assume L1: "lua_obs M L1 = (xs @ [d], h1)"
    have o1: "lua_obs M (la_push A L1 (Lua_string (bytes_str path))) = (xs @ [d, Lua_string (bytes_str path)], h1)"
      using lua_push [OF ok L1] len by simp
    let ?rest = "\<lambda>L2. if \<not> is_function (la_at A L2 (- 1)) then Some (False, p\<lparr>lj_L := Some (la_settop A L2 (la_gettop A L))\<rparr>)
      else (case push_osc_args A tags args 0 L2 0 of (L3, nargs) \<Rightarrow> do {
        (st, L4) \<leftarrow> la_pcall A L3 nargs 0;
        Some (True, p\<lparr>lj_L := Some (la_settop A (if st \<noteq> 0 then snd (lua_tostring_safe A L4 (- 1)) else L4) (la_gettop A L))\<rparr>) })"
    have rest: "gives M (?rest L2) ?P" if o2: "lua_obs M L2 = (xs @ [d, f], h2)" for L2 f h2
    proof -
      obtain L3 where "push_osc_args A tags args 0 L2 0 = (L3, length (osc_values tags args 0))" "lua_obs M L3 = ((xs @ [d]) @ f # osc_values tags args 0, h2)"
        using push_osc_args_values [OF ok o2, of tags args 0 0] len by auto
      then show ?thesis using call [of L3] has_stack_unwind [OF ok L(2) o2, of p] by simp
    qed
    show "gives M (if \<not> is_table (la_at A L1 (- 1)) then Some (False, p\<lparr>lj_L := Some (la_settop A L1 (la_gettop A L))\<rparr>)
        else do { L2 \<leftarrow> la_gettable A (la_push A L1 (Lua_string (bytes_str path))) (- 2); ?rest L2 }) ?P"
    proof (cases "is_table d")
      case True
      have "gives M (do { L2 \<leftarrow> la_gettable A (la_push A L1 (Lua_string (bytes_str path))) (- 2); ?rest L2 }) ?P"
        by (rule gives_bind [OF gives_gettable [OF ok o1 True]]) (use rest in blast)
      then show ?thesis unfolding lua_at_top [OF ok L1] using True by (simp only: simp_thms if_False)
    next
      case False
      then show ?thesis unfolding lua_at_top [OF ok L1] using has_stack_unwind [OF ok L(2) L1] by simp
    qed
  qed
qed

text \<open>The endpoint list: one line per key of the table that is a string.\<close>

fun endpoint_line :: "lua_value \<times> lua_value \<Rightarrow> string" where
  "endpoint_line (Lua_string s, _) = s @ [CHR 0x0A]"
| "endpoint_line _ = []"

lemma next_entry_split:
  assumes "distinct (map fst (pre @ post))" "Lua_nil \<notin> fst ` set (pre @ post)"
  shows "next_entry (pre @ post) (if pre = [] then Lua_nil else fst (last pre)) = (case post of [] \<Rightarrow> None | e # _ \<Rightarrow> Some e)"
proof (cases pre rule: rev_cases)
  case (snoc q e)
  have "dropWhile (\<lambda>x. fst x \<noteq> fst e) (q @ e # post) = e # post"
    using assms(1) by (subst dropWhile_append2) (auto simp: snoc image_iff)
  moreover have "fst e \<noteq> Lua_nil" using assms(2) by (auto simp: snoc)
  ultimately show ?thesis by (simp add: snoc split: list.split)
qed simp

lemma endpoints_loop_entries:
  assumes ok: "lua_ok A M" and t: "is_table t" "length xs + 2 < lua_minstack" and es: "ls_entries M h t = pre @ post"
    and o: "lua_obs M L = (xs @ [t, if pre = [] then Lua_nil else fst (last pre)], h)"
  shows "\<exists>L'. endpoints_loop A L res = Some (res @ concat (map endpoint_line post), L') \<and> lua_obs M L' = (xs @ [t], h)"
  using es o
proof (induction post arbitrary: pre L res)
  case Nil
  let ?k = "if pre = [] then Lua_nil else fst (last pre)"
  have d: "distinct (map fst (pre @ []))" "Lua_nil \<notin> fst ` set (pre @ [])"
    using lua_okD(4) [OF ok] Nil(1) unfolding lua_next_ok_def by metis+
  have k: "?k = Lua_nil \<or> ?k \<in> fst ` set (ls_entries M h t)" using Nil(1) by auto
  have "next_entry (ls_entries M h t) ?k = None" using next_entry_split [OF d] Nil(1) by simp
  from lua_next_snd(1) [OF ok Nil(2) t(2,1) k this] obtain L' where "la_next A L (- 2) = (False, L')" "lua_obs M L' = (xs @ [t], h)" by blast
  then show ?case by (subst endpoints_loop.simps) simp
next
  case (Cons e post)
  let ?k = "if pre = [] then Lua_nil else fst (last pre)"
  obtain k v where e: "e = (k, v)" by fastforce
  have d: "distinct (map fst (pre @ e # post))" "Lua_nil \<notin> fst ` set (pre @ e # post)"
    using lua_okD(4) [OF ok] Cons(2) unfolding lua_next_ok_def by metis+
  have kk: "?k = Lua_nil \<or> ?k \<in> fst ` set (ls_entries M h t)" using Cons(2) by auto
  have "next_entry (ls_entries M h t) ?k = Some (k, v)" using next_entry_split [OF d] Cons(2) e by simp
  from lua_next_snd(2) [OF ok Cons(3) t(2,1) kk this] obtain L1 where n: "la_next A L (- 2) = (True, L1)" and o1: "lua_obs M L1 = (xs @ [t, k, v], h)" by blast
  have o1': "lua_obs M L1 = ((xs @ [t]) @ [k, v], h)" using o1 by simp
  have at: "la_at A L1 (- 2) = k" by (rule lua_at_snd [OF ok o1'])
  obtain key L2 where k: "(if is_string k then lua_tostring_safe A L1 (- 2) else ([], L1)) = (key, L2)" by fastforce
  have k2: "lua_obs M L2 = ((xs @ [t, k]) @ [v], h) \<and> (\<forall>s. k = Lua_string s \<longrightarrow> key = s)"
  proof (cases "is_string k")
    case True
    then obtain s where s: "k = Lua_string s" by (cases k) auto
    then have "((xs @ [t]) @ [k, v]) ! lua_idx (length ((xs @ [t]) @ [k, v])) (- 2) = Lua_string s" by (simp only: lua_idx_snd(2))
    from lua_tostring_safe_string [OF ok o1' lua_idx_snd(1) this] k s show ?thesis by auto
  qed (use k o1 in auto)
  from lua_pop1 [OF ok conjunct1 [OF k2]] have "lua_obs M (la_pop A L2 1) = (xs @ [t, if pre @ [e] = [] then Lua_nil else fst (last (pre @ [e]))], h)"
    by (simp add: e)
  from Cons.IH [OF _ this, of "if is_string k then res @ key @ [CHR 0x0A] else res"] Cons(2) obtain L' where
    "endpoints_loop A (la_pop A L2 1) (if is_string k then res @ key @ [CHR 0x0A] else res) =
       Some ((if is_string k then res @ key @ [CHR 0x0A] else res) @ concat (map endpoint_line post), L')" "lua_obs M L' = (xs @ [t], h)" by auto
  moreover have "(if is_string k then res @ key @ [CHR 0x0A] else res) = res @ endpoint_line e" using k2 by (cases k) (simp_all add: e)
  moreover have "endpoints_loop A L res = endpoints_loop A (la_pop A L2 1) (if is_string k then res @ key @ [CHR 0x0A] else res)"
    by (subst endpoints_loop.simps) (simp add: n at k)
  ultimately show ?case by auto
qed

lemma gives_endpoints:
  assumes ok: "lua_ok A M" and p: "has_stack M xs p" "length xs + 2 < lua_minstack"
  shows "gives M (get_osc_endpoints A p) (\<lambda>(s, p'). has_stack M xs p')"
proof -
  obtain L h where L: "lj_L p = Some L" "lua_obs M L = (xs, h)" using p(1) by (auto simp: has_stack_def)
  show ?thesis unfolding get_osc_endpoints_def L(1) option.case Let_def
  proof (rule gives_bind [OF gives_getglobal [OF ok L(2)]], use p(2) in simp, elim exE)
    fix L1 d h1 assume L1: "lua_obs M L1 = (xs @ [d], h1)"
    have a1: "la_at A L1 (- 1) = d" by (rule lua_at_top [OF ok L1])
    have o1: "lua_obs M (la_push A L1 Lua_nil) = (xs @ [d, if [] = ([] :: (lua_value \<times> lua_value) list) then Lua_nil else fst (last [])], h1)"
      using lua_push [OF ok L1] p(2) by simp
    show "gives M (if \<not> is_table (la_at A L1 (- 1)) then Some ([], p\<lparr>lj_L := Some (la_settop A L1 (la_gettop A L))\<rparr>)
        else do { (result, L2) \<leftarrow> endpoints_loop A (la_push A L1 Lua_nil) []; Some (result, p\<lparr>lj_L := Some (la_settop A L2 (la_gettop A L))\<rparr>) })
      (\<lambda>(s, p'). has_stack M xs p')"
    proof (cases "is_table d")
      case True
      obtain s L2 where "endpoints_loop A (la_push A L1 Lua_nil) [] = Some (s, L2)" "lua_obs M L2 = (xs @ [d], h1)"
        using endpoints_loop_entries [OF ok True p(2) _ o1, of "ls_entries M h1 d" "[]"] by auto
      then show ?thesis using True a1 has_stack_unwind [OF ok L(2)] by simp
    next
      case False
      then show ?thesis using a1 has_stack_unwind [OF ok L(2) L1] by simp
    qed
  qed
qed

text \<open>The answer: one line per string key of the table.\<close>

lemma get_osc_endpoints_lines:
  assumes ok: "lua_ok A M" and L: "lj_L p = Some L" and o: "lua_obs M L = (xs, h)" "length xs + 2 < lua_minstack"
    and d: "ls_global M h ''nomos-osc-dispatch'' = Some (d, h')" "is_table d"
  shows "\<exists>L'. get_osc_endpoints A p = Some (concat (map endpoint_line (ls_entries M h' d)), p\<lparr>lj_L := Some L'\<rparr>) \<and> lua_obs M L' = (xs, h')"
proof -
  obtain L1 where L1: "la_getglobal A L ''nomos-osc-dispatch'' = Some L1" "lua_obs M L1 = (xs @ [d], h')"
    using lua_getglobal_Some [OF ok o(1) _ d(1)] o(2) by auto
  have "lua_obs M (la_push A L1 Lua_nil) = (xs @ [d, if [] = ([] :: (lua_value \<times> lua_value) list) then Lua_nil else fst (last [])], h')"
    using lua_push [OF ok L1(2)] o(2) by simp
  from endpoints_loop_entries [OF ok d(2) o(2) _ this, of "ls_entries M h' d" "[]"] obtain L2 where
    "endpoints_loop A (la_push A L1 Lua_nil) [] = Some (concat (map endpoint_line (ls_entries M h' d)), L2)" "lua_obs M L2 = (xs @ [d], h')" by auto
  then show ?thesis using L1(1) lua_at_top [OF ok L1(2)] d(2) lua_unwind [OF ok o(1)] by (auto simp: get_osc_endpoints_def L)
qed


section \<open>Runs of operations\<close>

datatype ('w, 'o) lua_op =
    Lua_eval string
  | Lua_dispatch "u8 list" "u8 list" "u8 list"
  | Lua_endpoints
  | Lua_beat fp fp
  | Lua_tick
  | Lua_register_wasm 'w
  | Lua_register_osc 'o

fun lua_step :: "'s lua_api \<Rightarrow> ('w, 'o) lua_op \<Rightarrow> ('s, 'w, 'o) participant \<Rightarrow> ('s, 'w, 'o) participant option" where
  "lua_step A (Lua_eval src) p = map_option snd (participant_eval A src p)"
| "lua_step A (Lua_dispatch path tags args) p = map_option snd (dispatch_osc A path tags args p)"
| "lua_step A Lua_endpoints p = map_option snd (get_osc_endpoints A p)"
| "lua_step A (Lua_beat b t) p = Some (set_beat b t p)"
| "lua_step A Lua_tick p = tick_once A p"
| "lua_step A (Lua_register_wasm f) p = register_wasm_swap_fn A f p"
| "lua_step A (Lua_register_osc f) p = register_osc_push_fn A f p"

fun lua_run :: "'s lua_api \<Rightarrow> ('w, 'o) lua_op list \<Rightarrow> ('s, 'w, 'o) participant \<Rightarrow> ('s, 'w, 'o) participant option" where
  "lua_run A [] p = Some p"
| "lua_run A (op # ops) p = lua_step A op p \<bind> lua_run A ops"

text \<open>An OSC message whose argument values fit the stack beside the table and the handler.\<close>

fun op_fits :: "('w, 'o) lua_op \<Rightarrow> bool" where
  "op_fits (Lua_dispatch path tags args) = (length (osc_values tags args 0) \<le> 18)"
| "op_fits _ = True"

lemma gives_snd: "gives M r (\<lambda>(x, y). P y) \<Longrightarrow> gives M (map_option snd r) P"
  by (cases r) (auto simp: gives_def)

lemma gives_step:
  assumes ok: "lua_ok A M" and p: "has_stack M [] p" and fits: "op_fits op"
  shows "gives M (lua_step A op p) (has_stack M [])"
proof (cases op)
  case (Lua_dispatch path tags args)
  have "length ([] :: lua_value list) + length (osc_values tags args 0) + 2 \<le> lua_minstack" using fits Lua_dispatch by (simp add: lua_minstack_def)
  from gives_snd [OF gives_dispatch_osc [OF ok p this, of path]] Lua_dispatch show ?thesis by simp
next
  case (Lua_beat b t)
  then show ?thesis using p by (simp add: set_beat_def has_stack_def)
qed (use gives_snd [OF gives_eval [OF ok p]] gives_snd [OF gives_endpoints [OF ok p]] gives_tick_once [OF ok p] gives_register [OF ok p]
  in \<open>simp_all add: lua_minstack_def\<close>)

lemma gives_run:
  assumes "lua_ok A M"
  shows "has_stack M [] p \<Longrightarrow> list_all op_fits ops \<Longrightarrow> gives M (lua_run A ops p) (has_stack M [])"
proof (induction ops arbitrary: p)
  case (Cons op ops)
  have "gives M (lua_step A op p) (has_stack M [])" using gives_step [OF assms Cons.prems(1)] Cons.prems(2) by simp
  from gives_bind [OF this Cons.IH] Cons.prems(2) show ?case by simp
qed simp

lemma gives_load:
  fixes A :: "'s lua_api"
  assumes ok: "lua_ok A M"
  shows "gives M (participant_load A slurp kPrelude hint) (\<lambda>q. \<forall>p :: ('s, 'w, 'o) participant. q = Some p \<longrightarrow> has_stack M [] p)"
    (is "gives M ?load ?P")
proof -
  have ld: "lua_load_ok A M" using ok by (simp add: lua_ok_def)
  have call: "gives M (do {
      (st2, L2) \<leftarrow> la_pcall A L1 0 1;
      if st2 \<noteq> 0 then Some None
      else do { L3 \<leftarrow> la_setglobal A L2 ''fennel''; p \<leftarrow> load_prelude A kPrelude (participant_new L3); Some (Some p) } }) ?P"
    if o1: "lua_obs M L1 = ([] @ f # [], h1)" for L1 f h1
  proof (rule gives_bind [OF gives_pcall [OF ok o1]], simp)
    fix x :: "int \<times> 's"
    assume "case x of (st, L2) \<Rightarrow> \<exists>zs h'. lua_obs M L2 = ([] @ zs, h') \<and> length zs = (if st = 0 then 1 else 1)"
    then obtain st L2 zs h' where x: "x = (st, L2)" and z: "lua_obs M L2 = ([] @ zs, h')" "length zs = 1" by (auto split: if_splits)
    then obtain v where v: "lua_obs M L2 = ([] @ [v], h')" by (cases zs) auto
    have "gives M (do { L3 \<leftarrow> la_setglobal A L2 ''fennel''; p \<leftarrow> load_prelude A kPrelude (participant_new L3); Some (Some p) }) ?P"
    proof (rule gives_bind [OF gives_setglobal [OF ok v]], elim exE)
      fix L3 h3 assume "lua_obs M L3 = ([], h3)"
      then have s: "has_stack M [] (participant_new L3 :: ('s, 'w, 'o) participant)" by (simp add: has_stack_def participant_new_def)
      show "gives M (do { p \<leftarrow> load_prelude A kPrelude (participant_new L3); Some (Some p) }) ?P"
        by (rule gives_bind [OF gives_load_prelude [OF ok s]]) (simp_all add: lua_minstack_def)
    qed
    then show "gives M (case x of (st2, L2) \<Rightarrow> if st2 \<noteq> 0 then Some None
        else do { L3 \<leftarrow> la_setglobal A L2 ''fennel''; p \<leftarrow> load_prelude A kPrelude (participant_new L3); Some (Some p) }) ?P"
      using x by simp
  qed
  let ?src = "fennel_source slurp hint"
  show ?thesis
  proof (cases "?src = [] \<or> la_newstate A = None")
    case True
    then show ?thesis by (auto simp: participant_load_def Let_def)
  next
    case False
    then obtain L where L: "la_newstate A = Some L" and s: "?src \<noteq> []" by auto
    obtain st L1 where b: "la_loadbuffer A (la_openlibs A L) ?src ''fennel'' = (st, L1)" by fastforce
    have e: "ls_stack M (la_openlibs A L) = []" using ld L by (simp add: lua_load_ok_def)
    have "\<exists>f. ls_stack M L1 = [f]" if "st = 0"
    proof -
      have "fst (la_loadbuffer A (la_openlibs A L) ?src ''fennel'') = 0" "length (ls_stack M (la_openlibs A L)) < lua_minstack"
        using b that e by (simp_all add: lua_minstack_def)
      then have "\<exists>f. ls_stack M (snd (la_loadbuffer A (la_openlibs A L) ?src ''fennel'')) = ls_stack M (la_openlibs A L) @ [f]"
        using ld unfolding lua_load_ok_def by blast
      then show ?thesis using b e by simp
    qed
    then show ?thesis using call [of L1] L s b by (auto simp: participant_load_def Let_def lua_obs_def)
  qed
qed

lemma load_stack: "lua_ok A M \<Longrightarrow> participant_load A slurp kPrelude hint = Some (Some p) \<Longrightarrow> has_stack M [] p"
  by (rule gives_load [unfolded gives_def, THEN conjunct1, rule_format]) auto

section \<open>A stack machine that meets the hypotheses\<close>

record 'h lua_heap =
  lh_global :: "'h \<Rightarrow> string \<Rightarrow> (lua_value \<times> 'h) option"
  lh_set_global :: "'h \<Rightarrow> string \<Rightarrow> lua_value \<Rightarrow> 'h option"
  lh_get :: "'h \<Rightarrow> lua_value \<Rightarrow> lua_value \<Rightarrow> (lua_value \<times> 'h) option"
  lh_entries :: "'h \<Rightarrow> lua_value \<Rightarrow> (lua_value \<times> lua_value) list"
  lh_call :: "'h \<Rightarrow> lua_value \<Rightarrow> lua_value list \<Rightarrow> ((lua_value + lua_value list) \<times> 'h) option"
  lh_start :: 'h

definition stack_call :: "'h lua_heap \<Rightarrow> lua_value list \<times> 'h \<Rightarrow> nat \<Rightarrow> nat \<Rightarrow> (int \<times> (lua_value list \<times> 'h)) option" where
  "stack_call H L n r =
     (case L of (xs, h) \<Rightarrow>
      let k = length xs - n - 1 in
      map_option (\<lambda>(res, h'). case res of
          Inr rs \<Rightarrow> (0, take k xs @ take r (rs @ replicate r Lua_nil), h')
        | Inl e \<Rightarrow> (2, take k xs @ [e], h')) (lh_call H h (xs ! k) (drop (k + 1) xs)))"

definition stack_next :: "'h lua_heap \<Rightarrow> lua_value list \<times> 'h \<Rightarrow> int \<Rightarrow> bool \<times> (lua_value list \<times> 'h)" where
  "stack_next H L i =
     (case L of (xs, h) \<Rightarrow>
      case next_entry (lh_entries H h (xs ! lua_idx (length xs) i)) (last xs) of
        None \<Rightarrow> (False, butlast xs, h)
      | Some (k, v) \<Rightarrow> (True, butlast xs @ [k, v], h))"

text \<open>A push on a full stack is lost: nothing is promised then.\<close>

definition stack_push :: "lua_value \<Rightarrow> lua_value list \<Rightarrow> lua_value list" where
  "stack_push v xs = (if length xs < lua_minstack then xs @ [v] else xs)"

definition stack_lua :: "'h lua_heap \<Rightarrow> (lua_value list \<times> 'h) lua_api" where
  "stack_lua H = \<lparr>
     la_newstate = Some ([], lh_start H),
     la_openlibs = \<lambda>L. L,
     la_loadbuffer = \<lambda>(xs, h) src nm. (0, stack_push (Lua_function 0) xs, h),
     la_gettop = \<lambda>(xs, h). int (length xs),
     la_settop = \<lambda>(xs, h) n. (if 0 \<le> n then take (nat n) xs else take (nat (int (length xs) + n + 1)) xs, h),
     la_at = \<lambda>(xs, h) i. xs ! lua_idx (length xs) i,
     la_upvalue = \<lambda>L k. Lua_nil,
     la_tointeger = \<lambda>(xs, h) i. (case xs ! lua_idx (length xs) i of Lua_number x \<Rightarrow> (case fin_val x of Some r \<Rightarrow> trunc_fp r | None \<Rightarrow> 0) | _ \<Rightarrow> 0),
     la_tolstring = \<lambda>(xs, h) i. (case xs ! lua_idx (length xs) i of Lua_string t \<Rightarrow> Some t | _ \<Rightarrow> None, xs, h),
     la_getglobal = \<lambda>(xs, h) nm. map_option (\<lambda>(v, h'). (stack_push v xs, h')) (lh_global H h nm),
     la_setglobal = \<lambda>(xs, h) nm. map_option (\<lambda>h'. (butlast xs, h')) (lh_set_global H h nm (last xs)),
     la_getfield = \<lambda>(xs, h) i nm. map_option (\<lambda>(v, h'). (stack_push v xs, h')) (lh_get H h (xs ! lua_idx (length xs) i) (Lua_string nm)),
     la_gettable = \<lambda>(xs, h) i. map_option (\<lambda>(v, h'). (butlast xs @ [v], h')) (lh_get H h (xs ! lua_idx (length xs) i) (last xs)),
     la_next = stack_next H,
     la_push = \<lambda>(xs, h) v. (stack_push v xs, h),
     la_pushvalue = \<lambda>(xs, h) i. (stack_push (xs ! lua_idx (length xs) i) xs, h),
     la_pushcclosure = \<lambda>(xs, h) f n. (take (length xs - n) xs @ [Lua_function (case f of C_osc_push_endpoints \<Rightarrow> 1 | C_vcv_hot_swap \<Rightarrow> 2)], h),
     la_pcall = stack_call H\<rparr>"

definition stack_sem :: "'h lua_heap \<Rightarrow> (lua_value list \<times> 'h, 'h) lua_sem" where
  "stack_sem H = \<lparr>ls_stack = fst, ls_heap = snd, ls_global = lh_global H, ls_set_global = lh_set_global H, ls_get = lh_get H,
     ls_entries = lh_entries H, ls_call = lh_call H,
     ls_closure = \<lambda>h f us. (Lua_function (case f of C_osc_push_endpoints \<Rightarrow> 1 | C_vcv_hot_swap \<Rightarrow> 2), h)\<rparr>"

lemma stack_obs [simp]: "lua_obs (stack_sem H) (xs, h) = (xs, h)"
  by (simp add: lua_obs_def stack_sem_def)

lemma stack_obs_eq: "lua_obs (stack_sem H) L = (xs, h) \<longleftrightarrow> L = (xs, h)"
  by (cases L) auto

lemma stack_obs_id: "lua_obs (stack_sem H) = (\<lambda>L. L)"
  by (simp add: fun_eq_iff lua_obs_def stack_sem_def)

lemma stack_call_ok: "lua_call_ok (stack_lua H) (stack_sem H)"
  unfolding lua_call_ok_def stack_obs_eq stack_obs_id
  by (auto simp: stack_lua_def stack_sem_def stack_call_def Let_def option.map_comp comp_def split_beta
      intro!: option.map_cong0 split: sum.split)

lemma stack_lua_ok:
  assumes "\<And>h t. distinct (map fst (lh_entries H h t)) \<and> Lua_nil \<notin> fst ` set (lh_entries H h t)"
  shows "lua_ok (stack_lua H) (stack_sem H)"
proof -
  have "lua_push_ok (stack_lua H) (stack_sem H)" by (auto simp: lua_push_ok_def stack_obs_eq stack_lua_def stack_push_def nat_diff_distrib')
  moreover have "lua_read_ok (stack_lua H) (stack_sem H)" unfolding lua_read_ok_def stack_obs_eq
    by (auto simp: stack_lua_def intro: exI [where x = "_ ! _"] list_update_id [symmetric])
  moreover have "lua_access_ok (stack_lua H) (stack_sem H)" unfolding lua_access_ok_def stack_obs_eq stack_obs_id
    by (auto simp: stack_lua_def stack_sem_def stack_push_def option.map_ident)
  moreover have "lua_next_ok (stack_lua H) (stack_sem H)" unfolding lua_next_ok_def stack_obs_eq Let_def
    using assms by (auto simp: stack_lua_def stack_sem_def stack_next_def split: option.split)
  moreover have "lua_load_ok (stack_lua H) (stack_sem H)" by (auto simp: lua_load_ok_def stack_lua_def stack_sem_def stack_push_def)
  ultimately show ?thesis using stack_call_ok by (simp add: lua_ok_def)
qed

text \<open>An instance: the global \<open>fennel\<close> is set by the module loader, its \<open>eval\<close> echoes its argument (a table for
  an empty one, an error for a text that starts with a question mark), and one OSC address has a handler. Calls
  are logged.\<close>

type_synonym demo_heap = "(string \<times> lua_value) list \<times> (lua_value \<times> lua_value list) list"

fun demo_result :: "lua_value \<Rightarrow> lua_value list \<Rightarrow> lua_value + lua_value list" where
  "demo_result (Lua_function k) args =
     (if k = 0 then Inr [Lua_table 0]
      else if k = 7 then (case args of
          [Lua_string t] \<Rightarrow>
            if t = [] then Inr [Lua_table 5] else if hd t = CHR ''?'' then Inl (Lua_string t)
            else Inr [Lua_string t]
        | _ \<Rightarrow> Inr [])
      else if k = 9 then Inr [Lua_string ''function: builtin'']
      else Inr [])"
| "demo_result _ args = Inl (Lua_string ''attempt to call'')"

definition demo_lua :: "demo_heap lua_heap" where
  "demo_lua = \<lparr>
     lh_global = \<lambda>h nm. Some (case map_of (fst h) nm of Some v \<Rightarrow> v | None \<Rightarrow> Lua_nil, h),
     lh_set_global = \<lambda>h nm v. Some ((nm, v) # fst h, snd h),
     lh_get = \<lambda>h t k. if is_table t then
         Some (if t = Lua_table 0 \<and> k = Lua_string ''eval'' then Lua_function 7
           else if t = Lua_table 1 \<and> k = Lua_string ''/grid'' then Lua_function 8 else Lua_nil, h)
       else None,
     lh_entries = \<lambda>h t. if t = Lua_table 1 then [(Lua_string ''/grid'', Lua_function 8)] else [],
     lh_call = \<lambda>h f args. Some (demo_result f args, fst h, snd h @ [(f, args)]),
     lh_start = ([(''nomos-osc-dispatch'', Lua_table 1), (''tostring'', Lua_function 9)], [])\<rparr>"

lemma demo_lua_ok: "lua_ok (stack_lua demo_lua) (stack_sem demo_lua)"
  by (rule stack_lua_ok) (simp add: demo_lua_def)

definition demo_start :: demo_heap where
  "demo_start = ((''fennel'', Lua_table 0) # fst (lh_start demo_lua), [])"

definition demo_participant :: "(lua_value list \<times> demo_heap, unit, unit) participant" where
  "demo_participant = participant_new ([], demo_start)"

lemma demo_loaded: "fennel_loaded (stack_sem demo_lua) demo_start 7"
  by (simp add: fennel_loaded_def stack_sem_def demo_lua_def demo_start_def)

lemma demo_returns: "scripts_return (stack_sem demo_lua)"
  by (simp add: scripts_return_def stack_sem_def demo_lua_def)

lemma demo_state: "lj_L demo_participant = Some ([], demo_start)"
  by (simp add: demo_participant_def participant_new_def)

section \<open>Properties\<close>

text \<open>C35: a participant that loads starts with an empty Lua stack, and whatever it is asked to do afterwards,
  evaluations, OSC dispatches of at most 18 argument values, endpoint queries, beats, ticks and registrations
  in any order and whether or not the scripts raise errors, the stack is empty whenever the run returns; and it
  returns unless a call of a script, or an access to a global or a field that runs a metamethod, does not.\<close>

theorem lua_stack_stays_empty:
  assumes "lua_ok A M" "participant_load A slurp kPrelude hint = Some (Some p)" "list_all op_fits ops"
  shows "(\<forall>p'. lua_run A ops p = Some p' \<longrightarrow> (\<exists>L. lj_L p' = Some L \<and> ls_stack M L = [])) \<and>
    (scripts_return M \<longrightarrow> (\<exists>p'. lua_run A ops p = Some p'))"
proof -
  have "has_stack M [] p" by (rule load_stack [OF assms(1,2)])
  from gives_run [OF assms(1) this assms(3)] show ?thesis by (auto simp: gives_def has_stack_def lua_obs_def)
qed

theorem lua_stack_stays_empty_witness:
  "\<exists>(p :: (lua_value list \<times> demo_heap, unit, unit) participant) p' L.
     participant_load (stack_lua demo_lua) (\<lambda>f. if f = ''fennel.lua'' then ''x'' else []) ''p'' [] = Some (Some p) \<and>
     lua_run (stack_lua demo_lua) [Lua_eval ''(+ 1 2)'', Lua_eval ''?'', Lua_dispatch (str_bytes ''/grid'') (str_bytes ''i'') [0, 0, 0, 1],
       Lua_tick, Lua_endpoints] p = Some p' \<and> lj_L p' = Some L \<and> fst L = []"
proof -
  let ?A = "stack_lua demo_lua" let ?slurp = "\<lambda>f. if f = ''fennel.lua'' then ''x'' else []"
  let ?ops = "[Lua_eval ''(+ 1 2)'', Lua_eval ''?'', Lua_dispatch (str_bytes ''/grid'') (str_bytes ''i'') [0, 0, 0, 1], Lua_tick, Lua_endpoints] :: (unit, unit) lua_op list"
  obtain p :: "(lua_value list \<times> demo_heap, unit, unit) participant" where p: "participant_load ?A ?slurp ''p'' [] = Some (Some p)"
    by (auto simp: participant_load_def fennel_source_def kFennelPaths_def stack_lua_def stack_call_def demo_lua_def Let_def stack_push_def
        lua_minstack_def load_prelude_def fennel_call_def participant_new_def lua_idx_def)
  have f: "list_all op_fits ?ops" by simp
  from lua_stack_stays_empty [OF demo_lua_ok p f] demo_returns obtain p' L where
    "lua_run ?A ?ops p = Some p'" "lj_L p' = Some L" "ls_stack (stack_sem demo_lua) L = []" by blast
  moreover from this(3) have "fst L = []" by (simp add: stack_sem_def)
  ultimately show ?thesis using p by blast
qed

text \<open>C36: an OSC message for an address with a registered handler, whose arguments fit the slots Lua guarantees
  (at most 18 of them on an empty stack), goes through the server's router to that handler, which is called once with exactly the message's arguments, integers and
  floats as numbers and strings as strings; once the handler returns, with results or with an error, the answer
  is that the message was handled and the stack is as before.\<close>

theorem osc_reaches_handler:
  assumes "lua_ok A M" "lj_L p = Some L" "lua_obs M L = (xs, h)" "osc_handler M h address f h1"
    and "CHR 0x00 \<notin> set address" "list_all arg_plain args" "length xs + length args + 2 \<le> lua_minstack" "srv_dispatch srv"
    and "address \<notin> {''/nous/note/on'', ''/nous/note/off'', ''/nous/midi'', ''/nous/endpoints''}"
    and "ls_call M h1 f (map lua_arg args) = Some (r, h')"
  shows "\<exists>path tags bytes L'. handle_packet srv (osc_wire address args) = Osc_dispatch path tags bytes \<and>
    dispatch_osc A path tags bytes p = Some (True, p\<lparr>lj_L := Some L'\<rparr>) \<and> lua_obs M L' = (xs, h')"
proof -
  have k: "list_all known_tag args" using assms(6) by (simp add: list_all_iff arg_plain_def)
  have w: "handle_packet srv (osc_wire address args) = Osc_dispatch (str_bytes address) (map (of_char \<circ> a_tag) args) (concat (map arg_wire args))"
    by (rule handle_packet_unrouted [OF assms(5) k assms(8,9)])
  have v: "osc_values (map (of_char \<circ> a_tag) args) (concat (map arg_wire args)) 0 = map lua_arg args"
    using osc_values_wire [OF assms(6), of "[]"] by simp
  have "osc_handler M h (bytes_str (str_bytes address)) f h1" using assms(4) by simp
  from dispatch_osc_call [OF assms(1-3) this, of "map (of_char \<circ> a_tag) args" "concat (map arg_wire args)" r h'] assms(7,10)
  show ?thesis by (auto simp: w v)
qed

theorem osc_reaches_handler_witness:
  "\<exists>path tags bytes L'.
     handle_packet \<lparr>srv_sock = True, srv_running = True, srv_dispatch = True, srv_endpoints = None, srv_sender = None\<rparr>
       (osc_wire ''/grid'' [make_i 3, make_s ''on'']) = Osc_dispatch path tags bytes \<and>
     dispatch_osc (stack_lua demo_lua) path tags bytes demo_participant = Some (True, demo_participant\<lparr>lj_L := Some L'\<rparr>) \<and>
     L' = ([], fst demo_start, [(Lua_function 8, [Lua_number (of_int_fp F64 3), Lua_string ''on''])])"
proof -
  have f: "osc_handler (stack_sem demo_lua) demo_start ''/grid'' (Lua_function 8) demo_start"
    by (simp add: osc_handler_def stack_sem_def demo_lua_def demo_start_def)
  have a: "list_all arg_plain [make_i 3, make_s ''on'']" by (simp add: arg_plain_def known_tag_def make_i_def make_s_def)
  have m: "map lua_arg [make_i 3, make_s ''on''] = [Lua_number (of_int_fp F64 3), Lua_string ''on'']"
    by (simp add: lua_arg_def make_i_def make_s_def)
  have c: "ls_call (stack_sem demo_lua) demo_start (Lua_function 8) vs = Some (Inr [], fst demo_start, [(Lua_function 8, vs)])" for vs
    by (simp add: stack_sem_def demo_lua_def demo_start_def)
  show ?thesis
    using osc_reaches_handler [OF demo_lua_ok demo_state stack_obs f _ a _ _ _ c,
        of "\<lparr>srv_sock = True, srv_running = True, srv_dispatch = True, srv_endpoints = None, srv_sender = None\<rparr>"]
    unfolding m stack_obs_eq by (simp add: lua_minstack_def)
qed

text \<open>C38: when evaluation gives a string, the reply is a string literal that reads back as exactly that
  string, whatever characters it has; when it raises an error, the reply is an error map with the message
  as such a literal. The effects of the call are kept and the stack is restored.\<close>

theorem eval_reads_back:
  assumes "lua_ok A M" "lj_L p = Some L" "lua_obs M L = (xs, h)" "length xs + 3 \<le> lua_minstack" "fennel_loaded M h g"
    and "ls_call M h (Lua_function g) [Lua_string src] = Some (r, h')" "r = Inr (Lua_string t # rs) \<or> r = Inl (Lua_string t)"
  shows "\<exists>lit L'. participant_eval A src p = Some (if isl r then ''{:error '' @ lit @ ''}'' else lit, p\<lparr>lj_L := Some L'\<rparr>) \<and>
    (\<forall>rest. edn_read_string (lit @ rest) = Some (t, rest)) \<and> lua_obs M L' = (xs, h')"
proof -
  have len: "length xs + 2 < lua_minstack" using assms(4) by simp
  obtain u L1 where c: "fennel_call A L src = Some (if isl r then Fennel_failed else Fennel_done, L1)" and o1: "lua_obs M L1 = ((xs @ [u]) @ [Lua_string t], h')"
    using fennel_call_loaded [OF assms(1,3) len assms(5,6)] assms(7) by (auto simp: call_value_def)
  have unwind: "lua_obs M (la_settop A L2 (la_gettop A L)) = (xs, h')" if "lua_obs M L2 = ((xs @ [u]) @ [Lua_string t], h')" for L2
    using lua_unwind [OF assms(1,3), of L2 "[u, Lua_string t]" h'] that by simp
  obtain L2 where "lua_tostring_safe A L1 (- 1) = (t, L2)" "lua_obs M L2 = ((xs @ [u]) @ [Lua_string t], h')"
    using lua_tostring_safe_string [OF assms(1) o1 lua_idx_top] by blast
  moreover obtain L3 where "lua_to_edn A L1 (- 1) = Some (edn_quoted (edn_escape t), L3)" "lua_obs M L3 = ((xs @ [u]) @ [Lua_string t], h')"
    using lua_to_edn_string [OF assms(1) o1] by blast
  ultimately show ?thesis using unwind edn_read_quoted [of t]
    by (intro exI [of _ "edn_quoted (edn_escape t)"]) (auto simp: participant_eval_def assms(2) c Let_def)
qed

theorem eval_reads_back_witness:
  "\<exists>lit L'. participant_eval (stack_lua demo_lua) ''?x'' demo_participant = Some (''{:error '' @ lit @ ''}'', demo_participant\<lparr>lj_L := Some L'\<rparr>) \<and>
     edn_read_string (lit @ ''}'') = Some (''?x'', ''}'')"
proof -
  let ?r = "Inl (Lua_string ''?x'') :: lua_value + lua_value list"
  obtain h' where c: "ls_call (stack_sem demo_lua) demo_start (Lua_function 7) [Lua_string ''?x''] = Some (?r, h')"
    by (simp add: stack_sem_def demo_lua_def demo_start_def)
  have l: "length ([] :: lua_value list) + 3 \<le> lua_minstack" by (simp add: lua_minstack_def)
  from eval_reads_back [OF demo_lua_ok demo_state stack_obs l demo_loaded c, of "''?x''" "[]"] show ?thesis by auto
qed

text \<open>C39: for a table, a function or a userdata the reply does not depend on the value: it is the text of
  \<open>tostring\<close> applied to \<open>tostring\<close> itself.\<close>

theorem eval_prints_tostring:
  assumes "lua_ok A M" "lj_L p = Some L" "lua_obs M L = (xs, h)" "length xs + 4 \<le> lua_minstack" "fennel_loaded M h g"
    and "ls_call M h (Lua_function g) [Lua_string src] = Some (Inr (v # rs), h1)"
    and "is_table v \<or> is_function v \<or> (\<exists>k. v = Lua_pointer k \<or> v = Lua_object k)"
    and "ls_global M h1 ''tostring'' = Some (ts, h2)" "ls_call M h2 ts [ts] = Some (Inr (Lua_string t # rs'), h3)"
  shows "\<exists>L'. participant_eval A src p = Some (edn_quoted t, p\<lparr>lj_L := Some L'\<rparr>) \<and> lua_obs M L' = (xs, h3)"
proof -
  have len: "length xs + 2 < lua_minstack" using assms(4) by simp
  obtain u L1 where c: "fennel_call A L src = Some (Fennel_done, L1)" and o1: "lua_obs M L1 = ((xs @ [u]) @ [v], h1)"
    using fennel_call_loaded [OF assms(1,3) len assms(5,6)] by (auto simp: call_value_def)
  have "other_value v" using assms(7) by (simp add: other_value_def)
  then obtain L2 where e: "lua_to_edn A L1 (- 1) = Some (edn_quoted t, L2)" and o2: "lua_obs M L2 = ((xs @ [u]) @ [v], h3)"
    using lua_to_edn_other [OF assms(1) o1 _ _ assms(8,9)] assms(4) by auto
  have "lua_obs M (la_settop A L2 (la_gettop A L)) = (xs, h3)" using lua_unwind [OF assms(1,3), of L2 "[u, v]" h3] o2 by simp
  then show ?thesis by (auto simp: participant_eval_def assms(2) c e Let_def)
qed

theorem eval_prints_tostring_witness:
  "\<exists>L'. participant_eval (stack_lua demo_lua) [] demo_participant = Some (edn_quoted ''function: builtin'', demo_participant\<lparr>lj_L := Some L'\<rparr>)"
proof -
  let ?h1 = "(fst demo_start, [(Lua_function 7, [Lua_string []])])"
  have c: "ls_call (stack_sem demo_lua) demo_start (Lua_function 7) [Lua_string []] = Some (Inr [Lua_table 5], ?h1)"
    by (simp add: stack_sem_def demo_lua_def demo_start_def)
  have ts: "ls_global (stack_sem demo_lua) ?h1 ''tostring'' = Some (Lua_function 9, ?h1)"
    by (simp add: stack_sem_def demo_lua_def demo_start_def)
  obtain h3 where t: "ls_call (stack_sem demo_lua) ?h1 (Lua_function 9) [Lua_function 9] = Some (Inr [Lua_string ''function: builtin''], h3)"
    by (simp add: stack_sem_def demo_lua_def demo_start_def)
  have l: "length ([] :: lua_value list) + 4 \<le> lua_minstack" by (simp add: lua_minstack_def)
  from eval_prints_tostring [OF demo_lua_ok demo_state stack_obs l demo_loaded c _ ts t] show ?thesis by auto
qed

end
