(* ===== verification/Luajit_Prelude.thy ===== *)
theory Luajit_Prelude
  imports C_Strings
begin

text \<open>
  The REPL prelude, the Fennel text \<open>kPrelude\<close> of \<open>luajit_participant.cpp\<close>: the beat clock, the queue of
  scheduled thunks and the tick that drains it, the OSC table and the bridges to optional C functions.
  A thunk is a value of the type \<open>'t\<close>; what calling it does is a parameter.
\<close>

section \<open>The definitions of the prelude\<close>

record ('t, 'f) prelude =
  pl_beat :: fp
  pl_bpm :: fp
  pl_scheduled :: "(fp \<times> 't) list"
  pl_osc :: "string \<rightharpoonup> 'f"

definition prelude_new :: "('t, 'f) prelude" where
  "prelude_new = \<lparr>pl_beat = Fin 0, pl_bpm = Fin 120, pl_scheduled = [], pl_osc = Map.empty\<rparr>"

definition schedule_at :: "string \<Rightarrow> 't \<Rightarrow> ('t, 'f) prelude \<Rightarrow> string \<times> ('t, 'f) prelude" where
  "schedule_at timing thunk st =
     (let step = (if timing = ''beat'' then Fin 1 else Fin 4); target = fadd F64 (pl_beat st) step in
      (''scheduled '' @ fmt_f2 target @ '' ('' @ timing @ '')'', st\<lparr>pl_scheduled := pl_scheduled st @ [(target, thunk)]\<rparr>))"

text \<open>\<open>call\<close> is \<open>pcall\<close>: an error message, if any, and the state after it.\<close>

definition fire_and_forget :: "('t \<Rightarrow> ('t, 'f) prelude \<Rightarrow> string option \<times> ('t, 'f) prelude) \<Rightarrow> 't \<Rightarrow> ('t, 'f) prelude \<Rightarrow> string \<times> ('t, 'f) prelude" where
  "fire_and_forget call thunk st = (case call thunk st of (None, st') \<Rightarrow> (''ok'', st') | (Some err, st') \<Rightarrow> (''! '' @ err, st'))"

text \<open>The bridges: the C function when it is registered, an informative string otherwise. Arguments are
  given by their \<open>tostring\<close>.\<close>

definition ctrl_set :: "(string \<Rightarrow> string \<Rightarrow> string) option \<Rightarrow> string \<Rightarrow> string \<Rightarrow> string" where
  "ctrl_set f path val = (case f of Some g \<Rightarrow> g path val | None \<Rightarrow> ''ctrl.set! '' @ path @ '' '' @ val)"

definition ctrl_get :: "(string \<Rightarrow> string) option \<Rightarrow> string \<Rightarrow> string" where
  "ctrl_get f path = (case f of Some g \<Rightarrow> g path | None \<Rightarrow> ''ctrl.get '' @ path @ '' (stub)'')"

definition vcv_hot_swap :: "(string \<Rightarrow> string \<Rightarrow> string) option \<Rightarrow> string \<Rightarrow> string \<Rightarrow> string" where
  "vcv_hot_swap f slot wasm_path =
     (case f of Some g \<Rightarrow> g slot wasm_path | None \<Rightarrow> ''vcv.hot-swap! not wired'' @ '' (slot='' @ slot @ '' path='' @ wasm_path @ '')'')"

definition vcv_load_alembic :: "string \<Rightarrow> string \<Rightarrow> string" where
  "vcv_load_alembic slot expr = ''(alembic/compile-and-load! '' @ slot @ [CHR '' '', CHR 0x27] @ expr @ '')''"

text \<open>Registering a handler; the second component says whether the endpoint list is pushed.\<close>

definition osc_register :: "bool \<Rightarrow> string \<Rightarrow> 'f \<Rightarrow> ('t, 'f) prelude \<Rightarrow> string \<times> bool \<times> ('t, 'f) prelude" where
  "osc_register wired path handler st = (''osc: registered '' @ path, wired, st\<lparr>pl_osc := (pl_osc st)(path \<mapsto> handler)\<rparr>)"

definition osc_unregister :: "bool \<Rightarrow> string \<Rightarrow> ('t, 'f) prelude \<Rightarrow> string \<times> bool \<times> ('t, 'f) prelude" where
  "osc_unregister wired path st = (''osc: unregistered '' @ path, wired, st\<lparr>pl_osc := (pl_osc st)(path := None)\<rparr>)"

text \<open>The loop of \<open>nomos_rt_tick\<close>, from a position that counts from one; \<open>run\<close> is the effect of a thunk, which
  may itself schedule. The thunks fired are recorded in order. A loop that does not end is \<open>None\<close>.\<close>

partial_function (option) tick_loop ::
  "('t \<Rightarrow> ('t, 'f) prelude \<Rightarrow> ('t, 'f) prelude) \<Rightarrow> fp \<Rightarrow> nat \<Rightarrow> ('t, 'f) prelude \<Rightarrow> 't list \<Rightarrow> (('t, 'f) prelude \<times> 't list) option" where
  "tick_loop run beat i st fired =
     (if i \<le> length (pl_scheduled st) then
        let ev = pl_scheduled st ! (i - 1) in
        if fle (fst ev) beat then
          tick_loop run beat i (run (snd ev) (st\<lparr>pl_scheduled := take (i - 1) (pl_scheduled st) @ drop i (pl_scheduled st)\<rparr>)) (fired @ [snd ev])
        else tick_loop run beat (i + 1) st fired
      else Some (st, fired))"

definition nomos_rt_tick ::
  "('t \<Rightarrow> ('t, 'f) prelude \<Rightarrow> ('t, 'f) prelude) \<Rightarrow> fp \<Rightarrow> fp \<Rightarrow> ('t, 'f) prelude \<Rightarrow> (('t, 'f) prelude \<times> 't list) option" where
  "nomos_rt_tick run beat bpm st = tick_loop run beat 1 (st\<lparr>pl_beat := beat, pl_bpm := bpm\<rparr>) []"

section \<open>The tick\<close>

abbreviation target_due :: "fp \<Rightarrow> fp \<times> 't \<Rightarrow> bool" where
  "target_due beat ev \<equiv> fle (fst ev) beat"

text \<open>A thunk may only append events that are not due yet, and does not set the clock.\<close>

definition schedules_later :: "('t \<Rightarrow> ('t, 'f) prelude \<Rightarrow> ('t, 'f) prelude) \<Rightarrow> fp \<Rightarrow> bool" where
  "schedules_later run beat =
     (\<forall>t st. pl_beat st = beat \<longrightarrow> pl_beat (run t st) = beat \<and>
        (\<exists>new. pl_scheduled (run t st) = pl_scheduled st @ new \<and> (\<forall>e\<in>set new. \<not> target_due beat e)))"

lemma tick_loop_skips:
  "\<forall>e\<in>set zs. \<not> target_due beat e \<Longrightarrow> pl_scheduled st = xs @ zs \<Longrightarrow> tick_loop run beat (length xs + 1) st fired = Some (st, fired)"
proof (induction zs arbitrary: xs)
  case Nil
  then show ?case by (subst tick_loop.simps) simp
next
  case (Cons z zs)
  then have "tick_loop run beat (length (xs @ [z]) + 1) st fired = Some (st, fired)" by (intro Cons.IH) auto
  then show ?case using Cons.prems by (subst tick_loop.simps) (simp add: nth_append)
qed

lemma tick_loop_fires:
  assumes "schedules_later run beat"
  shows "pl_beat st = beat \<Longrightarrow> pl_scheduled st = xs @ ys @ zs \<Longrightarrow> \<forall>e\<in>set zs. \<not> target_due beat e \<Longrightarrow>
    \<exists>st' new. tick_loop run beat (length xs + 1) st fired = Some (st', fired @ map snd (filter (target_due beat) ys)) \<and>
      pl_scheduled st' = xs @ filter (\<lambda>e. \<not> target_due beat e) ys @ zs @ new \<and> (\<forall>e\<in>set new. \<not> target_due beat e) \<and> pl_beat st' = beat"
proof (induction ys arbitrary: st xs zs fired)
  case Nil
  then have "tick_loop run beat (length xs + 1) st fired = Some (st, fired)" by (intro tick_loop_skips) auto
  with Nil show ?case by simp
next
  case (Cons y ys)
  show ?case
  proof (cases "target_due beat y")
    case True
    let ?st = "st\<lparr>pl_scheduled := xs @ ys @ zs\<rparr>"
    obtain new where n: "pl_scheduled (run (snd y) ?st) = (xs @ ys @ zs) @ new" "\<forall>e\<in>set new. \<not> target_due beat e" "pl_beat (run (snd y) ?st) = beat"
      using assms [unfolded schedules_later_def, rule_format, of ?st "snd y"] Cons.prems(1) by auto
    have "tick_loop run beat (length xs + 1) st fired = tick_loop run beat (length xs + 1) (run (snd y) ?st) (fired @ [snd y])"
      using True Cons.prems(2) by (subst tick_loop.simps) (simp add: nth_append)
    moreover have "\<exists>st' new'. tick_loop run beat (length xs + 1) (run (snd y) ?st) (fired @ [snd y]) =
        Some (st', (fired @ [snd y]) @ map snd (filter (target_due beat) ys)) \<and>
        pl_scheduled st' = xs @ filter (\<lambda>e. \<not> target_due beat e) ys @ (zs @ new) @ new' \<and> (\<forall>e\<in>set new'. \<not> target_due beat e) \<and> pl_beat st' = beat"
      using n Cons.prems(3) by (intro Cons.IH) auto
    ultimately show ?thesis using True n(2) by fastforce
  next
    case False
    have "tick_loop run beat (length xs + 1) st fired = tick_loop run beat (length (xs @ [y]) + 1) st fired"
      using False Cons.prems(2) by (subst tick_loop.simps) (simp add: nth_append)
    moreover have "\<exists>st' new'. tick_loop run beat (length (xs @ [y]) + 1) st fired = Some (st', fired @ map snd (filter (target_due beat) ys)) \<and>
        pl_scheduled st' = (xs @ [y]) @ filter (\<lambda>e. \<not> target_due beat e) ys @ zs @ new' \<and> (\<forall>e\<in>set new'. \<not> target_due beat e) \<and> pl_beat st' = beat"
      using Cons.prems by (intro Cons.IH) auto
    ultimately show ?thesis using False by simp
  qed
qed

text \<open>\<open>schedule-at\<close> never schedules something that is already due, as long as a beat of the clock can still be
  told from the next one in a double.\<close>

lemma schedule_at_later:
  assumes "fin_val beat = Some b" "\<bar>b\<bar> < 2 ^ 52" "k = 1 \<or> k = 4"
  shows "\<not> fle (fadd F64 beat (Fin k)) beat"
proof -
  have step: "fin_val (Fin k) = Some k" by simp
  define y where "y = rat_of_int (\<lfloor>b\<rfloor> + 1)"
  have y: "b < y" "y \<le> b + k" using assms(3) by (auto simp: y_def) linarith+
  have "\<bar>\<lfloor>b\<rfloor> + 1\<bar> < 2 ^ 53" using assms(2) by (simp add: abs_less_iff) linarith
  then have "fin_rep F64 y" unfolding y_def by (rule fin_rep_F64_int)
  moreover have "fin_rep F64 (2 ^ 52 + 4)" using fin_rep_F64_int [of "2 ^ 52 + 4"] by simp
  ultimately have "in_range y (2 ^ 52 + 4) (fadd F64 beat (Fin k))"
    using assms y by (intro in_range_fadd [where a = b and b = b and c = k and d = k]) (auto simp: in_range_iff)
  then obtain r where "fin_val (fadd F64 beat (Fin k)) = Some r" "y \<le> r" by (auto simp: in_range_iff)
  then show ?thesis using fle_fin [OF _ assms(1)] y by fastforce
qed

lemma schedule_at_schedules_later:
  assumes "fin_val beat = Some b" "\<bar>b\<bar> < 2 ^ 52" "pl_beat st = beat"
  shows "pl_beat (snd (schedule_at timing t st)) = beat"
    and "\<exists>e. pl_scheduled (snd (schedule_at timing t st)) = pl_scheduled st @ [e] \<and> \<not> target_due beat e"
  using schedule_at_later [OF assms(1,2), of 1] schedule_at_later [OF assms(1,2), of 4] assms(3)
  by (auto simp: schedule_at_def Let_def)

text \<open>Scripts: what a thunk schedules when it is called.\<close>

definition run_script :: "('t \<Rightarrow> (string \<times> 't) list) \<Rightarrow> 't \<Rightarrow> ('t, 'f) prelude \<Rightarrow> ('t, 'f) prelude" where
  "run_script script t st = fold (\<lambda>(timing, t') st. snd (schedule_at timing t' st)) (script t) st"

lemma run_script_schedules_later:
  assumes "fin_val beat = Some b" "\<bar>b\<bar> < 2 ^ 52"
  shows "schedules_later (run_script script) beat"
proof -
  have "pl_beat st = beat \<Longrightarrow> pl_beat (fold (\<lambda>(timing, t') st. snd (schedule_at timing t' st)) calls st) = beat \<and>
      (\<exists>new. pl_scheduled (fold (\<lambda>(timing, t') st. snd (schedule_at timing t' st)) calls st) = pl_scheduled st @ new \<and> (\<forall>e\<in>set new. \<not> target_due beat e))"
    for st :: "('a, 'b) prelude" and calls
  proof (induction calls arbitrary: st)
    case (Cons c calls)
    obtain timing t where c: "c = (timing, t)" by fastforce
    let ?st = "snd (schedule_at timing t st)"
    obtain e where e: "pl_scheduled ?st = pl_scheduled st @ [e]" "\<not> target_due beat e" and b: "pl_beat ?st = beat"
      using schedule_at_schedules_later [OF assms Cons.prems, of timing t] by blast
    from Cons.IH [OF b] e show ?case by (fastforce simp: c)
  qed simp
  then show ?thesis unfolding schedules_later_def run_script_def by blast
qed

section \<open>Properties\<close>

text \<open>C37: a tick ends, fires every scheduled thunk that is due exactly once and in the order they were
  scheduled, and keeps the others in order, also when the thunks schedule more while they run: what they
  add, which \<open>schedule-at\<close> puts later than the current beat, waits for a later tick.\<close>

theorem tick_fires_due:
  assumes "schedules_later run beat"
  shows "\<exists>st' new. nomos_rt_tick run beat bpm st = Some (st', map snd (filter (target_due beat) (pl_scheduled st))) \<and>
    pl_scheduled st' = filter (\<lambda>e. \<not> target_due beat e) (pl_scheduled st) @ new \<and> (\<forall>e\<in>set new. \<not> target_due beat e) \<and> pl_beat st' = beat"
  using tick_loop_fires [OF assms, of "st\<lparr>pl_beat := beat, pl_bpm := bpm\<rparr>" "[]" "pl_scheduled st" "[]" "[]"]
  by (simp add: nomos_rt_tick_def)

theorem tick_fires_due_witness:
  "\<exists>(st' :: (nat, unit) prelude) new.
     nomos_rt_tick (run_script (\<lambda>t. [(''beat'', t)])) (Fin 8) (Fin 120) (prelude_new\<lparr>pl_scheduled := [(Fin 7, 1), (Fin 9, 2), (Fin 8, 3)]\<rparr>) =
       Some (st', [1, 3]) \<and> pl_scheduled st' = (Fin 9, 2) # new"
proof -
  have l: "schedules_later (run_script (\<lambda>t :: nat. [(''beat'', t)]) :: nat \<Rightarrow> (nat, unit) prelude \<Rightarrow> _) (Fin 8)"
    by (rule run_script_schedules_later [of _ 8]) auto
  have d: "fle (Fin 7) (Fin 8)" "\<not> fle (Fin 9) (Fin 8)" "fle (Fin 8) (Fin 8)" by (simp_all add: fle_fin)
  show ?thesis using tick_fires_due [OF l, of "Fin 120" "prelude_new\<lparr>pl_scheduled := [(Fin 7, 1), (Fin 9, 2), (Fin 8, 3)]\<rparr>"]
    by (auto simp: d)
qed

end
