(* ===== verification/Host.thy ===== *)
theory Host
  imports Floats
begin

text \<open>
  The process around the runtime: the audio device (\<open>audio_device.cpp\<close>), the tempo peer (\<open>link_peer.cpp\<close>) and
  the heartbeat (\<open>heartbeat.hpp\<close>). RtAudio and Ableton Link are parameters, records of the functions the
  sources call.
\<close>

section \<open>Audio device\<close>

record audio_device_config =
  ac_device_id :: u32
  ac_out_channels :: u32
  ac_in_channels :: u32
  ac_sample_rate :: fp
  ac_buffer_frames :: u32

definition audio_device_config_new :: audio_device_config where
  "audio_device_config_new = \<lparr>ac_device_id = 0, ac_out_channels = 2, ac_in_channels = 0, ac_sample_rate = Fin 48000, ac_buffer_frames = 256\<rparr>"

text \<open>Device, number of channels, first channel.\<close>

type_synonym stream_params = "u32 \<times> u32 \<times> u32"

record 'r rtaudio =
  ra_default_output :: "'r \<Rightarrow> u32"
  ra_default_input :: "'r \<Rightarrow> u32"
  ra_open_stream :: "'r \<Rightarrow> stream_params \<Rightarrow> stream_params option \<Rightarrow> int \<Rightarrow> u32 \<Rightarrow> bool \<times> 'r"
  ra_start_stream :: "'r \<Rightarrow> bool \<times> 'r"
  ra_stop_stream :: "'r \<Rightarrow> 'r"
  ra_close_stream :: "'r \<Rightarrow> 'r"
  ra_is_open :: "'r \<Rightarrow> bool"
  ra_is_running :: "'r \<Rightarrow> bool"

text \<open>A channel pointer is its offset in the stream's buffer, \<open>None\<close> before the first callback.\<close>

record 'r audio_device =
  ad_rt :: 'r
  ad_cb :: bool
  ad_out_ch :: u32
  ad_in_ch :: u32
  ad_out_ptrs :: "nat option list"
  ad_in_ptrs :: "nat option list"

definition resize_ptrs :: "nat \<Rightarrow> 'a option list \<Rightarrow> 'a option list" where
  "resize_ptrs n xs = take n xs @ replicate (n - length xs) None"

text \<open>The sample rate is converted to \<open>unsigned int\<close>, which is undefined out of range.\<close>

definition audio_open :: "'r rtaudio \<Rightarrow> audio_device_config \<Rightarrow> bool \<Rightarrow> 'r audio_device \<Rightarrow> (bool \<times> 'r audio_device) option" where
  "audio_open R cfg cb d =
     (let out_dev = (if ac_device_id cfg \<noteq> 0 then ac_device_id cfg else ra_default_output R (ad_rt d));
          in_dev = (if ac_device_id cfg \<noteq> 0 then ac_device_id cfg else ra_default_input R (ad_rt d));
          out_params = (out_dev, ac_out_channels cfg, 0);
          in_params = (if 0 < ac_in_channels cfg then Some (in_dev, ac_in_channels cfg, 0) else None);
          d1 = d\<lparr>ad_cb := cb, ad_out_ch := ac_out_channels cfg, ad_in_ch := ac_in_channels cfg,
                 ad_out_ptrs := resize_ptrs (unat (ac_out_channels cfg)) (ad_out_ptrs d),
                 ad_in_ptrs := resize_ptrs (unat (ac_in_channels cfg)) (ad_in_ptrs d)\<rparr> in
      case to_int 0 (2 ^ 32 - 1) (ac_sample_rate cfg) of
        None \<Rightarrow> None
      | Some rate \<Rightarrow> (case ra_open_stream R (ad_rt d) out_params in_params rate (ac_buffer_frames cfg) of
          (ok, rt) \<Rightarrow> Some (ok, d1\<lparr>ad_rt := rt\<rparr>)))"

definition audio_start :: "'r rtaudio \<Rightarrow> 'r audio_device \<Rightarrow> bool \<times> 'r audio_device" where
  "audio_start R d = (case ra_start_stream R (ad_rt d) of (ok, rt) \<Rightarrow> (ok, d\<lparr>ad_rt := rt\<rparr>))"

definition audio_stop :: "'r rtaudio \<Rightarrow> 'r audio_device \<Rightarrow> 'r audio_device" where
  "audio_stop R d = (if ra_is_running R (ad_rt d) then d\<lparr>ad_rt := ra_stop_stream R (ad_rt d)\<rparr> else d)"

definition audio_close :: "'r rtaudio \<Rightarrow> 'r audio_device \<Rightarrow> 'r audio_device" where
  "audio_close R d =
     (let d1 = audio_stop R d in if ra_is_open R (ad_rt d1) then d1\<lparr>ad_rt := ra_close_stream R (ad_rt d1)\<rparr> else d1)"

definition audio_is_open :: "'r rtaudio \<Rightarrow> 'r audio_device \<Rightarrow> bool" where
  "audio_is_open R d = ra_is_open R (ad_rt d)"

definition audio_is_running :: "'r rtaudio \<Rightarrow> 'r audio_device \<Rightarrow> bool" where
  "audio_is_running R d = ra_is_running R (ad_rt d)"

text \<open>The offsets the callback computes, in 32-bit arithmetic.\<close>

definition channel_offsets :: "u32 \<Rightarrow> u32 \<Rightarrow> nat option list" where
  "channel_offsets channels nframes = map (\<lambda>c. Some (unat (of_nat c * nframes))) [0..<unat channels]"

record audio_block =
  ab_outputs :: "nat option list"
  ab_inputs :: "nat option list option"
  ab_out_ch :: u32
  ab_in_ch :: u32
  ab_frames :: u32
  ab_time :: fp

text \<open>One block: what the callback is given (\<open>None\<close> when there is none) and the device after it.\<close>

definition rt_callback :: "'r audio_device \<Rightarrow> bool \<Rightarrow> u32 \<Rightarrow> fp \<Rightarrow> audio_block option \<times> 'r audio_device" where
  "rt_callback d has_input nframes stream_time =
     (let d1 = d\<lparr>ad_out_ptrs := channel_offsets (ad_out_ch d) nframes\<rparr>;
          d2 = (if has_input then d1\<lparr>ad_in_ptrs := channel_offsets (ad_in_ch d) nframes\<rparr> else d1) in
      (if ad_cb d then Some \<lparr>ab_outputs = ad_out_ptrs d2, ab_inputs = (if has_input then Some (ad_in_ptrs d2) else None),
         ab_out_ch = ad_out_ch d, ab_in_ch = ad_in_ch d, ab_frames = nframes, ab_time = stream_time\<rparr> else None, d2))"

text \<open>The channels of a block lie one after the other and inside the buffer, when its length fits 32 bits.\<close>

lemma channel_offsets_partition:
  assumes "unat channels * unat nframes < 2 ^ 32" "c < unat channels"
  shows "channel_offsets channels nframes ! c = Some (c * unat nframes)" and "c * unat nframes + unat nframes \<le> unat channels * unat nframes"
proof -
  have le: "c * unat nframes + unat nframes \<le> unat channels * unat nframes" using mult_le_mono1 [of "Suc c" "unat channels" "unat nframes"] assms(2) by simp
  have "c < 2 ^ 32" using assms(2) unsigned_less [of channels, where ?'a = nat] by simp
  then have "unat (of_nat c * nframes :: u32) = c * unat nframes mod 2 ^ 32"
    by (simp add: unat_word_ariths unat_of_nat)
  also have "\<dots> = c * unat nframes" using le assms(1) by simp
  finally show "channel_offsets channels nframes ! c = Some (c * unat nframes)" using assms(2) by (simp add: channel_offsets_def)
  show "c * unat nframes + unat nframes \<le> unat channels * unat nframes" by (rule le)
qed

lemma callback_after_open:
  assumes "audio_open R cfg True d = Some (True, d1)"
  shows "fst (rt_callback d1 has_input n t) = Some \<lparr>ab_outputs = channel_offsets (ac_out_channels cfg) n,
    ab_inputs = (if has_input then Some (channel_offsets (ac_in_channels cfg) n) else None),
    ab_out_ch = ac_out_channels cfg, ab_in_ch = ac_in_channels cfg, ab_frames = n, ab_time = t\<rparr>"
  using assms by (auto simp: audio_open_def rt_callback_def Let_def split: option.splits prod.splits)

section \<open>Tempo peer\<close>

record ('l, 's) link =
  lk_enable :: "'l \<Rightarrow> bool \<Rightarrow> 'l"
  lk_enable_start_stop :: "'l \<Rightarrow> bool \<Rightarrow> 'l"
  lk_is_enabled :: "'l \<Rightarrow> bool"
  lk_num_peers :: "'l \<Rightarrow> nat"
  lk_micros :: "'l \<Rightarrow> int"
  lk_capture :: "'l \<Rightarrow> 's"
  lk_commit :: "'l \<Rightarrow> 's \<Rightarrow> 'l"
  lk_beat_at_time :: "'s \<Rightarrow> int \<Rightarrow> fp \<Rightarrow> fp"
  lk_tempo :: "'s \<Rightarrow> fp"
  lk_set_tempo :: "'s \<Rightarrow> fp \<Rightarrow> int \<Rightarrow> 's"
  lk_is_playing :: "'s \<Rightarrow> bool"
  lk_set_is_playing :: "'s \<Rightarrow> bool \<Rightarrow> int \<Rightarrow> 's"

definition link_peer_new :: "('l, 's) link \<Rightarrow> 'l \<Rightarrow> 'l" where
  "link_peer_new P l = lk_enable_start_stop P l True"

definition link_enable :: "('l, 's) link \<Rightarrow> bool \<Rightarrow> 'l \<Rightarrow> 'l" where
  "link_enable P on l = lk_enable P l on"

definition link_enabled :: "('l, 's) link \<Rightarrow> 'l \<Rightarrow> bool" where
  "link_enabled P l = lk_is_enabled P l"

definition link_peer_count :: "('l, 's) link \<Rightarrow> 'l \<Rightarrow> nat" where
  "link_peer_count P l = lk_num_peers P l"

definition link_now :: "('l, 's) link \<Rightarrow> 'l \<Rightarrow> int" where
  "link_now P l = lk_micros P l"

definition link_beat_at_time :: "('l, 's) link \<Rightarrow> int \<Rightarrow> fp \<Rightarrow> 'l \<Rightarrow> fp" where
  "link_beat_at_time P host_time quantum l = lk_beat_at_time P (lk_capture P l) host_time quantum"

definition link_tempo :: "('l, 's) link \<Rightarrow> 'l \<Rightarrow> fp" where
  "link_tempo P l = lk_tempo P (lk_capture P l)"

definition link_set_tempo :: "('l, 's) link \<Rightarrow> fp \<Rightarrow> int \<Rightarrow> 'l \<Rightarrow> 'l" where
  "link_set_tempo P bpm when l = lk_commit P l (lk_set_tempo P (lk_capture P l) bpm when)"

definition link_start_transport :: "('l, 's) link \<Rightarrow> int \<Rightarrow> 'l \<Rightarrow> 'l" where
  "link_start_transport P when l = lk_commit P l (lk_set_is_playing P (lk_capture P l) True when)"

definition link_stop_transport :: "('l, 's) link \<Rightarrow> int \<Rightarrow> 'l \<Rightarrow> 'l" where
  "link_stop_transport P when l = lk_commit P l (lk_set_is_playing P (lk_capture P l) False when)"

definition link_is_playing :: "('l, 's) link \<Rightarrow> 'l \<Rightarrow> bool" where
  "link_is_playing P l = lk_is_playing P (lk_capture P l)"

section \<open>Heartbeat\<close>

text \<open>The thread's loop over the values it reads of the running flag: one before each sleep and one after.
  The result is the lines it writes to the error stream and the reads it leaves.\<close>

fun heartbeat_loop :: "bool list \<Rightarrow> string list \<times> bool list" where
  "heartbeat_loop (r1 # r2 # rs) =
     (if r1 then (case heartbeat_loop rs of (out, rest) \<Rightarrow> ((if r2 then [''[heartbeat]'' @ [CHR 0x0A]] else []) @ out, rest)) else ([], r2 # rs))"
| "heartbeat_loop [r] = ([], [])"
| "heartbeat_loop [] = ([], [])"

definition start_heartbeat_thread :: "u32 \<Rightarrow> bool list \<Rightarrow> string list" where
  "start_heartbeat_thread interval_ms reads = (if interval_ms = 0 then [] else fst (heartbeat_loop reads))"

text \<open>One line per interval while the flag stays set, and none once it has been cleared.\<close>

lemma heartbeat_count: "length (fst (heartbeat_loop (replicate (2 * n) True @ False # rest))) = n"
proof (induction n)
  case 0
  then show ?case by (cases rest) simp_all
next
  case (Suc n)
  then show ?case by (auto split: prod.split)
qed

end
