(* ===== verification/Process.thy ===== *)
theory Process
  imports Prelude
begin

text \<open>
  Support of the process: signal dispositions and masks (\<open>signal_handlers.hpp\<close>), the result type
  (\<open>result.hpp\<close>) and the version (\<open>version.cpp\<close>).
\<close>

section \<open>Signals\<close>

datatype signal = SIGINT | SIGTERM | SIGPIPE | SIGKILL | SIGSTOP | Sig_other nat

datatype 'h disposition = SIG_DFL | SIG_IGN | Sa_handler 'h

record 'h sig_action =
  sa_handler :: "'h disposition"
  sa_mask :: "signal set"
  sa_restart :: bool

type_synonym 'h sig_table = "signal \<Rightarrow> 'h sig_action"

definition install_signal_handlers :: "'h \<Rightarrow> 'h sig_table \<Rightarrow> 'h sig_table" where
  "install_signal_handlers h t =
     (let sa = \<lparr>sa_handler = Sa_handler h, sa_mask = {}, sa_restart = False\<rparr>;
          sa_pipe = \<lparr>sa_handler = SIG_IGN, sa_mask = {}, sa_restart = False\<rparr> in
      t(SIGINT := sa, SIGTERM := sa, SIGPIPE := sa_pipe))"

text \<open>The mask of a thread, as \<open>pthread_sigmask\<close> sets it: two signals cannot be blocked.\<close>

definition block_signals_on_this_thread :: "signal set \<Rightarrow> signal set" where
  "block_signals_on_this_thread blocked = blocked \<union> (UNIV - {SIGKILL, SIGSTOP})"

text \<open>
  What the operating system does with a signal: run a handler, which interrupts a blocking call of the
  thread unless the call is restarted, nothing, or the default action.
\<close>

datatype 'h delivery = Run_handler 'h bool | Discarded | Default_action

definition deliver :: "'h sig_table \<Rightarrow> signal \<Rightarrow> 'h delivery" where
  "deliver t s = (if s \<in> {SIGKILL, SIGSTOP} then Default_action else case sa_handler (t s) of
     SIG_DFL \<Rightarrow> Default_action | SIG_IGN \<Rightarrow> Discarded | Sa_handler h \<Rightarrow> Run_handler h (\<not> sa_restart (t s)))"

text \<open>A signal to the process goes to a thread that does not block it.\<close>

definition receivers :: "signal set list \<Rightarrow> signal \<Rightarrow> nat list" where
  "receivers masks s = filter (\<lambda>i. s \<notin> masks ! i) [0..<length masks]"

text \<open>With the handlers installed and every thread but the main one blocking, a request to stop reaches
  only the main thread, where it runs the handler and interrupts a blocking call; a broken pipe
  never ends the process, whichever thread writes.\<close>

theorem stop_request_reaches_main:
  assumes "s \<in> {SIGINT, SIGTERM}" "s \<notin> main"
  shows "receivers (main # map block_signals_on_this_thread others) s = [0] \<and>
    deliver (install_signal_handlers h t) s = Run_handler h True \<and> deliver (install_signal_handlers h t) SIGPIPE = Discarded"
proof -
  have "filter (\<lambda>i. s \<notin> (main # map block_signals_on_this_thread others) ! i) [1..<Suc (length others)] = []"
    using assms(1) by (auto simp: filter_empty_conv nth_Cons' block_signals_on_this_thread_def)
  then have "receivers (main # map block_signals_on_this_thread others) s = [0]"
    using assms(2) by (simp add: receivers_def upt_conv_Cons del: upt_Suc)
  then show ?thesis using assms(1) by (auto simp: deliver_def install_signal_handlers_def Let_def)
qed

section \<open>Results\<close>

datatype ('t, 'e) result = Res_value 't | Res_error 'e

definition has_value :: "('t, 'e) result \<Rightarrow> bool" where
  "has_value r = (case r of Res_value _ \<Rightarrow> True | Res_error _ \<Rightarrow> False)"

text \<open>\<open>std::get\<close> throws on the other alternative.\<close>

definition result_value :: "('t, 'e) result \<Rightarrow> 't option" where
  "result_value r = (case r of Res_value x \<Rightarrow> Some x | Res_error _ \<Rightarrow> None)"

definition result_error :: "('t, 'e) result \<Rightarrow> 'e option" where
  "result_error r = (case r of Res_value _ \<Rightarrow> None | Res_error e \<Rightarrow> Some e)"

lemma result_exclusive:
  "(has_value r \<longleftrightarrow> result_value r \<noteq> None) \<and> (has_value r \<longleftrightarrow> result_error r = None)"
  by (cases r) (simp_all add: has_value_def result_value_def result_error_def)

definition version :: string where
  "version = ''0.1.0''"

end
