(* ===== verification/Faust.thy ===== *)
theory Faust
  imports Mod_Nlc
begin

text \<open>
  Compiled DSP blocks as modulators: the interface (\<open>dsp_block.hpp\<close>), the modulator that owns a block
  (\<open>faust_modulator.cpp\<close>) and the adapter from a Faust class to the interface (\<open>faust_dsp_adapter.hpp\<close>).
\<close>

section \<open>The modulator\<close>

text \<open>The operations of a block; \<open>None\<close> is an initialisation that is undefined.\<close>

record 'd dsp_ops =
  dsp_init :: "fp \<Rightarrow> 'd \<Rightarrow> 'd option"
  dsp_num_outputs :: "'d \<Rightarrow> int"
  dsp_set_param :: "string \<Rightarrow> fp \<Rightarrow> 'd \<Rightarrow> 'd"
  dsp_process :: "'d \<Rightarrow> fp list \<times> 'd"

record 'd faust_modulator =
  fa_dsp :: 'd
  fa_current_rate :: fp
  fa_initialised :: bool

definition faust_new :: "'d \<Rightarrow> 'd faust_modulator" where
  "faust_new d = \<lparr>fa_dsp = d, fa_current_rate = Fin 0, fa_initialised = False\<rparr>"

definition ensure_init :: "'d dsp_ops \<Rightarrow> fp \<Rightarrow> 'd faust_modulator \<Rightarrow> 'd faust_modulator option" where
  "ensure_init ops r s =
     (if \<not> fa_initialised s \<or> flt (Fin 1) (f_abs (ssub r (fa_current_rate s)))
      then map_option (\<lambda>d. s\<lparr>fa_dsp := d, fa_current_rate := r, fa_initialised := True\<rparr>) (dsp_init ops r (fa_dsp s))
      else Some s)"

text \<open>
  \<open>process\<close> writes one sample per output channel through the 16 pointers it is given; a block with
  more channels than pointers is undefined.
\<close>

definition faust_tick :: "'d dsp_ops \<Rightarrow> fp \<Rightarrow> fp \<Rightarrow> 'd faust_modulator \<Rightarrow> (modulator_output \<times> 'd faust_modulator) option" where
  "faust_tick ops beat r s = (case ensure_init ops r s of
     None \<Rightarrow> None
   | Some s1 \<Rightarrow>
     (let beat_phase = to_float (fsub F64 beat (f_floor beat));
          d1 = dsp_set_param ops ''beat'' beat_phase (fa_dsp s1);
          n = nat (min (dsp_num_outputs ops d1) (int kMaxOutputs)) in
      case dsp_process ops d1 of (written, d2) \<Rightarrow>
        if kMaxOutputs < length written then None
        else
          let samples = written @ replicate (kMaxOutputs - length written) (Fin 0);
              outs = take n samples @ replicate (kMaxOutputs - n) (Fin 0) in
          Some (\<lparr>o_cv = outs ! 0, o_aux = (if 1 < n then outs ! 1 else Fin 0),
              o_gate = (2 < n \<and> flt (Fin (1/2)) (outs ! 2)), o_gate2 = (3 < n \<and> flt (Fin (1/2)) (outs ! 3)),
              o_state = bitmap_of 0 (map (flt (Fin (1/2))) (take n outs)), o_outputs = outs\<rparr>, s1\<lparr>fa_dsp := d2\<rparr>)))"

definition faust_update :: "'d dsp_ops \<Rightarrow> string \<Rightarrow> fp \<Rightarrow> 'd faust_modulator \<Rightarrow> 'd faust_modulator option" where
  "faust_update ops key v s = Some (s\<lparr>fa_dsp := dsp_set_param ops key v (fa_dsp s)\<rparr>)"

section \<open>The adapter\<close>

text \<open>
  The generated class and Faust's \<open>MapUI\<close> are outside the sources. \<open>buildUserInterface\<close> gives the user
  interface the addresses of the parameters in the object, so that setting one changes the object.
\<close>

record ('f, 'u) faust_class =
  fc_build_ui :: "'f \<Rightarrow> 'u \<Rightarrow> 'u"
  fc_init :: "int \<Rightarrow> 'f \<Rightarrow> 'f"
  fc_num_outputs :: "'f \<Rightarrow> int"
  fc_set_param :: "'u \<Rightarrow> string \<Rightarrow> fp \<Rightarrow> 'f \<Rightarrow> 'f"
  fc_compute :: "'f \<Rightarrow> fp list \<times> 'f"

record ('f, 'u) faust_dsp_adapter =
  ad_impl :: 'f
  ad_ui :: 'u

definition adapter_new :: "('f, 'u) faust_class \<Rightarrow> 'f \<Rightarrow> 'u \<Rightarrow> ('f, 'u) faust_dsp_adapter" where
  "adapter_new F f u = \<lparr>ad_impl = f, ad_ui = fc_build_ui F f u\<rparr>"

definition adapter_init :: "('f, 'u) faust_class \<Rightarrow> fp \<Rightarrow> ('f, 'u) faust_dsp_adapter \<Rightarrow> ('f, 'u) faust_dsp_adapter option" where
  "adapter_init F r a = map_option (\<lambda>i. a\<lparr>ad_impl := fc_init F i (ad_impl a)\<rparr>) (to_int32 r)"

definition adapter_set_param :: "('f, 'u) faust_class \<Rightarrow> string \<Rightarrow> fp \<Rightarrow> ('f, 'u) faust_dsp_adapter \<Rightarrow> ('f, 'u) faust_dsp_adapter" where
  "adapter_set_param F k v a = a\<lparr>ad_impl := fc_set_param F (ad_ui a) k v (ad_impl a)\<rparr>"

definition adapter_process :: "('f, 'u) faust_class \<Rightarrow> ('f, 'u) faust_dsp_adapter \<Rightarrow> fp list \<times> ('f, 'u) faust_dsp_adapter" where
  "adapter_process F a = (case fc_compute F (ad_impl a) of (ws, f) \<Rightarrow> (ws, a\<lparr>ad_impl := f\<rparr>))"

definition adapter_ops :: "('f, 'u) faust_class \<Rightarrow> ('f, 'u) faust_dsp_adapter dsp_ops" where
  "adapter_ops F = \<lparr>dsp_init = adapter_init F, dsp_num_outputs = \<lambda>a. fc_num_outputs F (ad_impl a),
     dsp_set_param = adapter_set_param F, dsp_process = adapter_process F\<rparr>"

section \<open>The contract of a block\<close>

text \<open>What a tick reports: sixteen channels, those of the block and then zeros, and a bit per channel that is high.\<close>

definition channels_ok :: "nat \<Rightarrow> modulator_output \<Rightarrow> bool" where
  "channels_ok n out = (length (o_outputs out) = kMaxOutputs \<and> (\<forall>i. n \<le> i \<and> i < kMaxOutputs \<longrightarrow> o_outputs out ! i = Fin 0) \<and>
     o_cv out = o_outputs out ! 0 \<and> o_aux out = o_outputs out ! 1 \<and>
     o_gate out = flt (Fin (1/2)) (o_outputs out ! 2) \<and> o_gate2 out = flt (Fin (1/2)) (o_outputs out ! 3) \<and>
     o_state out = bitmap_of 0 (map (flt (Fin (1/2))) (o_outputs out)))"

lemma bitmap_of_append_False: "bitmap_of i (bs @ replicate k False) = bitmap_of i bs"
proof (induction bs arbitrary: i)
  case Nil
  show ?case by (induction k arbitrary: i) simp_all
qed simp

lemma half_not_zero: "\<not> flt (Fin (1/2)) (Fin 0)"
  by (simp add: flt_def)

locale dsp_block =
  fixes ops :: "'d dsp_ops" and n :: nat and invar :: "'d \<Rightarrow> bool" and rok :: "fp \<Rightarrow> bool"
  assumes init_ok: "invar d \<Longrightarrow> rok r \<Longrightarrow> \<exists>d'. dsp_init ops r d = Some d' \<and> invar d'"
    and set_param_ok: "invar d \<Longrightarrow> invar (dsp_set_param ops k v d)"
    and num_outputs_ok: "invar d \<Longrightarrow> dsp_num_outputs ops d = int n \<and> n \<le> kMaxOutputs"
    and process_ok: "invar d \<Longrightarrow> dsp_process ops d = (ws, d') \<Longrightarrow> length ws = n \<and> invar d'"
begin

lemma ensure_init_ok: "invar (fa_dsp s) \<Longrightarrow> rok r \<Longrightarrow> \<exists>s'. ensure_init ops r s = Some s' \<and> invar (fa_dsp s') \<and> fa_initialised s'"
  using init_ok [of "fa_dsp s" r] by (auto simp: ensure_init_def)

lemma faust_tick_ok:
  assumes "invar (fa_dsp s)" "rok r"
  shows "\<exists>out s'. faust_tick ops b r s = Some (out, s') \<and> invar (fa_dsp s') \<and> channels_ok n out"
proof -
  obtain s1 where s1: "ensure_init ops r s = Some s1" "invar (fa_dsp s1)" using ensure_init_ok [OF assms] by blast
  define d1 where "d1 = dsp_set_param ops ''beat'' (to_float (fsub F64 b (f_floor b))) (fa_dsp s1)"
  obtain ws d2 where p: "dsp_process ops d1 = (ws, d2)" by fastforce
  have d1: "invar d1" unfolding d1_def by (rule set_param_ok [OF s1(2)])
  have w: "length ws = n" "invar d2" "n \<le> kMaxOutputs" "dsp_num_outputs ops d1 = int n"
    using process_ok [OF d1 p] num_outputs_ok [OF d1] by auto
  let ?outs = "ws @ replicate (kMaxOutputs - n) (Fin 0)"
  let ?out = "\<lparr>o_cv = ?outs ! 0, o_aux = (if 1 < n then ?outs ! 1 else Fin 0),
      o_gate = (2 < n \<and> flt (Fin (1/2)) (?outs ! 2)), o_gate2 = (3 < n \<and> flt (Fin (1/2)) (?outs ! 3)),
      o_state = bitmap_of 0 (map (flt (Fin (1/2))) ws), o_outputs = ?outs\<rparr>"
  have t: "faust_tick ops b r s = Some (?out, s1\<lparr>fa_dsp := d2\<rparr>)"
    unfolding faust_tick_def s1(1) option.case Let_def d1_def [symmetric] p prod.case using w by simp
  have z: "?outs ! i = Fin 0" if "n \<le> i" "i < kMaxOutputs" for i using w(1) that by (simp add: nth_append)
  have k: "kMaxOutputs = 16" by (simp add: kMaxOutputs_def)
  have "channels_ok n ?out"
    using z [of 1] z [of 2] z [of 3] w(1,3) half_not_zero
    by (auto simp: channels_ok_def nth_append k bitmap_of_append_False)
  with t w(2) show ?thesis by auto
qed

lemma faust_run_ok:
  "invar (fa_dsp s) \<Longrightarrow> list_all (cmd_ok rok (\<lambda>k v. True)) cs \<Longrightarrow>
   \<exists>outs s'. mod_run (faust_tick ops) (faust_update ops) cs s = Some (outs, s') \<and> list_all (channels_ok n) outs"
proof (induction cs arbitrary: s)
  case (Cons c cs)
  show ?case
  proof (cases c)
    case (Cmd_tick b r)
    then obtain out s' where "faust_tick ops b r s = Some (out, s')" "invar (fa_dsp s')" "channels_ok n out"
      using faust_tick_ok [of s r b] Cons.prems by (auto simp: cmd_ok_def)
    then show ?thesis using Cons.IH [of s'] Cons.prems(2) Cmd_tick by auto
  next
    case (Cmd_update k v)
    then show ?thesis using Cons.IH [of "s\<lparr>fa_dsp := dsp_set_param ops k v (fa_dsp s)\<rparr>"] Cons.prems set_param_ok
      by (simp add: faust_update_def)
  qed
qed simp

end

text \<open>What the adapter relies on: a class computes as many samples as it says, at most sixteen.\<close>

definition faust_class_ok :: "('f, 'u) faust_class \<Rightarrow> nat \<Rightarrow> bool" where
  "faust_class_ok F n = (n \<le> kMaxOutputs \<and> (\<forall>f. fc_num_outputs F f = int n) \<and> (\<forall>f. length (fst (fc_compute F f)) = n))"

interpretation adapter: dsp_block "adapter_ops F" n "\<lambda>a. faust_class_ok F n" "\<lambda>r. to_int32 r \<noteq> None" for F n
proof unfold_locales
  fix a :: "('a, 'b) faust_dsp_adapter" and ws a'
  assume "faust_class_ok F n" "dsp_process (adapter_ops F) a = (ws, a')"
  then show "length ws = n \<and> faust_class_ok F n"
    by (cases "fc_compute F (ad_impl a)") (auto simp: adapter_ops_def adapter_process_def faust_class_ok_def, metis fst_conv)
qed (auto simp: adapter_ops_def adapter_init_def faust_class_ok_def)

text \<open>A block is not initialised again while the rate stays the same.\<close>

lemma no_change: "\<not> flt (Fin 1) (f_abs (ssub r r))"
  by (cases r) (auto simp: fsub_def fadd_def flt_def f_zero_def)

lemma ensure_init_again: "ensure_init ops r s = Some s' \<Longrightarrow> ensure_init ops r s' = Some s'"
  using no_change [of r] by (auto simp: ensure_init_def split: if_splits)

section \<open>Properties\<close>

text \<open>A Faust class with at most sixteen outputs, wrapped in the adapter and the modulator, is never
  undefined: any ticks (at rates that fit an integer) and updates give outputs whose first channels are
  the samples of the class, the others zero, with the bitmap of the channels that are high.\<close>

theorem faust_adapter_run:
  assumes "faust_class_ok F n" "list_all (cmd_ok (\<lambda>r. to_int32 r \<noteq> None) (\<lambda>k v. True)) cs"
  shows "\<exists>outs s'. mod_run (faust_tick (adapter_ops F)) (faust_update (adapter_ops F)) cs (faust_new (adapter_new F f u)) = Some (outs, s') \<and>
    list_all (channels_ok n) outs"
  by (rule adapter.faust_run_ok [OF assms])

text \<open>A block with seventeen outputs writes past the pointers.\<close>

lemma faust_overflow:
  "fc_compute F = (\<lambda>f. (replicate 17 (Fin 0), f)) \<Longrightarrow> to_int32 r \<noteq> None \<Longrightarrow>
   faust_tick (adapter_ops F) b r (faust_new (adapter_new F f u)) = None"
  by (auto simp: faust_tick_def ensure_init_def faust_new_def adapter_ops_def adapter_init_def adapter_process_def adapter_set_param_def
      kMaxOutputs_def Let_def)

end
