(* ===== verification/Graph_Types.thy ===== *)
theory Graph_Types
  imports Graph_Modulator
begin

text \<open>
  A static check of control-graph expressions. The evaluator has one partial operation, \<open>std::clamp\<close>,
  which is undefined when its bounds are in the wrong order; an expression passes the check when the
  bounds of each of its clamps are constants in order. What passes the check never goes wrong.
\<close>

section \<open>The check on expressions\<close>

text \<open>The constant that an argument denotes, if it is one; what does not parse counts as zero.\<close>

definition edn_const :: "edn \<Rightarrow> fp option" where
  "edn_const v = (case v of
     Edn_double d \<Rightarrow> Some (to_float d)
   | Edn_int i \<Rightarrow> Some (of_int_fp F32 i)
   | Edn_vector (Edn_keyword op # args) \<Rightarrow> (case leaf_node op args of
       Some n \<Rightarrow> if cg_type n = Const_val then Some (cg_args n ! 0) else None
     | None \<Rightarrow> if op_slots op = None then Some (Fin 0) else None)
   | _ \<Rightarrow> Some (Fin 0))"

definition slot_const :: "fp option list \<Rightarrow> edn list \<Rightarrow> nat \<Rightarrow> fp option" where
  "slot_const ds args j = (if j < length args then edn_const (args ! j) else Some (case ds ! j of Some c \<Rightarrow> c | None \<Rightarrow> Fin 0))"

definition bounds_ok :: "fp option \<Rightarrow> fp option \<Rightarrow> bool" where
  "bounds_ok lo hi = (case (lo, hi) of (Some a, Some b) \<Rightarrow> \<not> flt b a | _ \<Rightarrow> False)"

fun expr_typed :: "edn \<Rightarrow> bool" and args_typed :: "fp option list \<Rightarrow> edn list \<Rightarrow> bool" where
  "expr_typed (Edn_vector (Edn_keyword op # args)) =
     (case leaf_node op args of
        Some n \<Rightarrow> True
      | None \<Rightarrow> (case op_slots op of
          None \<Rightarrow> True
        | Some (k, ds) \<Rightarrow> args_typed ds args \<and> (k = Clamp \<longrightarrow> bounds_ok (slot_const ds args 1) (slot_const ds args 2))))"
| "expr_typed v = True"
| "args_typed [] args = True"
| "args_typed (d # ds) [] = True"
| "args_typed (d # ds) (a # args) = (expr_typed a \<and> args_typed ds args)"

definition graph_expr_typed :: "edn_lib \<Rightarrow> edn \<Rightarrow> bool" where
  "graph_expr_typed L expr = (case expr of
     Edn_map m \<Rightarrow> list_all (\<lambda>kw. case ed_find_kw L m kw of Some v \<Rightarrow> expr_typed v | None \<Rightarrow> True) [''cv'', ''aux'', ''gate'', ''gate2'']
   | _ \<Rightarrow> expr_typed expr)"

section \<open>The check on compiled graphs\<close>

definition const_at :: "cg_node list \<Rightarrow> int \<Rightarrow> fp option" where
  "const_at g i = (if i < 0 then Some (Fin 0)
     else if i < int (length g) \<and> cg_type (g ! nat i) = Const_val then Some (cg_args (g ! nat i) ! 0) else None)"

definition node_shape :: "cg_node \<Rightarrow> bool" where
  "node_shape n = (length (cg_args n) = 4 \<and> length (cg_state n) = 2)"

definition node_typed :: "cg_node list \<Rightarrow> cg_node \<Rightarrow> bool" where
  "node_typed g n = (node_shape n \<and> (case cg_type n of
     Clamp \<Rightarrow> bounds_ok (const_at g (cg_inputs n ! 1)) (const_at g (cg_inputs n ! 2))
   | Mod_ref \<Rightarrow> to_int32 (cg_args n ! 0) \<noteq> None
   | _ \<Rightarrow> True))"

definition graph_typed :: "cg_node list \<Rightarrow> bool" where
  "graph_typed g = (topo g \<and> list_all (node_typed g) g)"

lemma const_at_append: "const_at g i = Some c \<Longrightarrow> const_at (g @ ns) i = Some c"
  by (auto simp: const_at_def nth_append split: if_splits)

lemma bounds_ok_mono: "bounds_ok a b \<Longrightarrow> (\<And>c. a = Some c \<Longrightarrow> a' = Some c) \<Longrightarrow> (\<And>c. b = Some c \<Longrightarrow> b' = Some c) \<Longrightarrow> bounds_ok a' b'"
  by (auto simp: bounds_ok_def split: option.splits)

lemma node_typed_append: "node_typed g n \<Longrightarrow> node_typed (g @ ns) n"
  by (cases "cg_type n") (auto simp: node_typed_def intro: const_at_append elim!: bounds_ok_mono)

lemma graph_typed_snoc: "graph_typed g \<Longrightarrow> node_before (length g) n \<Longrightarrow> node_typed g n \<Longrightarrow> graph_typed (g @ [n])"
  by (auto simp: graph_typed_def topo_snoc list_all_iff intro: node_typed_append)

section \<open>Compiling keeps types\<close>

lemma const_node_typed: "node_typed g (const_node c)"
  by (simp add: node_typed_def node_shape_def const_node_def node_new_def)

lemma mod_out_field_int: "\<exists>i. to_int32 (mod_out_field args) = Some i"
  by (auto simp: mod_out_field_def to_int_def split: list.splits edn.splits)

lemma leaf_node_typed: "leaf_node op args = Some n \<Longrightarrow> node_typed g n"
  using mod_out_field_int [of args]
  by (auto simp: leaf_node_def node_typed_def node_shape_def const_node_def node_new_def split: if_splits)

lemma const_at_push: "push_node n g = (i, g') \<Longrightarrow> const_at g' i = (if cg_type n = Const_val then Some (cg_args n ! 0) else None)"
  by (auto simp: push_node_def const_at_def)

lemma const_at_const: "push_node (const_node c) g = (i, g') \<Longrightarrow> const_at g' i = Some c"
  by (simp add: const_at_push, simp add: const_node_def node_new_def)

lemma graph_typed_push: "graph_typed g \<Longrightarrow> node_before (length g) n \<Longrightarrow> node_typed g n \<Longrightarrow> push_node n g = (i, g') \<Longrightarrow> graph_typed g'"
  by (auto simp: push_node_def graph_typed_snoc)

lemma const_pushed: "push_node (const_node c) g = (i, g') \<Longrightarrow> graph_typed g \<Longrightarrow> graph_typed g' \<and> const_at g' i = Some c"
  by (simp add: const_at_const graph_typed_push [OF _ const_node_before const_node_typed])

lemma const_at_none [simp]: "const_at g (- 1) = Some (Fin 0)"
  by (simp add: const_at_def)

lemma op_node_typed:
  assumes "length is = length ds" "op_slots op = Some (k, ds)"
    and "k = Clamp \<Longrightarrow> bounds_ok (const_at g (is ! 1)) (const_at g (is ! 2))"
  shows "node_typed g (fill_inputs is (node_new k))"
proof -
  have k: "k \<noteq> Mod_ref" "k = Clamp \<Longrightarrow> length ds = 3" using assms(2) by (auto simp: op_slots_def split: if_splits)
  then show ?thesis using assms(1,3) by (cases k) (auto simp: node_typed_def node_shape_def fill_inputs_def node_new_def nth_append)
qed

lemma slot_const_Cons: "slot_const (d # ds) (a # args) (Suc j) = slot_const ds args j" "slot_const (d # ds) [] (Suc j) = slot_const ds [] j"
  by (simp_all add: slot_const_def)

lemma args_typed_Nil [simp]: "args_typed ds []"
  by (cases ds) simp_all

text \<open>The constants known at the slots of an operator after its arguments are compiled.\<close>

definition slots_known :: "cg_node list \<Rightarrow> fp option list \<Rightarrow> edn list \<Rightarrow> int list \<Rightarrow> bool" where
  "slots_known g ds args is = (\<forall>j < length ds. \<forall>c. slot_const ds args j = Some c \<longrightarrow> const_at g (is ! j) = Some c)"

lemma slots_known_Cons:
  assumes "slots_known g' ds (tl args) is" "\<And>c. slot_const (d # ds) args 0 = Some c \<Longrightarrow> const_at g' i = Some c"
  shows "slots_known g' (d # ds) args (i # is)"
  using assms unfolding slots_known_def by (cases args) (auto simp: All_less_Suc2 slot_const_Cons)

lemma parse_children_extends: "parse_children ds args g = (is, g') \<Longrightarrow> const_at g i = Some c \<Longrightarrow> const_at g' i = Some c"
  using parse_topo(2) [of ds args g "is" g'] const_at_append by (auto simp: parse_ok_def)

lemma op_pushed:
  assumes c: "parse_children ds args g = (is, g1)" and g1: "graph_typed g1" "slots_known g1 ds args is"
    and k: "op_slots op = Some (k, ds)" "k = Clamp \<Longrightarrow> bounds_ok (slot_const ds args 1) (slot_const ds args 2)"
    and p: "push_node (fill_inputs is (node_new k)) g1 = (i, g')"
  shows "graph_typed g'"
proof -
  have len: "length is = length ds" "parse_ok g g1 is" using parse_topo(2) [OF c] by auto
  have "k = Clamp \<Longrightarrow> length ds = 3" using k(1) by (auto simp: op_slots_def split: if_splits)
  then have "k = Clamp \<Longrightarrow> bounds_ok (const_at g1 (is ! 1)) (const_at g1 (is ! 2))"
    using k(2) g1(2) by (auto simp: slots_known_def elim!: bounds_ok_mono)
  then have "node_typed g1 (fill_inputs is (node_new k))" by (rule op_node_typed [OF len(1) k(1)])
  moreover have "node_before (length g1) (fill_inputs is (node_new k))"
    using len op_slots_length [OF k(1)] by (intro fill_inputs_before) (auto simp: parse_ok_def)
  ultimately show ?thesis using graph_typed_push [OF g1(1) _ _ p] by blast
qed

lemma parse_typed:
  shows "parse_node v g = (i, g') \<Longrightarrow> expr_typed v \<Longrightarrow> graph_typed g \<Longrightarrow>
      graph_typed g' \<and> (\<forall>c. edn_const v = Some c \<longrightarrow> const_at g' i = Some c)"
    and "parse_children ds args g = (is, g') \<Longrightarrow> args_typed ds args \<Longrightarrow> graph_typed g \<Longrightarrow>
      graph_typed g' \<and> slots_known g' ds args is"
proof (induction v g and ds args g arbitrary: i g' and "is" g' rule: parse_node_parse_children.induct)
  case (3 op args g)
  show ?case
  proof (cases "leaf_node op args")
    case (Some n)
    then have p: "push_node n g = (i, g')" using 3(2) by simp
    then show ?thesis using Some 3(4) graph_typed_push [OF _ leaf_node_before [OF Some] leaf_node_typed [OF Some] p]
      by (simp add: const_at_push [OF p] edn_const_def)
  next
    case None
    note leaf = this
    show ?thesis
    proof (cases "op_slots op")
      case None
      then show ?thesis using 3(2,4) leaf by (auto simp: edn_const_def)
    next
      case (Some kd)
      obtain k ds where kd: "kd = (k, ds)" by fastforce
      obtain "is" g1 where c: "parse_children ds args g = (is, g1)" by fastforce
      have t: "args_typed ds args" "k = Clamp \<Longrightarrow> bounds_ok (slot_const ds args 1) (slot_const ds args 2)"
        using 3(3) leaf Some kd by simp_all
      have IH: "graph_typed g1" "slots_known g1 ds args is" using 3(1) [OF leaf Some kd [symmetric] c t(1) 3(4)] by auto
      have "push_node (fill_inputs is (node_new k)) g1 = (i, g')" using 3(2) leaf Some kd c by simp
      with op_pushed [OF c IH _ t(2)] show ?thesis using leaf Some kd by (auto simp: edn_const_def)
    qed
  qed
next
  case (6 ds g)
  obtain js g1 where c: "parse_children ds [] g = (js, g1)" by fastforce
  from 6(1) [OF c _ 6(4)] 6(2) c show ?case
    by (auto intro!: slots_known_Cons simp: slot_const_def)
next
  case (7 c ds g)
  obtain j g1 where p: "push_node (const_node c) g = (j, g1)" by fastforce
  obtain js g2 where cs: "parse_children ds [] g1 = (js, g2)" by fastforce
  have "graph_typed g1" using const_pushed [OF p 7(4)] by simp
  from 7(1) [OF p [symmetric] cs _ this] 7(2) p cs const_pushed [OF p 7(4)] show ?case
    by (auto intro!: slots_known_Cons simp: slot_const_def intro: parse_children_extends)
next
  case (8 d ds a args g)
  obtain j g1 where p: "parse_node a g = (j, g1)" by fastforce
  obtain js g2 where cs: "parse_children ds args g1 = (js, g2)" by fastforce
  have a: "graph_typed g1" "\<And>c. edn_const a = Some c \<Longrightarrow> const_at g1 j = Some c" using 8(1) [OF p] 8(4,5) by auto
  from 8(2) [OF p [symmetric] cs _ a(1)] 8(3,4) p cs a(2) show ?case
    by (auto intro!: slots_known_Cons simp: slot_const_def intro: parse_children_extends)
qed (auto simp: edn_const_def slots_known_def dest: const_pushed)

section \<open>Typed graphs do not go wrong\<close>

text \<open>The part of a node that evaluation leaves alone.\<close>

definition static :: "cg_node \<Rightarrow> cg_node" where
  "static n = n\<lparr>cg_state := []\<rparr>"

lemma static_eqD: "static n = static n' \<Longrightarrow> cg_type n' = cg_type n \<and> cg_inputs n' = cg_inputs n \<and> cg_args n' = cg_args n"
  by (cases n; cases n') (simp add: static_def)

lemma eval_node_static:
  "eval_node lm eng params beat dt vals n = Some (v, n') \<Longrightarrow> static n' = static n \<and> length (cg_state n') = length (cg_state n)"
  by (cases "cg_type n") (auto simp: eval_node_def static_def Let_def split: if_splits option.splits)

lemma map_static_nth: "map static g = map static g' \<Longrightarrow> i < length g \<Longrightarrow> static (g ! i) = static (g' ! i)"
  by (metis length_map nth_map)

lemma const_at_static:
  assumes "map static g = map static g'"
  shows "const_at g i = const_at g' i"
proof -
  have len: "length g = length g'" using assms by (rule map_eq_imp_length_eq)
  have "cg_type (g' ! nat i) = cg_type (g ! nat i) \<and> cg_args (g' ! nat i) = cg_args (g ! nat i)" if "0 \<le> i" "i < int (length g)"
    using static_eqD [OF map_static_nth [OF assms, of "nat i"]] that by simp
  then show ?thesis using len by (cases "0 \<le> i \<and> i < int (length g)") (auto simp: const_at_def)
qed

lemma node_typed_static:
  assumes "map static g = map static g'" "static n = static n'" "length (cg_state n) = length (cg_state n')"
  shows "node_typed g n = node_typed g' n'"
  using static_eqD [OF assms(2)] const_at_static [OF assms(1)] assms(3)
  by (cases "cg_type n") (simp_all add: node_typed_def node_shape_def)

text \<open>The values of the constants seen so far are in the buffer.\<close>

definition consts_set :: "cg_node list \<Rightarrow> nat \<Rightarrow> fp list \<Rightarrow> bool" where
  "consts_set g i vals = (\<forall>j < i. cg_type (g ! j) = Const_val \<longrightarrow> vals ! j = cg_args (g ! j) ! 0)"

lemma node_in_const:
  assumes "node_before i n" "consts_set g i vals" "i \<le> length g" "length vals = length g" "const_at g (cg_inputs n ! j) = Some c" "j < 4"
  shows "node_in n vals j = c"
proof -
  have "cg_inputs n ! j < int i" using assms(1,6) by (simp add: node_before_def list_all_length)
  then show ?thesis using assms(2-5) by (auto simp: node_in_def const_at_def consts_set_def Let_def split: if_splits)
qed

text \<open>Progress for one node and for the pass.\<close>

lemma eval_node_progress:
  assumes "node_typed g n" "node_before i n" "consts_set g i vals" "i \<le> length g" "length vals = length g"
  shows "\<exists>v n'. eval_node lm eng params beat dt vals n = Some (v, n') \<and> (cg_type n = Const_val \<longrightarrow> v = cg_args n ! 0)"
proof (cases "cg_type n = Clamp")
  case True
  obtain lo hi where c: "const_at g (cg_inputs n ! 1) = Some lo" "const_at g (cg_inputs n ! 2) = Some hi" "\<not> flt hi lo"
    using assms(1) True by (auto simp: node_typed_def bounds_ok_def split: option.splits)
  then have "node_in n vals 1 = lo" "node_in n vals 2 = hi" using node_in_const [OF assms(2-5)] by auto
  then show ?thesis using True c(3) by (simp add: eval_node_def Let_def)
next
  case False
  then show ?thesis using assms(1)
    by (cases "cg_type n") (auto simp: eval_node_def Let_def mod_ref_value_def node_typed_def split: option.splits)
qed

lemma eval_nodes_progress:
  assumes "graph_typed g" "length vals = length g" "i \<le> length g" "consts_set g i vals" "ns = drop i g"
  shows "\<exists>ns' vals'. eval_nodes lm eng params beat dt i ns vals = Some (ns', vals') \<and>
    map static ns' = map static ns \<and> map (\<lambda>n. length (cg_state n)) ns' = map (\<lambda>n. length (cg_state n)) ns \<and> length vals' = length vals"
  using assms(2-5)
proof (induction ns arbitrary: i vals)
  case (Cons n ns)
  have i: "i < length g" "n = g ! i" "ns = drop (Suc i) g"
    using Cons.prems(2,4) by (metis drop_all leI list.distinct(1), metis hd_drop_conv_nth drop_all leI list.distinct(1) list.sel(1), metis drop_Suc list.sel(3) tl_drop)
  have t: "node_typed g n" "node_before i n" using assms(1) i by (auto simp: graph_typed_def topo_def list_all_length)
  obtain v n' where e: "eval_node lm eng params beat dt vals n = Some (v, n')" "cg_type n = Const_val \<longrightarrow> v = cg_args n ! 0"
    using eval_node_progress [OF t Cons.prems(3) _ Cons.prems(1)] i(1) by force
  have "consts_set g (Suc i) (vals[i := v])"
    using Cons.prems(1,3) e(2) i by (auto simp: consts_set_def less_Suc_eq)
  then obtain ns' vals' where "eval_nodes lm eng params beat dt (Suc i) ns (vals[i := v]) = Some (ns', vals')"
    "map static ns' = map static ns" "map (\<lambda>n. length (cg_state n)) ns' = map (\<lambda>n. length (cg_state n)) ns" "length vals' = length vals"
    using Cons.IH [where vals = "vals[i := v]" and i = "Suc i"] Cons.prems(1) i by (auto simp: Suc_le_eq)
  then show ?case using e(1) eval_node_static [OF e(1)] by simp
qed simp

text \<open>A state of the modulator: a typed graph whose outputs are among its nodes.\<close>

definition graph_ok :: "graph_modulator \<Rightarrow> bool" where
  "graph_ok s = (let g = gm_graph s in graph_typed (gr_nodes g) \<and>
     list_all (\<lambda>x. x < int (length (gr_nodes g))) (graph_outs g))"

lemma graph_typed_static:
  assumes "graph_typed g" "map static g' = map static g" "map (\<lambda>n. length (cg_state n)) g' = map (\<lambda>n. length (cg_state n)) g"
  shows "graph_typed g'"
proof -
  have len: "length g' = length g" using assms(2) by (rule map_eq_imp_length_eq)
  have "node_typed g' (g' ! i) \<and> node_before i (g' ! i)" if i: "i < length g" for i
  proof -
    have s: "static (g' ! i) = static (g ! i)" "length (cg_state (g' ! i)) = length (cg_state (g ! i))"
      using map_static_nth [OF assms(2)] assms(3) i len by (simp, metis nth_map)
    have "node_typed g (g ! i)" "node_before i (g ! i)" using assms(1) i by (simp_all add: graph_typed_def topo_def list_all_length)
    then show ?thesis using node_typed_static [OF assms(2) s] static_eqD [OF s(1)] by (simp add: node_before_def)
  qed
  then show ?thesis using len by (simp add: graph_typed_def topo_def list_all_length)
qed

lemma graph_tick_progress:
  assumes "graph_ok s"
  shows "\<exists>out s'. graph_tick lm eng beat rate s = Some (out, s') \<and> graph_ok s' \<and>
    map static (gr_nodes (gm_graph s')) = map static (gr_nodes (gm_graph s))"
proof -
  define g where "g = gr_nodes (gm_graph s)"
  define dt where "dt = (if flt (Fin 0) rate then sdiv (Fin 1) rate else Fin 0)"
  have t: "graph_typed g" using assms by (simp add: graph_ok_def g_def Let_def)
  have "length (resize (length g) (gm_values s)) = length g" by (simp add: resize_def)
  from eval_nodes_progress [OF t this, of 0 g lm eng "gr_params (gm_graph s)" beat dt]
  obtain ns vals where e: "eval_nodes lm eng (gr_params (gm_graph s)) beat dt 0 g (resize (length g) (gm_values s)) = Some (ns, vals)"
    "map static ns = map static g" "map (\<lambda>n. length (cg_state n)) ns = map (\<lambda>n. length (cg_state n)) g"
    by (auto simp: consts_set_def)
  have "graph_typed ns" "length ns = length g" using graph_typed_static [OF t e(2,3)] map_eq_imp_length_eq [OF e(2)] by auto
  then show ?thesis using e(1,2) assms by (auto simp: graph_tick_def graph_ok_def g_def dt_def graph_outs_def Let_def)
qed

lemma graph_update_ok: "graph_update k v s = Some s' \<Longrightarrow> graph_ok s \<Longrightarrow> graph_ok s' \<and> gr_nodes (gm_graph s') = gr_nodes (gm_graph s)"
  by (auto simp: graph_update_def graph_ok_def graph_outs_def Let_def)

text \<open>What a graph modulator can become: ticks with any view of the engine, and parameter updates.\<close>

inductive graph_steps :: "libm \<Rightarrow> graph_modulator \<Rightarrow> graph_modulator \<Rightarrow> bool" for lm s where
  steps_refl: "graph_steps lm s s"
| steps_tick: "graph_steps lm s s1 \<Longrightarrow> graph_tick lm eng beat rate s1 = Some (out, s2) \<Longrightarrow> graph_steps lm s s2"
| steps_update: "graph_steps lm s s1 \<Longrightarrow> graph_update k v s1 = Some s2 \<Longrightarrow> graph_steps lm s s2"

lemma graph_steps_ok:
  "graph_steps lm s s' \<Longrightarrow> graph_ok s \<Longrightarrow> graph_ok s' \<and> map static (gr_nodes (gm_graph s')) = map static (gr_nodes (gm_graph s))"
proof (induction rule: graph_steps.induct)
  case (steps_tick s1 eng beat rate out s2)
  then show ?case using graph_tick_progress [of s1 lm eng beat rate] by auto
next
  case (steps_update s1 k v s2)
  then show ?case using graph_update_ok by metis
qed simp

lemma parse_out_typed:
  "parse_out L m kw g = (i, g') \<Longrightarrow> (case ed_find_kw L m kw of Some v \<Rightarrow> expr_typed v | None \<Rightarrow> True) \<Longrightarrow> graph_typed g \<Longrightarrow> graph_typed g'"
  using parse_typed(1) by (auto simp: parse_out_def split: option.splits)

lemma parse_graph_typed:
  assumes "graph_expr_typed L expr"
  shows "graph_typed (gr_nodes (parse_control_graph L expr params))"
proof (cases "\<exists>m. expr = Edn_map m")
  case True
  then obtain m where m: "expr = Edn_map m" by blast
  have t: "case ed_find_kw L m kw of Some v \<Rightarrow> expr_typed v | None \<Rightarrow> True" if "kw \<in> {''cv'', ''aux'', ''gate'', ''gate2''}" for kw
    using assms m that by (auto simp: graph_expr_typed_def)
  have nil: "graph_typed []" by (simp add: graph_typed_def)
  obtain i1 g1 where p1: "parse_out L m ''cv'' [] = (i1, g1)" by fastforce
  obtain i2 g2 where p2: "parse_out L m ''aux'' g1 = (i2, g2)" by fastforce
  obtain i3 g3 where p3: "parse_out L m ''gate'' g2 = (i3, g3)" by fastforce
  obtain i4 g4 where p4: "parse_out L m ''gate2'' g3 = (i4, g4)" by fastforce
  have "graph_typed g4"
    by (intro parse_out_typed [OF p4] parse_out_typed [OF p3] parse_out_typed [OF p2] parse_out_typed [OF p1] t nil) simp_all
  then show ?thesis using m p1 p2 p3 p4 by (simp add: parse_control_graph_def)
next
  case False
  then have "expr_typed expr" "gr_nodes (parse_control_graph L expr params) = snd (parse_node expr [])"
    using assms by (cases expr; simp add: graph_expr_typed_def parse_control_graph_def split: prod.splits)+
  then show ?thesis using parse_typed(1) [of expr "[]"] by (cases "parse_node expr []") (simp add: graph_typed_def)
qed

section \<open>Properties\<close>

text \<open>C20: an expression that passes the check never goes wrong: the graph compiled from it can be ticked
  in every state it can reach, through any ticks (at any beat and rate, whatever the other modulators
  output) and parameter updates, without undefined behaviour, and its nodes keep their kinds, inputs
  and constants.\<close>

theorem graph_type_sound:
  assumes "graph_expr_typed L expr" "graph_steps lm (graph_new (parse_control_graph L expr params)) s"
  shows "(\<exists>out s'. graph_tick lm eng beat rate s = Some (out, s')) \<and>
    map static (gr_nodes (gm_graph s)) = map static (gr_nodes (parse_control_graph L expr params))"
proof -
  have "graph_ok (graph_new (parse_control_graph L expr params))"
    using parse_graph_typed [OF assms(1), of params] parse_graph_ok [of L expr params]
    by (simp add: graph_ok_def graph_new_def parse_ok_def Let_def list_all_iff)
  from graph_steps_ok [OF assms(2) this] have "graph_ok s"
    "map static (gr_nodes (gm_graph s)) = map static (gr_nodes (parse_control_graph L expr params))" by (simp_all add: graph_new_def)
  then show ?thesis using graph_tick_progress [of s lm eng beat rate] by blast
qed

definition clamped_param :: edn where
  "clamped_param = Edn_vector [Edn_keyword ''clamp'', Edn_vector [Edn_keyword ''param'', Edn_keyword ''x''], Edn_int (- 1), Edn_double (Fin 1)]"

theorem graph_type_sound_witness:
  "\<exists>s. graph_update ''x'' PInf (graph_new (parse_control_graph (edn_table []) clamped_param [])) = Some s \<and>
    (\<exists>out s'. graph_tick libm_const None (Fin 0) (Fin 0) s = Some (out, s'))"
proof -
  have "graph_expr_typed (edn_table []) clamped_param" by code_simp
  moreover obtain s where s: "graph_update ''x'' PInf (graph_new (parse_control_graph (edn_table []) clamped_param [])) = Some s"
    by (simp add: graph_update_def)
  ultimately have "\<exists>out s'. graph_tick libm_const None (Fin 0) (Fin 0) s = Some (out, s')"
    using graph_type_sound [OF _ steps_update [OF steps_refl s]] by blast
  with s show ?thesis by blast
qed

text \<open>The check is needed: a clamp whose upper bound is below its lower bound is undefined at every tick.\<close>

lemma reversed_clamp_undefined:
  "graph_tick lm eng beat rate (graph_new (parse_control_graph L
     (Edn_vector [Edn_keyword ''clamp'', Edn_double (Fin 0), Edn_double (Fin 1), Edn_double (Fin 0)]) [])) = None"
proof -
  have "flt (rnd F32 False 0) (rnd F32 False 1)" by code_simp
  then show ?thesis
    by (simp add: parse_control_graph_def leaf_node_def op_slots_def push_node_def graph_tick_def graph_new_def resize_def
        const_node_def node_new_def fill_inputs_def eval_node_def node_in_def Let_def)
qed

end
