(* ===== verification/Graph_Semantics.thy ===== *)
theory Graph_Semantics
  imports Graph_Modulator
begin

text \<open>
  What a control graph means, read off the expression instead of the compiled array: an expression is a
  tree whose stateful operators carry their own state, evaluated by recursion, and a graph modulator is
  four such trees (one per output) with a table of parameters. The compiled graph of
  \<open>graph_modulator.cpp\<close> is proved to produce the same outputs, through every tick and every parameter
  update, and to be undefined at exactly the same tick.
\<close>

section \<open>Expression trees\<close>

text \<open>\<open>T_zero\<close> stands for what the parser rejects; \<open>T_op\<close> keeps the two state words of its operator.\<close>

datatype expr_tree = T_zero | T_leaf cg_node | T_op cg_kind fp fp "expr_tree list"

fun tree_of :: "edn \<Rightarrow> expr_tree" and trees_of :: "fp option list \<Rightarrow> edn list \<Rightarrow> expr_tree list" where
  "tree_of (Edn_double d) = T_leaf (const_node (to_float d))"
| "tree_of (Edn_int i) = T_leaf (const_node (of_int_fp F32 i))"
| "tree_of (Edn_vector (Edn_keyword op # args)) =
     (case leaf_node op args of
        Some n \<Rightarrow> T_leaf n
      | None \<Rightarrow> (case op_slots op of
          None \<Rightarrow> T_zero
        | Some (k, ds) \<Rightarrow> T_op k (Fin 0) (Fin 0) (trees_of ds args)))"
| "tree_of v = T_zero"
| "trees_of [] args = []"
| "trees_of (d # ds) [] = (case d of None \<Rightarrow> T_zero | Some c \<Rightarrow> T_leaf (const_node c)) # trees_of ds []"
| "trees_of (d # ds) (a # args) = tree_of a # trees_of ds args"

section \<open>Evaluation by recursion\<close>

definition leaf_meaning :: "engine_view \<Rightarrow> (string \<rightharpoonup> fp) \<Rightarrow> fp \<Rightarrow> cg_node \<Rightarrow> fp option" where
  "leaf_meaning eng params beat n = (case cg_type n of
     Const_val \<Rightarrow> Some (cg_args n ! 0)
   | Param_ref \<Rightarrow> Some (case params (cg_param_key n) of Some v \<Rightarrow> v | None \<Rightarrow> Fin 0)
   | Mod_ref \<Rightarrow> mod_ref_value eng n
   | _ \<Rightarrow> Some (to_float beat))"

text \<open>An operator without state is a function of its arguments.\<close>

definition op_meaning :: "libm \<Rightarrow> fp \<Rightarrow> cg_kind \<Rightarrow> (nat \<Rightarrow> fp) \<Rightarrow> fp option" where
  "op_meaning lm beat k x = (case k of
     Beat_phase \<Rightarrow> Some (if fle (x 0) (Fin 0) then Fin 0 else f_mod (sdiv (to_float beat) (x 0)) (Fin 1))
   | Sin \<Rightarrow> Some (lm_sin lm (smul (x 0) kTwoPi_graph))
   | Cos \<Rightarrow> Some (lm_cos lm (smul (x 0) kTwoPi_graph))
   | Tri \<Rightarrow> Some (if flt (x 0) (Fin (1/2)) then ssub (smul (Fin 4) (x 0)) (Fin 1) else ssub (Fin 3) (smul (Fin 4) (x 0)))
   | Saw \<Rightarrow> Some (ssub (smul (x 0) (Fin 2)) (Fin 1))
   | Square \<Rightarrow> Some (if flt (x 0) (x 1) then Fin 1 else Fin (- 1))
   | Scale \<Rightarrow> Some (sadd (x 1) (smul (x 0) (ssub (x 2) (x 1))))
   | Clamp \<Rightarrow> if flt (x 2) (x 1) then None else Some (fclamp (x 0) (x 1) (x 2))
   | Add \<Rightarrow> Some (sadd (x 0) (x 1))
   | Mul \<Rightarrow> Some (smul (x 0) (x 1))
   | Neg \<Rightarrow> Some (fneg (x 0))
   | Abs_val \<Rightarrow> Some (f_abs (x 0))
   | Mix \<Rightarrow> Some (sadd (smul (x 0) (ssub (Fin 1) (clampf 0 1 (x 2)))) (smul (x 1) (clampf 0 1 (x 2))))
   | Threshold \<Rightarrow> Some (if flt (x 1) (x 0) then Fin 1 else Fin 0)
   | Comparator \<Rightarrow> Some (if flt (x 1) (x 0) then Fin 1 else Fin 0)
   | _ \<Rightarrow> None)"

text \<open>
  The operators with state: a phasor reports its phase and then advances it by rate times the length
  of a tick, wrapping at one; a slew moves towards its target by at most the tick over the rise or fall
  time; a sample-and-hold takes its signal when its gate rises above a half and holds it otherwise.
\<close>

definition phasor_step :: "fp \<Rightarrow> fp \<Rightarrow> fp \<Rightarrow> fp" where
  "phasor_step dt rate phase = (let ph = sadd phase (smul rate dt) in if fle (Fin 1) ph then ssub ph (f_floor ph) else ph)"

definition slew_step :: "fp \<Rightarrow> fp \<Rightarrow> fp \<Rightarrow> fp \<Rightarrow> fp \<Rightarrow> fp" where
  "slew_step dt target rise fall cur =
     (if flt cur target
      then if flt (Fin 0) rise then fmin (sadd cur (sdiv dt rise)) target else target
      else if flt (Fin 0) fall then fmax (ssub cur (sdiv dt fall)) target else target)"

definition rising_edge :: "fp \<Rightarrow> fp \<Rightarrow> bool" where
  "rising_edge prev gate = (flt (Fin (1/2)) gate \<and> fle prev (Fin (1/2)))"

definition op_step :: "libm \<Rightarrow> fp \<Rightarrow> fp \<Rightarrow> cg_kind \<Rightarrow> fp \<Rightarrow> fp \<Rightarrow> (nat \<Rightarrow> fp) \<Rightarrow> (fp \<times> fp \<times> fp) option" where
  "op_step lm beat dt k s0 s1 x = (case k of
     Phasor \<Rightarrow> Some (s0, phasor_step dt (x 0) s0, s1)
   | Slew \<Rightarrow> Some (slew_step dt (x 0) (x 1) (x 2) s0, slew_step dt (x 0) (x 1) (x 2) s0, s1)
   | Sample_hold \<Rightarrow> Some (if rising_edge s1 (x 1) then x 0 else s0, if rising_edge s1 (x 1) then x 0 else s0, x 1)
   | _ \<Rightarrow> map_option (\<lambda>v. (v, s0, s1)) (op_meaning lm beat k x))"

definition arg_fun :: "fp list \<Rightarrow> nat \<Rightarrow> fp" where
  "arg_fun xs j = (if j < length xs then xs ! j else Fin 0)"

fun tree_eval :: "libm \<Rightarrow> engine_view \<Rightarrow> (string \<rightharpoonup> fp) \<Rightarrow> fp \<Rightarrow> fp \<Rightarrow> expr_tree \<Rightarrow> (fp \<times> expr_tree) option"
  and trees_eval :: "libm \<Rightarrow> engine_view \<Rightarrow> (string \<rightharpoonup> fp) \<Rightarrow> fp \<Rightarrow> fp \<Rightarrow> expr_tree list \<Rightarrow> (fp list \<times> expr_tree list) option" where
  "tree_eval lm eng params beat dt T_zero = Some (Fin 0, T_zero)"
| "tree_eval lm eng params beat dt (T_leaf n) = map_option (\<lambda>v. (v, T_leaf n)) (leaf_meaning eng params beat n)"
| "tree_eval lm eng params beat dt (T_op k s0 s1 ts) = (case trees_eval lm eng params beat dt ts of
     None \<Rightarrow> None
   | Some (xs, ts') \<Rightarrow> map_option (\<lambda>(v, s0', s1'). (v, T_op k s0' s1' ts')) (op_step lm beat dt k s0 s1 (arg_fun xs)))"
| "trees_eval lm eng params beat dt [] = Some ([], [])"
| "trees_eval lm eng params beat dt (t # ts) = (case tree_eval lm eng params beat dt t of
     None \<Rightarrow> None
   | Some (x, t') \<Rightarrow> map_option (\<lambda>(xs, ts'). (x # xs, t' # ts')) (trees_eval lm eng params beat dt ts))"

section \<open>The specified modulator\<close>

record graph_spec =
  gs_trees :: "expr_tree list"
  gs_params :: "string \<rightharpoonup> fp"

definition spec_outputs :: "edn_lib \<Rightarrow> edn \<Rightarrow> expr_tree list" where
  "spec_outputs L expr = (case expr of
     Edn_map m \<Rightarrow> map (\<lambda>kw. case ed_find_kw L m kw of Some v \<Rightarrow> tree_of v | None \<Rightarrow> T_zero) [''cv'', ''aux'', ''gate'', ''gate2'']
   | _ \<Rightarrow> [tree_of expr, T_zero, T_zero, T_zero])"

definition spec_new :: "edn_lib \<Rightarrow> edn \<Rightarrow> (string \<times> fp) list \<Rightarrow> graph_spec" where
  "spec_new L expr params = \<lparr>gs_trees = spec_outputs L expr, gs_params = map_of params\<rparr>"

definition spec_tick :: "libm \<Rightarrow> engine_view \<Rightarrow> fp \<Rightarrow> fp \<Rightarrow> graph_spec \<Rightarrow> (modulator_output \<times> graph_spec) option" where
  "spec_tick lm eng beat rate s =
     map_option (\<lambda>(xs, ts). (output_new\<lparr>o_cv := xs ! 0, o_aux := xs ! 1,
         o_gate := flt (Fin (1/2)) (xs ! 2), o_gate2 := flt (Fin (1/2)) (xs ! 3)\<rparr>, s\<lparr>gs_trees := ts\<rparr>))
       (trees_eval lm eng (gs_params s) beat (if flt (Fin 0) rate then sdiv (Fin 1) rate else Fin 0) (gs_trees s))"

definition spec_update :: "string \<Rightarrow> fp \<Rightarrow> graph_spec \<Rightarrow> graph_spec" where
  "spec_update key v s = s\<lparr>gs_params := (gs_params s)(key \<mapsto> v)\<rparr>"

text \<open>What the engine does to a modulator: ticks, at each of which the other modulators' last outputs are
  visible, and parameter updates. A run gives the outputs of its ticks; \<open>None\<close> is undefined behaviour.\<close>

datatype graph_op = G_tick engine_view fp fp | G_update string fp

fun graph_run :: "libm \<Rightarrow> graph_modulator \<Rightarrow> graph_op list \<Rightarrow> modulator_output list option" where
  "graph_run lm s [] = Some []"
| "graph_run lm s (G_tick eng beat rate # ops) = (case graph_tick lm eng beat rate s of
     None \<Rightarrow> None
   | Some (out, s') \<Rightarrow> map_option (Cons out) (graph_run lm s' ops))"
| "graph_run lm s (G_update key v # ops) = (case graph_update key v s of
     None \<Rightarrow> None
   | Some s' \<Rightarrow> graph_run lm s' ops)"

fun spec_run :: "libm \<Rightarrow> graph_spec \<Rightarrow> graph_op list \<Rightarrow> modulator_output list option" where
  "spec_run lm s [] = Some []"
| "spec_run lm s (G_tick eng beat rate # ops) = (case spec_tick lm eng beat rate s of
     None \<Rightarrow> None
   | Some (out, s') \<Rightarrow> map_option (Cons out) (spec_run lm s' ops))"
| "spec_run lm s (G_update key v # ops) = spec_run lm (spec_update key v s) ops"

section \<open>The compiled array is the flattened tree\<close>

definition op_node :: "cg_kind \<Rightarrow> fp \<Rightarrow> fp \<Rightarrow> int list \<Rightarrow> cg_node" where
  "op_node k s0 s1 is = (fill_inputs is (node_new k))\<lparr>cg_state := [s0, s1]\<rparr>"

text \<open>The nodes of a tree placed from index \<open>i\<close> on, and the index of its root.\<close>

fun flat :: "nat \<Rightarrow> expr_tree \<Rightarrow> int \<times> cg_node list" and flats :: "nat \<Rightarrow> expr_tree list \<Rightarrow> int list \<times> cg_node list" where
  "flat i T_zero = (- 1, [])"
| "flat i (T_leaf n) = (int i, [n])"
| "flat i (T_op k s0 s1 ts) = (case flats i ts of (is, ns) \<Rightarrow> (int (i + length ns), ns @ [op_node k s0 s1 is]))"
| "flats i [] = ([], [])"
| "flats i (t # ts) = (case flat i t of (j, ns) \<Rightarrow> (case flats (i + length ns) ts of (js, ms) \<Rightarrow> (j # js, ns @ ms)))"

fun tree_wf :: "expr_tree \<Rightarrow> bool" and trees_wf :: "expr_tree list \<Rightarrow> bool" where
  "tree_wf T_zero = True"
| "tree_wf (T_leaf n) = (cg_type n \<in> {Const_val, Param_ref, Mod_ref, Beat_in})"
| "tree_wf (T_op k s0 s1 ts) = (k \<notin> {Const_val, Param_ref, Mod_ref, Beat_in} \<and> length ts \<le> 3 \<and> trees_wf ts)"
| "trees_wf [] = True"
| "trees_wf (t # ts) = (tree_wf t \<and> trees_wf ts)"

lemma leaf_node_kind: "leaf_node op args = Some n \<Longrightarrow> cg_type n \<in> {Const_val, Param_ref, Mod_ref, Beat_in}"
  by (auto simp: leaf_node_def const_node_def node_new_def split: if_splits)

lemma op_slots_kind: "op_slots op = Some (k, ds) \<Longrightarrow> k \<notin> {Const_val, Param_ref, Mod_ref, Beat_in}"
  by (auto simp: op_slots_def split: if_splits)

lemma const_node_kind [simp]: "cg_type (const_node c) = Const_val"
  by (simp add: const_node_def node_new_def)

lemma tree_of_wf:
  shows "tree_wf (tree_of v)"
    and "trees_wf (trees_of ds args) \<and> length (trees_of ds args) = length ds"
proof (induction v and ds args rule: tree_of_trees_of.induct)
  case (3 op args)
  then show ?case using leaf_node_kind [of op args] op_slots_kind [of op] op_slots_length [of op]
    by (auto split: option.splits)
qed (auto split: option.splits)

lemma op_node_new: "op_node k (Fin 0) (Fin 0) is = fill_inputs is (node_new k)"
  by (simp add: op_node_def fill_inputs_def node_new_def numeral_2_eq_2)

lemma parse_flat:
  shows "parse_node v g = (case flat (length g) (tree_of v) of (i, ns) \<Rightarrow> (i, g @ ns))"
    and "parse_children ds args g = (case flats (length g) (trees_of ds args) of (is, ns) \<Rightarrow> (is, g @ ns))"
  by (induction v g and ds args g rule: parse_node_parse_children.induct)
     (auto simp: push_node_def op_node_new split: prod.splits option.splits)

lemma flat_bounds:
  shows "flat i t = (j, ns) \<Longrightarrow> - 1 \<le> j \<and> j < int (i + length ns)"
    and "flats i ts = (js, ns) \<Longrightarrow> list_all (\<lambda>x. - 1 \<le> x \<and> x < int (i + length ns)) js \<and> length js = length ts"
proof (induction i t and i ts arbitrary: j ns and js ns rule: flat_flats.induct)
  case (5 i t ts)
  obtain j1 ns1 where f: "flat i t = (j1, ns1)" by fastforce
  obtain js2 ns2 where g: "flats (i + length ns1) ts = (js2, ns2)" by fastforce
  from 5(1) [OF f] 5(2) [OF f [symmetric] g] 5(3) f g show ?case by (auto simp: list_all_iff add.assoc)
qed (auto split: prod.splits)

section \<open>One pass over the array evaluates the tree\<close>

lemma op_step_cong: "(\<And>j. j < 3 \<Longrightarrow> x j = y j) \<Longrightarrow> op_step lm beat dt k s0 s1 x = op_step lm beat dt k s0 s1 y"
  by (cases k) (simp_all add: op_step_def op_meaning_def)

lemma eval_op_node:
  assumes "k \<notin> {Const_val, Param_ref, Mod_ref, Beat_in}"
  shows "eval_node lm eng params beat dt vals (op_node k s0 s1 is) =
    map_option (\<lambda>(v, s0', s1'). (v, op_node k s0' s1' is)) (op_step lm beat dt k s0 s1 (node_in (op_node k s0 s1 is) vals))"
proof -
  have "cg_type (op_node k s0 s1 is) = k" "cg_state (op_node k s0 s1 is) = [s0, s1]"
    "\<And>a b. (op_node k s0 s1 is)\<lparr>cg_state := [a, b]\<rparr> = op_node k a b is"
    by (auto simp: op_node_def fill_inputs_def node_new_def)
  with assms show ?thesis
    by (cases k) (simp_all add: eval_node_def op_step_def op_meaning_def phasor_step_def slew_step_def rising_edge_def Let_def)
qed

lemma op_node_in:
  assumes "length is \<le> 3" "list_all (\<lambda>x. - 1 \<le> x \<and> x < int (length vals)) is" "j < 3"
  shows "node_in (op_node k s0 s1 is) vals j = arg_fun (map (out_value vals) is) j"
proof (cases "j < length is")
  case True
  then show ?thesis using assms(1,2)
    by (auto simp: node_in_def op_node_def fill_inputs_def node_new_def arg_fun_def out_value_def nth_append list_all_length Let_def)
next
  case False
  then show ?thesis using assms(1,3)
    by (simp add: node_in_def op_node_def fill_inputs_def node_new_def arg_fun_def nth_append Let_def)
qed

lemma eval_leaf:
  "cg_type n \<in> {Const_val, Param_ref, Mod_ref, Beat_in} \<Longrightarrow>
   eval_node lm eng params beat dt vals n = map_option (\<lambda>v. (v, n)) (leaf_meaning eng (map_of params) beat n)"
  by (elim insertE) (simp_all add: leaf_meaning_def eval_node_def Let_def)

lemma eval_nodes_append:
  "eval_nodes lm eng params beat dt i (ns @ ms) vals = (case eval_nodes lm eng params beat dt i ns vals of
     None \<Rightarrow> None
   | Some (ns', vals1) \<Rightarrow> (case eval_nodes lm eng params beat dt (i + length ns) ms vals1 of
       None \<Rightarrow> None
     | Some (ms', vals2) \<Rightarrow> Some (ns' @ ms', vals2)))"
  by (induction ns arbitrary: i vals) (auto split: option.splits prod.splits)

text \<open>
  The pass over the nodes \<open>ns\<close> placed at \<open>i\<close> does what \<open>r\<close> says: \<open>None\<close> is undefined behaviour, otherwise
  the nodes become \<open>ns'\<close>, the indices \<open>is\<close> then hold the values \<open>xs\<close> and nothing below \<open>i\<close> is touched.
\<close>

definition pass_gives :: "libm \<Rightarrow> engine_view \<Rightarrow> (string \<times> fp) list \<Rightarrow> fp \<Rightarrow> fp \<Rightarrow> nat \<Rightarrow> fp list \<Rightarrow>
    int list \<times> cg_node list \<Rightarrow> (fp list \<times> int list \<times> cg_node list) option \<Rightarrow> bool" where
  "pass_gives lm eng params beat dt i vals f r = (case r of
     None \<Rightarrow> eval_nodes lm eng params beat dt i (snd f) vals = None
   | Some (xs, f') \<Rightarrow> \<exists>vals'. eval_nodes lm eng params beat dt i (snd f) vals = Some (snd f', vals') \<and>
       length (snd f') = length (snd f) \<and> fst f' = fst f \<and> length vals' = length vals \<and>
       (\<forall>j < i. vals' ! j = vals ! j) \<and> map (out_value vals') (fst f) = xs)"

definition flat_one :: "nat \<Rightarrow> expr_tree \<Rightarrow> int list \<times> cg_node list" where
  "flat_one i t = (case flat i t of (j, ns) \<Rightarrow> ([j], ns))"

lemma pass_trees_Cons:
  assumes t: "\<And>vals. i + length (snd (flat_one i t)) \<le> length vals \<Longrightarrow>
      pass_gives lm eng params beat dt i vals (flat_one i t) (map_option (\<lambda>(x, t'). ([x], flat_one i t')) a)"
    and ts: "\<And>k vals. k + length (snd (flats k ts)) \<le> length vals \<Longrightarrow>
      pass_gives lm eng params beat dt k vals (flats k ts) (map_option (\<lambda>(xs, ts'). (xs, flats k ts')) b)"
    and len: "i + length (snd (flats i (t # ts))) \<le> length vals"
  shows "pass_gives lm eng params beat dt i vals (flats i (t # ts))
    (map_option (\<lambda>(xs, ts'). (xs, flats i ts'))
      (case a of None \<Rightarrow> None | Some (x, t') \<Rightarrow> map_option (\<lambda>(xs, ts'). (x # xs, t' # ts')) b))"
proof -
  obtain j ns where f: "flat i t = (j, ns)" by fastforce
  obtain js ms where g: "flats (i + length ns) ts = (js, ms)" by fastforce
  have l: "i + length ns + length ms \<le> length vals" using len f g by simp
  note T = t [of vals, unfolded flat_one_def f pass_gives_def, simplified]
  show ?thesis
  proof (cases a)
    case None
    then show ?thesis using T l f g by (simp add: pass_gives_def eval_nodes_append)
  next
    case (Some xt)
    then obtain x t' where a: "a = Some (x, t')" by (cases xt) auto
    obtain j' ns' where f': "flat i t' = (j', ns')" by fastforce
    obtain v1 where v1: "eval_nodes lm eng params beat dt i ns vals = Some (ns', v1)" "length ns' = length ns" "j' = j"
      "length v1 = length vals" "\<forall>k < i. v1 ! k = vals ! k" "out_value v1 j = x" using T l a f' by auto
    note S = ts [of "i + length ns" v1, unfolded g pass_gives_def, simplified]
    show ?thesis
    proof (cases b)
      case None
      then show ?thesis using S l a f g v1 by (simp add: pass_gives_def eval_nodes_append)
    next
      case (Some xts)
      then obtain xs ts' where b: "b = Some (xs, ts')" by (cases xts) auto
      obtain v2 where v2: "eval_nodes lm eng params beat dt (i + length ns) ms v1 = Some (snd (flats (i + length ns) ts'), v2)"
        "length (snd (flats (i + length ns) ts')) = length ms" "fst (flats (i + length ns) ts') = js" "length v2 = length v1"
        "\<forall>k < i + length ns. v2 ! k = v1 ! k" "map (out_value v2) js = xs" using S l b v1(4) by auto
      have "out_value v2 j = out_value v1 j" using v2(5) flat_bounds(1) [OF f] by (auto simp: out_value_def)
      then show ?thesis using a b f g f' v1 v2 by (auto simp: pass_gives_def eval_nodes_append split: prod.splits)
    qed
  qed
qed

lemma pass_op:
  assumes ts: "\<And>vals. i + length (snd (flats i ts)) \<le> length vals \<Longrightarrow>
      pass_gives lm eng params beat dt i vals (flats i ts) (map_option (\<lambda>(xs, ts'). (xs, flats i ts')) b)"
    and wf: "tree_wf (T_op k s0 s1 ts)"
    and len: "i + length (snd (flat_one i (T_op k s0 s1 ts))) \<le> length vals"
  shows "pass_gives lm eng params beat dt i vals (flat_one i (T_op k s0 s1 ts))
    (map_option (\<lambda>(x, t'). ([x], flat_one i t'))
      (case b of None \<Rightarrow> None
       | Some (xs, ts') \<Rightarrow> map_option (\<lambda>(v, s0', s1'). (v, T_op k s0' s1' ts')) (op_step lm beat dt k s0 s1 (arg_fun xs))))"
proof -
  obtain js ns where f: "flats i ts = (js, ns)" by fastforce
  have l: "i + length ns < length vals" using len f by (simp add: flat_one_def)
  note S = ts [of vals, unfolded f pass_gives_def, simplified]
  show ?thesis
  proof (cases b)
    case None
    then show ?thesis using S l f by (simp add: pass_gives_def eval_nodes_append flat_one_def)
  next
    case (Some xts)
    then obtain xs ts' where b: "b = Some (xs, ts')" by (cases xts) auto
    obtain v1 where v1: "eval_nodes lm eng params beat dt i ns vals = Some (snd (flats i ts'), v1)"
      "length (snd (flats i ts')) = length ns" "fst (flats i ts') = js" "length v1 = length vals"
      "\<forall>k < i. v1 ! k = vals ! k" "map (out_value v1) js = xs" using S l b by auto
    have "length js \<le> 3" "list_all (\<lambda>x. - 1 \<le> x \<and> x < int (length v1)) js"
      using flat_bounds(2) [OF f] wf l v1(4) by (auto simp: list_all_iff)
    from op_node_in [OF this] v1(6)
    have x: "op_step lm beat dt k s0 s1 (node_in (op_node k s0 s1 js) v1) = op_step lm beat dt k s0 s1 (arg_fun xs)"
      by (intro op_step_cong) simp
    have e: "eval_node lm eng params beat dt v1 (op_node k s0 s1 js) =
        map_option (\<lambda>(v, s0', s1'). (v, op_node k s0' s1' js)) (op_step lm beat dt k s0 s1 (arg_fun xs))"
      using eval_op_node [of k] wf x by simp
    show ?thesis using b f v1 e l
      by (cases "op_step lm beat dt k s0 s1 (arg_fun xs)")
         (auto simp: pass_gives_def eval_nodes_append flat_one_def out_value_def nat_int_add split: prod.splits)
  qed
qed

lemma pass_flat:
  shows "tree_wf t \<Longrightarrow> i + length (snd (flat_one i t)) \<le> length vals \<Longrightarrow>
      pass_gives lm eng params beat dt i vals (flat_one i t)
        (map_option (\<lambda>(x, t'). ([x], flat_one i t')) (tree_eval lm eng (map_of params) beat dt t))"
    and "trees_wf ts \<Longrightarrow> i + length (snd (flats i ts)) \<le> length vals \<Longrightarrow>
      pass_gives lm eng params beat dt i vals (flats i ts)
        (map_option (\<lambda>(xs, ts'). (xs, flats i ts')) (trees_eval lm eng (map_of params) beat dt ts))"
proof (induction t and ts arbitrary: i vals and i vals rule: tree_wf_trees_wf.induct)
  case 1
  then show ?case by (simp add: pass_gives_def flat_one_def out_value_def)
next
  case (2 n)
  then show ?case using eval_leaf [of n lm eng params beat dt vals]
    by (cases "leaf_meaning eng (map_of params) beat n") (auto simp: pass_gives_def flat_one_def out_value_def)
next
  case (3 k s0 s1 ts)
  show ?case unfolding tree_eval.simps by (rule pass_op) (use 3 in auto)
next
  case 4
  then show ?case by (simp add: pass_gives_def)
next
  case (5 t ts)
  show ?case unfolding trees_eval.simps by (rule pass_trees_Cons) (use 5 in auto)
qed

lemma op_step_kind: "tree_wf (T_op k s0 s1 ts) \<Longrightarrow> length ts' = length ts \<Longrightarrow> trees_wf ts' \<Longrightarrow> tree_wf (T_op k a b ts')"
  by simp

lemma tree_eval_wf:
  shows "tree_wf t \<Longrightarrow> tree_eval lm eng params beat dt t = Some (x, t') \<Longrightarrow> tree_wf t'"
    and "trees_wf ts \<Longrightarrow> trees_eval lm eng params beat dt ts = Some (xs, ts') \<Longrightarrow>
      trees_wf ts' \<and> length ts' = length ts \<and> length xs = length ts"
  by (induction t and ts arbitrary: x t' and xs ts' rule: tree_wf_trees_wf.induct) (auto split: option.splits)

section \<open>The modulators agree\<close>

definition graph_rel :: "graph_modulator \<Rightarrow> graph_spec \<Rightarrow> bool" where
  "graph_rel s sp = (length (gs_trees sp) = 4 \<and> trees_wf (gs_trees sp) \<and>
     map_of (gr_params (gm_graph s)) = gs_params sp \<and>
     flats 0 (gs_trees sp) = (graph_outs (gm_graph s), gr_nodes (gm_graph s)))"

lemma graph_rel_new: "graph_rel (graph_new (parse_control_graph L expr params)) (spec_new L expr params)"
proof (cases "\<exists>m. expr = Edn_map m")
  case True
  then obtain m where m: "expr = Edn_map m" by blast
  let ?t = "\<lambda>kw. case ed_find_kw L m kw of Some v \<Rightarrow> tree_of v | None \<Rightarrow> T_zero"
  have "parse_out L m kw g = (case flat (length g) (?t kw) of (i, ns) \<Rightarrow> (i, g @ ns))" for kw g
    by (simp add: parse_out_def parse_flat split: option.splits)
  moreover have "tree_wf (?t kw)" for kw by (simp add: tree_of_wf split: option.splits)
  ultimately show ?thesis using m
    by (auto simp: graph_rel_def spec_new_def spec_outputs_def graph_new_def parse_control_graph_def graph_outs_def Let_def add.assoc
        split: prod.splits)
next
  case False
  obtain i ns where f: "flat 0 (tree_of expr) = (i, ns)" by fastforce
  have "parse_control_graph L expr params =
      \<lparr>gr_nodes = ns, gr_params = params, gr_out_cv = i, gr_out_aux = - 1, gr_out_gate = - 1, gr_out_gate2 = - 1\<rparr>"
    using False f parse_flat(1) [of expr "[]"] by (cases expr) (auto simp: parse_control_graph_def)
  moreover have "spec_outputs L expr = [tree_of expr, T_zero, T_zero, T_zero]" using False by (cases expr) (auto simp: spec_outputs_def)
  ultimately show ?thesis using f by (simp add: graph_rel_def spec_new_def graph_new_def graph_outs_def tree_of_wf)
qed

lemma graph_rel_update: "graph_rel s sp \<Longrightarrow> graph_update k v s = Some s' \<Longrightarrow> graph_rel s' (spec_update k v sp)"
  by (auto simp: graph_rel_def graph_update_def spec_update_def graph_outs_def update_conv')

lemma graph_rel_tick:
  assumes "graph_rel s sp"
  shows "rel_option (rel_prod (=) graph_rel) (graph_tick lm eng beat rate s) (spec_tick lm eng beat rate sp)"
proof -
  define dt where "dt = (if flt (Fin 0) rate then sdiv (Fin 1) rate else Fin 0)"
  define vals where "vals = resize (length (gr_nodes (gm_graph s))) (gm_values s)"
  have sp: "length (gs_trees sp) = 4" "trees_wf (gs_trees sp)" "map_of (gr_params (gm_graph s)) = gs_params sp"
    "flats 0 (gs_trees sp) = (graph_outs (gm_graph s), gr_nodes (gm_graph s))" using assms by (simp_all add: graph_rel_def)
  have pass: "pass_gives lm eng (gr_params (gm_graph s)) beat dt 0 vals (graph_outs (gm_graph s), gr_nodes (gm_graph s))
      (map_option (\<lambda>(xs, ts'). (xs, flats 0 ts')) (trees_eval lm eng (gs_params sp) beat dt (gs_trees sp)))"
    using pass_flat(2) [OF sp(2), of 0 vals lm eng "gr_params (gm_graph s)" beat dt] sp(3,4) by (simp add: vals_def resize_def)
  show ?thesis
  proof (cases "trees_eval lm eng (gs_params sp) beat dt (gs_trees sp)")
    case None
    then show ?thesis using pass by (simp add: pass_gives_def graph_tick_def spec_tick_def dt_def vals_def Let_def)
  next
    case (Some xts)
    then obtain xs ts where t: "trees_eval lm eng (gs_params sp) beat dt (gs_trees sp) = Some (xs, ts)" by (cases xts) auto
    obtain vals' where v: "eval_nodes lm eng (gr_params (gm_graph s)) beat dt 0 (gr_nodes (gm_graph s)) vals = Some (snd (flats 0 ts), vals')"
      "fst (flats 0 ts) = graph_outs (gm_graph s)" "map (out_value vals') (graph_outs (gm_graph s)) = xs"
      using pass t by (auto simp: pass_gives_def)
    have z: "0 \<le> i \<and> flt (Fin (1/2)) (out_value vals' i) \<longleftrightarrow> flt (Fin (1/2)) (out_value vals' i)" for i
      by (simp add: out_value_def flt_def)
    have "graph_tick lm eng beat rate s = Some (output_new\<lparr>o_cv := xs ! 0, o_aux := xs ! 1,
        o_gate := flt (Fin (1/2)) (xs ! 2), o_gate2 := flt (Fin (1/2)) (xs ! 3)\<rparr>,
        s\<lparr>gm_graph := (gm_graph s)\<lparr>gr_nodes := snd (flats 0 ts)\<rparr>, gm_values := vals'\<rparr>)"
      using v by (simp add: graph_tick_def Let_def z flip: dt_def vals_def) (auto simp: graph_outs_def numeral_2_eq_2 numeral_3_eq_3)
    moreover have "graph_rel (s\<lparr>gm_graph := (gm_graph s)\<lparr>gr_nodes := snd (flats 0 ts)\<rparr>, gm_values := vals'\<rparr>) (sp\<lparr>gs_trees := ts\<rparr>)"
      using tree_eval_wf(2) [OF sp(2) t] sp v(2) by (auto simp: graph_rel_def graph_outs_def prod_eq_iff)
    ultimately show ?thesis using t by (simp add: spec_tick_def flip: dt_def)
  qed
qed

lemma graph_run_rel: "graph_rel s sp \<Longrightarrow> graph_run lm s ops = spec_run lm sp ops"
proof (induction ops arbitrary: s sp)
  case (Cons op ops)
  show ?case
  proof (cases op)
    case (G_tick eng beat rate)
    from graph_rel_tick [OF Cons.prems, of lm eng beat rate] Cons.IH show ?thesis using G_tick
      by (cases "graph_tick lm eng beat rate s"; cases "spec_tick lm eng beat rate sp") (auto split: prod.splits)
  next
    case (G_update k v)
    then show ?thesis using Cons.IH graph_rel_update [OF Cons.prems, of k v] by (simp add: graph_update_def)
  qed
qed simp

section \<open>Properties\<close>


text \<open>The example of the header, a phasor whose rate is a parameter, ticked, retuned and ticked again.\<close>

lemma phasor_example:
  "map_option (map o_cv) (graph_run lm (graph_new (parse_control_graph L
      (Edn_vector [Edn_keyword ''saw'', Edn_vector [Edn_keyword ''phasor'', Edn_vector [Edn_keyword ''param'', Edn_keyword ''rate'']]])
      [(''rate'', Fin 1)]))
    [G_tick None (Fin 0) (Fin 4), G_tick None (Fin 0) (Fin 4), G_update ''rate'' (Fin 2), G_tick None (Fin 0) (Fin 4), G_tick None (Fin 0) (Fin 4)]) =
   Some [Fin (- 1), Fin (- 1/2), Fin 0, Fin (- 1)]"
proof -
  have "sdiv (Fin 1) (Fin 4) = Fin (1/4)" "smul (Fin 1) (Fin (1/4)) = Fin (1/4)" "smul (Fin 2) (Fin (1/4)) = Fin (1/2)"
    "sadd (Fin 0) (Fin (1/4)) = Fin (1/4)" "sadd (Fin (1/4)) (Fin (1/4)) = Fin (1/2)" "sadd (Fin (1/2)) (Fin (1/2)) = Fin 1"
    by code_simp+
  moreover have "ssub (Fin 1) (f_floor (Fin 1)) = Fin 0" "ssub (smul (Fin 0) (Fin 2)) (Fin 1) = Fin (- 1)"
    "ssub (smul (Fin (1/4)) (Fin 2)) (Fin 1) = Fin (- 1/2)" "ssub (smul (Fin (1/2)) (Fin 2)) (Fin 1) = Fin 0"
    by code_simp+
  moreover have "fle (Fin 1) (Fin 1)" "\<not> fle (Fin 1) (Fin (1/4))" "\<not> fle (Fin 1) (Fin (1/2))" "flt (Fin 0) (Fin 4)" by code_simp+
  ultimately show ?thesis unfolding graph_run_rel [OF graph_rel_new]
    by (simp add: spec_new_def spec_outputs_def leaf_node_def op_slots_def spec_tick_def spec_update_def leaf_meaning_def
        op_step_def phasor_step_def op_meaning_def arg_fun_def first_keyword_def node_new_def output_new_def)
qed

end
