(* ===== verification/Mod_Listen.thy ===== *)
theory Mod_Listen
  imports Mod_Chaos
begin

text \<open>
  The ranges of the modulators that listen to others: what they put on their control output when what
  they hear is in range. The contract \<open>bounded_listener\<close> extends that of a modulator on its own by the
  view of the engine.
\<close>

section \<open>The contract\<close>

text \<open>Every recorded control voltage lies in [-1, 1].\<close>

definition view_ok :: "engine_view \<Rightarrow> bool" where
  "view_ok eng = (\<forall>look i out. eng = Some look \<longrightarrow> look i = Some out \<longrightarrow> in_range (- 1) 1 (o_cv out))"

locale bounded_listener =
  fixes tk :: "engine_view \<Rightarrow> 's tick_fun" and up :: "'s update_fun" and invar :: "nat \<Rightarrow> 's \<Rightarrow> bool"
    and rok :: "fp \<Rightarrow> bool" and vok :: "string \<Rightarrow> fp \<Rightarrow> bool"
  assumes listen_ok: "invar (Suc n) s \<Longrightarrow> rok r \<Longrightarrow> view_ok eng \<Longrightarrow>
      \<exists>out s'. tk eng b r s = Some (out, s') \<and> invar n s' \<and> in_range (- 1) 1 (o_cv out)"
    and param_ok: "invar (Suc n) s \<Longrightarrow> vok k v \<Longrightarrow> \<exists>s'. up k v s = Some s' \<and> invar n s'"

text \<open>A modulator on its own with a range inside [-1, 1] is a listener that hears nothing.\<close>

locale unit_modulator = bounded_modulator +
  assumes lo_unit: "- 1 \<le> lo" and hi_unit: "hi \<le> 1"

sublocale unit_modulator \<subseteq> listener: bounded_listener "\<lambda>_. tk" up invar rok vok
proof unfold_locales
  fix n s r b
  assume "invar (Suc n) s" "rok r"
  from tick_ok [OF this, of b] show "\<exists>out s'. tk b r s = Some (out, s') \<and> invar n s' \<and> in_range (- 1) 1 (o_cv out)"
    using lo_unit hi_unit by (blast intro: in_range_mono)
qed (rule update_ok)

interpretation slew_unit: unit_modulator "slew_tick lm" slew_update "\<lambda>n s. exp_ok lm \<and> slew_invar s"
  "\<lambda>r. r \<noteq> NaN" "\<lambda>k v. v \<noteq> NaN" "- 1" 1 for lm
  by unfold_locales simp_all

interpretation segment_unit: unit_modulator segment_tick segment_update segment_invar "lfo_rate_ok 100" segment_key_ok 0 1
  by unfold_locales simp_all

interpretation slope_unit: unit_modulator "slope_tick lm" slope_update "\<lambda>n s. trig_ok lm \<and> pow_ok lm \<and> slope_invar s"
  "lfo_rate_ok 100" "\<lambda>k v. v \<noteq> NaN" "- 1" 1 for lm
  by unfold_locales simp_all

interpretation shift_register_unit: unit_modulator shift_register_tick shift_register_update "\<lambda>n. sr_invar"
  "\<lambda>r. True" "\<lambda>k v. v \<noteq> NaN" "- 1" 1
  by unfold_locales simp_all

interpretation stochastic_unit: unit_modulator "stochastic_tick lm" stochastic_update "\<lambda>n. st_invar" "\<lambda>r. True"
  "int_value_ok [''length'', ''steps'']" "- 1" 1 for lm
  by unfold_locales simp_all

interpretation fractal_unit: unit_modulator "fractal_tick lm" fractal_update "\<lambda>n s. trig_ok lm \<and> fr_invar s" "lfo_rate_ok 1"
  "int_value_ok [''octaves'', ''shape'']" "- 1" 1 for lm
  by unfold_locales simp_all

text \<open>The control voltage of the outputs the listeners build.\<close>

lemma o_cv_shapes:
  "o_cv (r\<lparr>o_cv := v, o_aux := a, o_gate := g, o_state := st\<rparr>) = v"
  "o_cv (r\<lparr>o_cv := v, o_aux := a, o_gate := g, o_gate2 := g2, o_state := st\<rparr>) = v"
  "o_cv (r\<lparr>o_cv := v, o_aux := a, o_gate := g, o_state := st, o_outputs := os\<rparr>) = v"
  "o_cv (r\<lparr>o_cv := v, o_aux := a, o_gate := g, o_gate2 := g2, o_state := st, o_outputs := os\<rparr>) = v"
  by simp_all

lemma read_cv_src_range:
  assumes "view_ok eng" "in_range lo hi fb" "lo \<le> - 1" "1 \<le> hi"
  shows "in_range lo hi (read_cv_src eng src fb)"
  using assms by (auto simp: read_cv_src_def source_output_def view_ok_def split: option.splits intro: in_range_mono)

section \<open>Sums of weights\<close>

lemma sadd_val:
  assumes "fin_val a = Some x" "fin_val w = Some y" "0 \<le> x + y" "x + y \<le> of_int n" "n < 2 ^ 24"
  shows "fin_val (sadd a w) = Some (rnd_val F32 (x + y))" and "0 \<le> rnd_val F32 (x + y)" and "rnd_val F32 (x + y) \<le> of_int n"
proof -
  have n: "0 \<le> n" using assms(3,4) by (metis of_int_0_le_iff order_trans)
  then have r: "fin_rep F32 (of_int n)" using assms(5) by (intro fin_rep_F32_int) simp
  show "fin_val (sadd a w) = Some (rnd_val F32 (x + y))"
  proof (cases "x + y = 0")
    case True
    then show ?thesis using assms(1,2) rnd_val_id [of F32 0] by (simp add: fadd_def)
  next
    case False
    then show ?thesis using assms(1-4) fin_val_rnd(1) [of F32 0 "of_int n" "x + y"] r by (simp add: fadd_def)
  qed
  show "0 \<le> rnd_val F32 (x + y)" "rnd_val F32 (x + y) \<le> of_int n"
    using fin_val_rnd(2,3) [of F32 0 "of_int n" "x + y"] assms(3,4) r by simp_all
qed

text \<open>Leaving weights out never makes the rounded sum larger.\<close>

lemma weigh_mono:
  assumes "list_all (in_range 0 5) ws" "length bs = length ws" "fin_val a = Some x" "fin_val a' = Some x'"
    and "0 \<le> x" "x \<le> x'" "rep F32 x'" "x' \<le> of_int n" "n + 5 * int (length ws) < 2 ^ 24"
  shows "\<exists>z z'. fin_val (weigh a ws bs) = Some z \<and> fin_val (weigh a' ws (replicate (length ws) True)) = Some z' \<and> 0 \<le> z \<and> z \<le> z'"
  using assms
proof (induction ws arbitrary: bs a a' x x' n)
  case (Cons w ws)
  then obtain b bs' where bs: "bs = b # bs'" by (cases bs) auto
  obtain y where y: "fin_val w = Some y" "0 \<le> y" "y \<le> 5" using Cons.prems(1) by auto
  have n: "x' + y \<le> of_int (n + 5)" "n + 5 < 2 ^ 24" "0 \<le> x' + y" "0 \<le> x + y" "x + y \<le> of_int (n + 5)" using Cons.prems y by auto
  note v' = sadd_val [OF Cons.prems(4) y(1) n(3,1,2)] and v = sadd_val [OF Cons.prems(3) y(1) n(4,5,2)]
  let ?x1 = "if b then rnd_val F32 (x + y) else x" let ?x1' = "rnd_val F32 (x' + y)"
  have "x' \<le> ?x1'" using Cons.prems(7) y(2) by (intro rnd_val_ge) simp_all
  moreover have "rnd_val F32 (x + y) \<le> ?x1'" using Cons.prems(6) by (intro rnd_val_mono) simp_all
  ultimately have le: "?x1 \<le> ?x1'" using Cons.prems(6) by simp
  have "\<exists>z z'. fin_val (weigh (if b then sadd a w else a) ws bs') = Some z \<and>
      fin_val (weigh (sadd a' w) ws (replicate (length ws) True)) = Some z' \<and> 0 \<le> z \<and> z \<le> z'"
    using Cons.prems v v' le bs rep_rnd_val [of F32 "x' + y"] by (intro Cons.IH [where x = ?x1 and x' = ?x1' and n = "n + 5"]) auto
  then show ?case by (simp add: bs)
qed auto

lemma weigh_ratio:
  assumes "list_all (in_range 0 5) ws" "length bs = length ws" "length ws \<le> 8" "tot = weigh (Fin 0) ws (replicate (length ws) True)" "flt (Fin 0) tot"
  shows "in_range 0 1 (sdiv (weigh (Fin 0) ws bs) tot)"
proof -
  obtain z z' where z: "fin_val (weigh (Fin 0) ws bs) = Some z" "fin_val tot = Some z'" "0 \<le> z" "z \<le> z'"
    using weigh_mono [OF assms(1,2), of "Fin 0" 0 "Fin 0" 0 0] assms(3,4) by auto
  moreover have "0 < z'" using assms(5) z(2) flt_fin [of "Fin 0" 0 tot z'] by simp
  ultimately show ?thesis by (intro ratio_range [OF z(1,2)]) simp_all
qed

section \<open>Cipher, bools ring and divine CMOS\<close>

lemma kWeights_ok: "list_all (in_range 0 5) kWeights" "kWeightSum = weigh (Fin 0) kWeights (replicate (length kWeights) True)" "flt (Fin 0) kWeightSum"
  by code_simp+

lemma kStepWeights_ok: "list_all (in_range 0 5) kStepWeights" "kStepMax = weigh (Fin 0) kStepWeights (replicate (length kStepWeights) True)" "flt (Fin 0) kStepMax"
  by code_simp+

lemma project_cv_range: "idx < 4 \<Longrightarrow> in_range 0 1 (project_cv reg idx)"
proof -
  assume "idx < 4"
  then have "length (kCVBits ! idx) = 4" by (auto simp: kCVBits_def less_Suc_eq numeral_eq_Suc)
  then show ?thesis unfolding project_cv_def using kWeights_ok by (intro weigh_ratio) (simp_all add: kWeights_def)
qed

lemma step_norm_range: "in_range 0 1 (step_norm bits)"
  unfolding step_norm_def using kStepWeights_ok by (intro weigh_ratio) (simp_all add: kStepWeights_def)

interpretation cipher: bounded_listener cipher_tick cipher_update "\<lambda>n s. True" "\<lambda>r. True" "\<lambda>k v. True"
proof unfold_locales
  fix s r eng b
  have cv: "in_range (- 1) 1 (project_cv reg 0)" for reg by (rule in_range_mono [OF project_cv_range]) simp_all
  show "\<exists>out s'. cipher_tick eng b r s = Some (out, s') \<and> True \<and> in_range (- 1) 1 (o_cv out)"
    unfolding cipher_tick_def Let_def by (intro exI conjI, rule refl) (simp_all only: o_cv_shapes cv)
qed (simp add: cipher_update_def)

interpretation bools: bounded_listener "bools_tick lm" bools_update "\<lambda>n s. True" "\<lambda>r. True" "\<lambda>k v. True" for lm
proof unfold_locales
  fix s r eng b
  have cv: "in_range (- 1) 1 (step_norm bits)" for bits by (rule in_range_mono [OF step_norm_range]) simp_all
  show "\<exists>out s'. bools_tick lm eng b r s = Some (out, s') \<and> True \<and> in_range (- 1) 1 (o_cv out)"
    unfolding bools_tick_def Let_def by (intro exI conjI, rule refl) (simp_all only: o_cv_shapes cv)
qed (simp add: bools_update_def)

definition dc_invar :: "divine_cmos_modulator \<Rightarrow> bool" where
  "dc_invar s = (length (dc_gains s) = 4 \<and> list_all (in_range 0 5) (dc_gains s))"

lemma dc_sums_weigh:
  assumes "length gains = 4"
  shows "dc_sums gains bits = (weigh (Fin 0) gains (replicate 4 True), weigh (Fin 0) gains (map (bit bits) [0..<4]))"
proof -
  obtain g0 g1 g2 g3 where "gains = [g0, g1, g2, g3]" using assms by (auto simp: numeral_eq_Suc length_Suc_conv)
  then show ?thesis by (simp add: dc_sums_def numeral_eq_Suc)
qed

lemma divine_main_range:
  assumes "dc_invar s"
  shows "in_range (- 1) 1 (if flt (Fin 0) (fst (dc_sums (dc_gains s) bits))
    then sdiv (snd (dc_sums (dc_gains s) bits)) (fst (dc_sums (dc_gains s) bits)) else Fin 0)"
proof (cases "flt (Fin 0) (fst (dc_sums (dc_gains s) bits))")
  case True
  have l: "length (dc_gains s) = 4" "list_all (in_range 0 5) (dc_gains s)" using assms by (simp_all add: dc_invar_def)
  have "in_range 0 1 (sdiv (snd (dc_sums (dc_gains s) bits)) (fst (dc_sums (dc_gains s) bits)))"
    using True unfolding dc_sums_weigh [OF l(1)] fst_conv snd_conv by (intro weigh_ratio) (simp_all add: l)
  with True show ?thesis by (auto intro: in_range_mono)
qed simp

lemma clampf_0_5: "v \<noteq> NaN \<Longrightarrow> in_range 0 5 (clampf 0 5 v)"
  by (rule clampf_range) (simp_all add: fin_val_lit)

interpretation divine: bounded_listener "divine_tick lm" divine_update "\<lambda>n. dc_invar" "\<lambda>r. True" "\<lambda>k v. v \<noteq> NaN" for lm
proof unfold_locales
  fix s r eng b
  assume s: "dc_invar s"
  show "\<exists>out s'. divine_tick lm eng b r s = Some (out, s') \<and> dc_invar s' \<and> in_range (- 1) 1 (o_cv out)"
    unfolding divine_tick_def Let_def case_prod_beta
    by (intro exI conjI, rule refl)
      (use s in \<open>simp add: dc_invar_def\<close>, simp only: o_cv_shapes divine_main_range [OF s])
next
  fix s k v
  assume "dc_invar s" "v \<noteq> NaN"
  then show "\<exists>s'. divine_update k v s = Some s' \<and> dc_invar s'"
    by (simp add: divine_update_def dc_invar_def list_all_update clampf_0_5)
qed

section \<open>Decoder and statues\<close>

text \<open>A velocity that is no number saturates: \<open>std::min\<close> returns its first argument.\<close>

definition nn :: "fp \<Rightarrow> bool" where
  "nn x = (x = NaN \<or> nonneg x)"

lemma nn_f_abs: "nn (f_abs x)"
  by (cases x) (auto simp: nn_def nonneg_def)

lemma nn_half: "nn (Fin (1/2))"
  unfolding nn_def nonneg_def by (rule disjI2, rule disjI2, rule exI [of _ "1/2"]) simp

lemma nn_smul: "nn a \<Longrightarrow> nn b \<Longrightarrow> nn (smul a b)"
proof -
  assume a: "nn a" and b: "nn b"
  consider "a = NaN \<or> b = NaN" | "a = PInf" "b = PInf" | y where "0 \<le> y" "a = PInf" "b = Fin y" | x where "0 \<le> x" "a = Fin x" "b = PInf"
    | x y where "0 \<le> x" "0 \<le> y" "a = Fin x" "b = Fin y" using a b by (auto simp: nn_def nonneg_def)
  then show ?thesis
  proof cases
    case 1
    then show ?thesis by (cases a; cases b) (auto simp: nn_def fmul_def Let_def)
  next
    case (5 x y)
    then have "smul a b = rnd F32 False (x * y)" by (simp add: fmul_def)
    then show ?thesis using rnd_nonneg [of "x * y"] 5(1,2) by (simp add: nn_def)
  qed (auto simp: nn_def nonneg_def fmul_def f_inf_def)
qed

lemma fmin_one_range: "nn x \<Longrightarrow> in_range 0 1 (fmin (Fin 1) x)"
  by (auto simp: nn_def nonneg_def fmin_def flt_fin flt_def)

interpretation decoder: bounded_listener decoder_tick decoder_update "\<lambda>n s. True" "\<lambda>r. True" "\<lambda>k v. True"
proof unfold_locales
  fix s r eng b
  have that: "nn r" if "flt (Fin 0) r" using that by (cases r) (auto simp: nn_def nonneg_def flt_def)
  have cv: "in_range (- 1) 1 (if c \<and> flt (Fin 0) r then fmin (Fin 1) (smul (smul (f_abs d) r) (Fin (1/2))) else Fin 0)" for c d
  proof (cases "c \<and> flt (Fin 0) r")
    case True
    then have "nn r" using that by blast
    then have "nn (smul (smul (f_abs d) r) (Fin (1/2)))" by (intro nn_smul nn_f_abs nn_half)
    from in_range_mono [OF fmin_one_range [OF this], of "- 1" 1] True show ?thesis by simp
  qed auto
  show "\<exists>out s'. decoder_tick eng b r s = Some (out, s') \<and> True \<and> in_range (- 1) 1 (o_cv out)"
    unfolding decoder_tick_def Let_def by (intro exI conjI, rule refl) (simp_all only: o_cv_shapes cv)
qed (simp add: decoder_update_def)

definition su_invar :: "statues_modulator \<Rightarrow> bool" where
  "su_invar s = (length (su_slots s) = 8 \<and> in_range (- 1) 1 (su_in s))"

lemma statues_addr_range: "nat (statues_addr eng s) < 8"
  by (simp add: statues_addr_def Let_def)

text \<open>Parameters of magnitude at most a million.\<close>

definition value_ok :: "fp \<Rightarrow> bool" where
  "value_ok v = in_range (- 1000000) 1000000 v"

lemma value_ok_int: "value_ok v \<Longrightarrow> to_int32 (f_round v) \<noteq> None"
  using in_range_round [of "- 1000000" 1000000 v] to_int_range [of "- 1000000" 1000000 "f_round v" "- (2 ^ 31)" "2 ^ 31 - 1"]
  by (auto simp: value_ok_def)

lemma value_ok_num: "value_ok v \<Longrightarrow> v \<noteq> NaN"
  by (auto simp: value_ok_def in_range_not_NaN)

interpretation statues: bounded_listener statues_tick statues_update "\<lambda>n. su_invar" "\<lambda>r. True" "\<lambda>k. value_ok"
proof unfold_locales
  fix s r eng b
  assume s: "su_invar s" and v: "view_ok eng"
  have "in_range (- 1) 1 (read_cv_src eng (su_in_source_id s) (su_in s))" using s v by (intro read_cv_src_range) (simp_all add: su_invar_def)
  then show "\<exists>out s'. statues_tick eng b r s = Some (out, s') \<and> su_invar s' \<and> in_range (- 1) 1 (o_cv out)"
    using s statues_addr_range [of eng s] by (simp add: statues_tick_def Let_def su_invar_def)
next
  fix s k v
  assume s: "su_invar s" and v: "value_ok v"
  obtain i where "clampi 0 7 v = Some i" using clampi_ok [OF value_ok_int [OF v], of 0 7] by auto
  then show "\<exists>s'. statues_update k v s = Some s' \<and> su_invar s'"
    using s value_ok_num [OF v] by (simp add: statues_update_def su_invar_def)
qed

section \<open>Squid axon\<close>

definition sq_invar :: "squid_axon_modulator \<Rightarrow> bool" where
  "sq_invar s = (length (sq_stages s) = 4 \<and> list_all (in_range 0 1) (sq_stages s) \<and> in_range 0 4 (sq_nl_fb s) \<and> in_range 0 1 (sq_lin_fb s) \<and>
     value_ok (sq_in1 s) \<and> value_ok (sq_in2 s) \<and> value_ok (sq_in3 s))"

lemma lit_07: "in_range (- 1) 0 (lit F32 (- 7/10))"
  by code_simp

lemma nl_feedback_range:
  assumes "in_range 0 4 nl" "in_range 0 1 out4"
  shows "in_range (- 1) 0 (nl_feedback nl out4)"
proof -
  have q: "in_range 0 1 (sdiv nl (Fin 4))" by (rule in_range_fdiv [OF _ _ _ assms(1), where c = 4 and d = 4]) (auto simp: divide_le_eq)
  have "in_range 0 1 (ssub (Fin 1) (sdiv nl (Fin 4)))" by (rule in_range_fsub [OF _ _ _ _ q, where a = 1 and b = 1]) auto
  then have t: "in_range 0 1 (fmax (Fin 0) (ssub (Fin 1) (sdiv nl (Fin 4))))"
    using fmax_range [of 0 0 "Fin 0" 0 1] by simp
  define ex where "ex = ssub out4 (fmax (Fin 0) (ssub (Fin 1) (sdiv nl (Fin 4))))"
  have ex: "in_range (- 1) 1 ex" unfolding ex_def by (rule in_range_fsub [OF _ _ _ assms(2) t]) auto
  have "in_range (- 1) 0 (smul (smul (lit F32 (- 7/10)) ex) ex)" if "\<not> fle ex (Fin 0)"
  proof -
    obtain x where x: "fin_val ex = Some x" "x \<le> 1" using ex by auto
    then have "0 \<le> x" using that fle_fin [OF x(1), of "Fin 0" 0] by simp
    with x have u: "in_range 0 1 ex" by (simp add: in_range_def)
    have "in_range (- 1) 0 (smul (lit F32 (- 7/10)) ex)" by (rule in_range_fmul_unit [OF _ _ _ _ _ lit_07 u]) auto
    from in_range_fmul_unit [OF _ _ _ _ _ this u] show ?thesis by simp
  qed
  then show ?thesis by (auto simp: nl_feedback_def Let_def ex_def)
qed

lemma squid_mix_range:
  assumes "sq_invar s" "view_ok eng"
  shows "in_range 0 1 (squid_mix eng s)"
proof -
  have st: "in_range 0 1 (sq_stages s ! 3)" using assms(1) by (simp add: sq_invar_def list_all_length)
  have rd: "in_range (- 1000000) 1000000 (read_cv_src eng src v)" if "value_ok v" for src v
    using that assms(2) by (intro read_cv_src_range) (simp_all add: value_ok_def)
  define i3 where "i3 = (if \<not> sq_in3_patched s \<and> sq_in3_src s = [] then sq_stages s ! 3 else read_cv_src eng (sq_in3_src s) (sq_in3 s))"
  have i3: "in_range (- 1000000) 1000000 i3" unfolding i3_def using rd [of "sq_in3 s"] assms(1) in_range_mono [OF st] by (auto simp: sq_invar_def)
  have nl: "in_range (- 1) 0 (nl_feedback (sq_nl_fb s) (sq_stages s ! 3))" using assms(1) st by (intro nl_feedback_range) (simp_all add: sq_invar_def)
  have lin: "in_range 0 1 (smul (sq_lin_fb s) (sq_stages s ! 3))" using assms(1) st by (intro depth_range_unit) (simp_all add: sq_invar_def)
  have "in_range (- 2000000) 2000000 (sadd (read_cv_src eng (sq_in1_src s) (sq_in1 s)) (read_cv_src eng (sq_in2_src s) (sq_in2 s)))"
    using assms(1) by (intro in_range_fadd [OF _ _ _ rd rd]) (simp_all add: sq_invar_def)
  from in_range_fadd [OF _ _ _ this i3, of F32 "- 3000000" 3000000]
  have "in_range (- 3000000) 3000000 (sadd (sadd (read_cv_src eng (sq_in1_src s) (sq_in1 s)) (read_cv_src eng (sq_in2_src s) (sq_in2 s))) i3)" by simp
  from in_range_fadd [OF _ _ _ in_range_fadd [OF _ _ _ this nl, of F32 "- 3000001" 3000000] lin, of F32 "- 3000001" 3000001]
  have "in_range (- 3000001) 3000001 (sadd (sadd (sadd (sadd (read_cv_src eng (sq_in1_src s) (sq_in1 s)) (read_cv_src eng (sq_in2_src s) (sq_in2 s))) i3)
      (nl_feedback (sq_nl_fb s) (sq_stages s ! 3))) (smul (sq_lin_fb s) (sq_stages s ! 3)))" by simp
  from clampf_unit [OF in_range_not_NaN [OF this]] show ?thesis by (simp add: squid_mix_def Let_def i3_def)
qed

lemma squid_step_invar:
  assumes "sq_invar s" "view_ok eng"
  shows "sq_invar (s\<lparr>sq_stages := squid_shift (squid_mix eng s) (sq_stages s), sq_counter := c\<rparr>)"
proof -
  have "in_range 0 1 (sq_stages s ! i)" if "i < 4" for i using assms(1) that by (simp add: sq_invar_def list_all_length)
  then show ?thesis using assms(1) squid_mix_range [OF assms] by (simp add: sq_invar_def squid_shift_def)
qed

lemma sq_invar_clock [simp]: "sq_invar (s\<lparr>sq_clock_prev := c, sq_clock_pending := p\<rparr>) = sq_invar s"
  by (simp add: sq_invar_def)

lemma clampf_0_4: "v \<noteq> NaN \<Longrightarrow> in_range 0 4 (clampf 0 4 v)"
  by (rule clampf_range) (simp_all add: fin_val_lit)

interpretation squid: bounded_listener squid_tick squid_update "\<lambda>n. sq_invar" "\<lambda>r. True" "\<lambda>k. value_ok"
proof unfold_locales
  fix s r eng b
  assume s: "sq_invar s" and v: "view_ok eng"
  define s1 where "s1 = s\<lparr>sq_clock_prev := read_gate_src eng (sq_clock_src s), sq_clock_pending := False\<rparr>"
  define s2 where "s2 = (if read_gate_src eng (sq_clock_src s) \<and> \<not> sq_clock_prev s \<or> sq_clock_pending s
    then s1\<lparr>sq_stages := squid_shift (squid_mix eng s1) (sq_stages s1), sq_counter := (sq_counter s1 + 1) mod 4\<rparr> else s1)"
  have "sq_invar s1" using s by (simp add: s1_def)
  then have s2: "sq_invar s2" unfolding s2_def using squid_step_invar [OF _ v] by simp
  then have "in_range 0 1 (sq_stages s2 ! 0)" by (simp add: sq_invar_def list_all_length)
  then have "in_range (- 1) 1 (sq_stages s2 ! 0)" by (rule in_range_mono) simp_all
  moreover have "\<exists>out. squid_tick eng b r s = Some (out, s2) \<and> o_cv out = sq_stages s2 ! 0"
    unfolding squid_tick_def Let_def s1_def [symmetric] s2_def [symmetric] by (intro exI conjI, rule refl) (simp only: o_cv_shapes)
  ultimately show "\<exists>out s'. squid_tick eng b r s = Some (out, s') \<and> sq_invar s' \<and> in_range (- 1) 1 (o_cv out)" using s2 by fastforce
next
  fix s k v
  assume "sq_invar s" "value_ok v"
  then show "\<exists>s'. squid_update k v s = Some s' \<and> sq_invar s'"
    using value_ok_num [of v] clampf_0_4 [of v] by (simp add: squid_update_def sq_invar_def)
qed

section \<open>Genie\<close>

definition ge_invar :: "genie_modulator \<Rightarrow> bool" where
  "ge_invar s = (2 \<le> ge_n s \<and> ge_n s \<le> 8 \<and> length (ge_sense s) = 8 \<and> length (ge_response s) = 8 \<and> length (ge_gain s) = 8 \<and>
     length (ge_ext_in s) = 8 \<and> length (ge_state s) = 8 \<and> list_all (in_range 0 5) (ge_sense s) \<and> list_all (in_range 1 10) (ge_response s) \<and>
     list_all (in_range 0 1) (ge_gain s) \<and> list_all value_ok (ge_ext_in s) \<and> list_all (in_range (- 20) 20) (ge_state s))"

lemma neuron_range:
  assumes "in_range (- 1000000) 1000000 x" "in_range 0 5 sense" "in_range 1 10 response"
  shows "in_range (- 20) 20 (neuron x sense response)"
proof -
  have "in_range (- 1000000) 1000005 (sadd x sense)" by (rule in_range_fadd [OF _ _ _ assms(1,2)]) simp_all
  then have "in_range 0 10 (clampf 0 10 (sadd x sense))" by (intro clampf_range) (auto simp: fin_val_lit in_range_not_NaN)
  moreover have "in_range (- 10) 10 (if fle (Fin 0) (sadd x sense) then response else fneg response)"
    using assms(3) in_range_fneg [OF assms(3)] by (auto intro: in_range_mono)
  ultimately show ?thesis unfolding neuron_def Let_def by (rule in_range_fsub [rotated 3]) simp_all
qed

lemma neuron_norm_range:
  assumes "in_range 1 10 response" "in_range (- 20) 20 raw"
  shows "in_range 0 1 (neuron_norm response raw)"
proof -
  have lo: "in_range (- 10) (- 1) (fneg response)" using in_range_fneg [OF assms(1)] by simp
  have "in_range 0 9 (ssub (Fin 10) response)" by (rule in_range_fsub [OF _ _ _ _ assms(1), where a = 10 and b = 10]) simp_all
  from fmax_range [OF assms(1) this] have hi: "in_range 1 10 (fmax response (ssub (Fin 10) response))" by simp
  have num: "in_range (- 19) 30 (ssub raw (fneg response))" by (rule in_range_fsub [OF _ _ _ assms(2) lo]) simp_all
  have den: "in_range 2 20 (ssub (fmax response (ssub (Fin 10) response)) (fneg response))" by (rule in_range_fsub [OF _ _ _ hi lo]) simp_all
  have "in_range (- 19) 30 (sdiv (ssub raw (fneg response)) (ssub (fmax response (ssub (Fin 10) response)) (fneg response)))"
    by (rule in_range_fdiv [OF _ _ _ num den]) (simp_all add: divide_le_eq le_divide_eq)
  then show ?thesis by (auto simp: neuron_norm_def Let_def in_range_not_NaN)
qed

lemma ge_invar_nth:
  assumes "ge_invar s" "i < 8"
  shows "in_range 0 5 (ge_sense s ! i)" "in_range 1 10 (ge_response s ! i)" "in_range 0 1 (ge_gain s ! i)" "value_ok (ge_ext_in s ! i)"
    "in_range (- 20) 20 (ge_state s ! i)"
  using assms by (simp_all add: ge_invar_def list_all_length)

lemma genie_input_range:
  assumes "ge_invar s" "view_ok eng" "i < 8"
  shows "in_range (- 1000000) 1000000 (genie_input eng s i)"
proof -
  have l: "(i + ge_n s - 1) mod ge_n s < ge_n s" "ge_n s \<le> 8" using assms(1) by (simp_all add: ge_invar_def)
  have m: "- 20 \<le> x * y \<and> x * y \<le> 20" if "0 \<le> x" "x \<le> 1" "- 20 \<le> y" "y \<le> 20" for x y :: rat
    using mult_unit_range [of "- 20" y 20 x] that by (simp add: mult.commute)
  have "in_range (- 20) 20 (ge_state s ! ((i + ge_n s - 1) mod ge_n s))" using l ge_invar_nth(5) [OF assms(1)] by simp
  moreover note ge_invar_nth(3) [OF assms(1,3)]
  ultimately have "in_range (- 20) 20 (smul (ge_gain s ! i) (ge_state s ! ((i + ge_n s - 1) mod ge_n s)))"
    using m by (intro in_range_fmul [where a = 0 and b = 1 and c = "- 20" and d = 20]) auto
  then have "in_range (- 1000000) 1000000 (smul (ge_gain s ! i) (ge_state s ! ((i + ge_n s - 1) mod ge_n s)))" by (rule in_range_mono) simp_all
  moreover have "in_range (- 1000000) 1000000 (read_cv_src eng (ge_in_src s ! i) (ge_ext_in s ! i))"
    using ge_invar_nth(4) [OF assms(1,3)] assms(2) by (intro read_cv_src_range) (simp_all add: value_ok_def)
  ultimately show ?thesis by (simp add: genie_input_def)
qed

lemma genie_state_range:
  assumes "ge_invar s" "view_ok eng"
  defines "st \<equiv> map (\<lambda>i. neuron (genie_input eng s i) (ge_sense s ! i) (ge_response s ! i)) [0..<ge_n s] @ drop (ge_n s) (ge_state s)"
  shows "length st = 8" "list_all (in_range (- 20) 20) st"
proof -
  have n: "ge_n s \<le> 8" "length (ge_state s) = 8" using assms(1) by (simp_all add: ge_invar_def)
  show "length st = 8" using n by (simp add: st_def)
  have "in_range (- 20) 20 (neuron (genie_input eng s i) (ge_sense s ! i) (ge_response s ! i))" if "i < ge_n s" for i
    using that n genie_input_range [OF assms(1,2)] ge_invar_nth(1,2) [OF assms(1)] by (intro neuron_range) simp_all
  moreover have "list_all (in_range (- 20) 20) (drop (ge_n s) (ge_state s))" using assms(1) by (auto simp: ge_invar_def list_all_iff dest: in_set_dropD)
  ultimately show "list_all (in_range (- 20) 20) st" by (auto simp: st_def list_all_iff)
qed

lemma clampf_1_10: "v \<noteq> NaN \<Longrightarrow> in_range 1 10 (clampf 1 10 v)"
  by (rule clampf_range) (simp_all add: fin_val_lit)

interpretation genie: bounded_listener genie_tick genie_update "\<lambda>n. ge_invar" "\<lambda>r. True" "\<lambda>k. value_ok"
proof unfold_locales
  fix s r eng b
  assume s: "ge_invar s" and v: "view_ok eng"
  define st where "st = map (\<lambda>i. neuron (genie_input eng s i) (ge_sense s ! i) (ge_response s ! i)) [0..<ge_n s] @ drop (ge_n s) (ge_state s)"
  note st = genie_state_range [OF s v, folded st_def]
  have "in_range (- 20) 20 (st ! 0)" using st by (simp add: list_all_length)
  from in_range_mono [OF neuron_norm_range [OF ge_invar_nth(2) [OF s] this], of 0 "- 1" 1]
  have "in_range (- 1) 1 (neuron_norm (ge_response s ! 0) (st ! 0))" by simp
  moreover have "ge_invar (s\<lparr>ge_state := st\<rparr>)" using s st by (simp add: ge_invar_def)
  moreover have "\<exists>out. genie_tick eng b r s = Some (out, s\<lparr>ge_state := st\<rparr>) \<and> o_cv out = neuron_norm (ge_response s ! 0) (st ! 0)"
    unfolding genie_tick_def Let_def st_def [symmetric] by (intro exI conjI, rule refl) (simp only: o_cv_shapes)
  ultimately show "\<exists>out s'. genie_tick eng b r s = Some (out, s') \<and> ge_invar s' \<and> in_range (- 1) 1 (o_cv out)" by fastforce
next
  fix s k v
  assume "ge_invar s" "value_ok v"
  then show "\<exists>s'. genie_update k v s = Some s' \<and> ge_invar s'"
    using value_ok_num [of v] clampf_0_5 [of v] clampf_1_10 [of v] clampf_unit [of v]
    by (auto simp: genie_update_def ge_invar_def list_all_update split: option.splits)
qed

section \<open>The freshly constructed listeners\<close>

lemma listeners_new_invar:
  "dc_invar (divine_new c1 c2)" "su_invar (statues_new is as)" "sq_invar (squid_new c i1 i2 i3)" "ge_invar (genie_new n srcs)"
proof -
  have "in_range 0 1 (lit F32 (6/10))" by code_simp
  then show "ge_invar (genie_new n srcs)" by (auto simp: ge_invar_def genie_new_def kMaxN_def value_ok_def list_all_iff)
qed (simp_all add: dc_invar_def divine_new_def su_invar_def statues_new_def sq_invar_def squid_new_def value_ok_def list_all_iff)

end
