(* ===== verification/Engine_Range.thy ===== *)
theory Engine_Range
  imports Mod_Listen Engine
begin

text \<open>
  The engine as a whole: ticks, parameter updates, starts and stops in any order. When its modulators
  are of the kinds whose range is known, nothing is undefined and every control voltage it reports is
  in [-1, 1]. Control graphs and registered types compute what their authors want, the splosh matrix
  adds its inputs, and the sloth circuits are integrated by Euler steps: these have no such range.
\<close>

section \<open>Every bounded kind of modulator\<close>

definition libm_ok :: "libm \<Rightarrow> bool" where
  "libm_ok lm = (exp_ok lm \<and> trig_ok lm \<and> pow_ok lm)"

fun mod_invar :: "nat \<Rightarrow> 'e modulator \<Rightarrow> bool" where
  "mod_invar n (M_slope s) = slope_invar s"
| "mod_invar n (M_segment s) = segment_invar n s"
| "mod_invar n (M_slew s) = slew_invar s"
| "mod_invar n (M_shift_register s) = sr_invar s"
| "mod_invar n (M_fractal s) = fr_invar s"
| "mod_invar n (M_stochastic s) = st_invar s"
| "mod_invar n (M_decoder s) = True"
| "mod_invar n (M_divine s) = dc_invar s"
| "mod_invar n (M_statues s) = su_invar s"
| "mod_invar n (M_cipher s) = True"
| "mod_invar n (M_bools s) = True"
| "mod_invar n (M_squid s) = sq_invar s"
| "mod_invar n (M_genie s) = ge_invar s"
| "mod_invar n _ = False"

definition param_value_ok :: "string \<Rightarrow> fp \<Rightarrow> bool" where
  "param_value_ok k v = (value_ok v \<and> segment_key_ok k v)"

lemma lfo_rate_100: "lfo_rate_ok 100 r \<Longrightarrow> lfo_rate_ok 1 r \<and> r \<noteq> NaN"
  by (auto simp: lfo_rate_ok_def intro: in_range_mono)

lemma int_value_of: "value_ok v \<Longrightarrow> int_value_ok ks k v"
  using value_ok_int value_ok_num by (simp add: int_value_ok_def)

text \<open>Wrapping a tick or an update in the constructor of its kind.\<close>

context bounded_listener
begin

lemma wrapped_tick:
  "invar (Suc n) s \<Longrightarrow> rok r \<Longrightarrow> view_ok eng \<Longrightarrow> (\<And>s'. invar n s' \<Longrightarrow> mod_invar n (c s')) \<Longrightarrow>
   \<exists>out m'. re_wrap c (tk eng b r s) = Some (out, m') \<and> mod_invar n m' \<and> in_range (- 1) 1 (o_cv out)"
  using listen_ok [of n s r eng b] by (auto simp: re_wrap_def)

lemma wrapped_update:
  "invar (Suc n) s \<Longrightarrow> vok k v \<Longrightarrow> (\<And>s'. invar n s' \<Longrightarrow> mod_invar n (c s')) \<Longrightarrow>
   \<exists>m'. map_option c (up k v s) = Some m' \<and> mod_invar n m'"
  using param_ok [of n s k v] by auto

end

lemma mod_tick_ok:
  assumes "libm_ok (me_libm E)" "mod_invar (Suc n) m" "lfo_rate_ok 100 r" "view_ok eng"
  shows "\<exists>out m'. mod_tick E eng b r m = Some (out, m') \<and> mod_invar n m' \<and> in_range (- 1) 1 (o_cv out)"
proof -
  note facts = assms lfo_rate_100 [OF assms(3)] libm_ok_def
  show ?thesis
  proof (cases m)
    case (M_slope s)
    then show ?thesis using slope_unit.listener.wrapped_tick [where lm = "me_libm E" and s = s and n = n and r = r and b = b and eng = eng and c = M_slope] facts by simp
  next
    case (M_segment s)
    then show ?thesis using segment_unit.listener.wrapped_tick [where s = s and n = n and r = r and b = b and eng = eng and c = M_segment] facts by simp
  next
    case (M_slew s)
    then show ?thesis using slew_unit.listener.wrapped_tick [where lm = "me_libm E" and s = s and n = n and r = r and b = b and eng = eng and c = M_slew] facts by simp
  next
    case (M_shift_register s)
    then show ?thesis using shift_register_unit.listener.wrapped_tick [where s = s and n = n and r = r and b = b and eng = eng and c = M_shift_register] facts by simp
  next
    case (M_fractal s)
    then show ?thesis using fractal_unit.listener.wrapped_tick [where lm = "me_libm E" and s = s and n = n and r = r and b = b and eng = eng and c = M_fractal] facts by simp
  next
    case (M_stochastic s)
    then show ?thesis using stochastic_unit.listener.wrapped_tick [where lm = "me_libm E" and s = s and n = n and r = r and b = b and eng = eng and c = M_stochastic] facts by simp
  next
    case (M_decoder s)
    then show ?thesis using decoder.wrapped_tick [where s = s and n = n and r = r and b = b and eng = eng and c = M_decoder] facts by simp
  next
    case (M_divine s)
    then show ?thesis using divine.wrapped_tick [where lm = "me_libm E" and s = s and n = n and r = r and b = b and eng = eng and c = M_divine] facts by simp
  next
    case (M_statues s)
    then show ?thesis using statues.wrapped_tick [where s = s and n = n and r = r and b = b and eng = eng and c = M_statues] facts by simp
  next
    case (M_cipher s)
    then show ?thesis using cipher.wrapped_tick [where s = s and n = n and r = r and b = b and eng = eng and c = M_cipher] facts by simp
  next
    case (M_bools s)
    then show ?thesis using bools.wrapped_tick [where lm = "me_libm E" and s = s and n = n and r = r and b = b and eng = eng and c = M_bools] facts by simp
  next
    case (M_squid s)
    then show ?thesis using squid.wrapped_tick [where s = s and n = n and r = r and b = b and eng = eng and c = M_squid] facts by simp
  next
    case (M_genie s)
    then show ?thesis using genie.wrapped_tick [where s = s and n = n and r = r and b = b and eng = eng and c = M_genie] facts by simp
  qed (use assms in auto)
qed

lemma mod_update_ok:
  assumes "libm_ok (me_libm E)" "mod_invar (Suc n) m" "param_value_ok k v"
  shows "\<exists>m'. mod_update E k v m = Some m' \<and> mod_invar n m'"
proof -
  have v: "value_ok v" "segment_key_ok k v" "v \<noteq> NaN" "\<And>ks. int_value_ok ks k v"
    using assms(3) value_ok_num int_value_of by (auto simp: param_value_ok_def)
  note facts = assms v libm_ok_def
  show ?thesis
  proof (cases m)
    case (M_slope s)
    then show ?thesis using slope_unit.listener.wrapped_update [where lm = "me_libm E" and s = s and n = n and k = k and v = v and c = M_slope] facts by simp
  next
    case (M_segment s)
    then show ?thesis using segment_unit.listener.wrapped_update [where s = s and n = n and k = k and v = v and c = M_segment] facts by simp
  next
    case (M_slew s)
    then show ?thesis using slew_unit.listener.wrapped_update [where lm = "me_libm E" and s = s and n = n and k = k and v = v and c = M_slew] facts by simp
  next
    case (M_shift_register s)
    then show ?thesis using shift_register_unit.listener.wrapped_update [where s = s and n = n and k = k and v = v and c = M_shift_register] facts by simp
  next
    case (M_fractal s)
    then show ?thesis using fractal_unit.listener.wrapped_update [where lm = "me_libm E" and s = s and n = n and k = k and v = v and c = M_fractal] facts by simp
  next
    case (M_stochastic s)
    then show ?thesis using stochastic_unit.listener.wrapped_update [where s = s and n = n and k = k and v = v and c = M_stochastic] facts by simp
  next
    case (M_decoder s)
    then show ?thesis using decoder.wrapped_update [where s = s and n = n and k = k and v = v and c = M_decoder] facts by simp
  next
    case (M_divine s)
    then show ?thesis using divine.wrapped_update [where s = s and n = n and k = k and v = v and c = M_divine] facts by simp
  next
    case (M_statues s)
    then show ?thesis using statues.wrapped_update [where s = s and n = n and k = k and v = v and c = M_statues] facts by simp
  next
    case (M_cipher s)
    then show ?thesis using cipher.wrapped_update [where s = s and n = n and k = k and v = v and c = M_cipher] facts by simp
  next
    case (M_bools s)
    then show ?thesis using bools.wrapped_update [where s = s and n = n and k = k and v = v and c = M_bools] facts by simp
  next
    case (M_squid s)
    then show ?thesis using squid.wrapped_update [where s = s and n = n and k = k and v = v and c = M_squid] facts by simp
  next
    case (M_genie s)
    then show ?thesis using genie.wrapped_update [where s = s and n = n and k = k and v = v and c = M_genie] facts by simp
  qed (use assms in auto)
qed

interpretation engine_mod: bounded_listener "mod_tick E" "mod_update E" "\<lambda>n m. libm_ok (me_libm E) \<and> mod_invar n m" "lfo_rate_ok 100" param_value_ok for E
  using mod_tick_ok [of E] mod_update_ok [of E] by unfold_locales blast+

text \<open>What holds for more remaining steps holds for fewer.\<close>

lemma mod_invar_mono: "mod_invar n m \<Longrightarrow> k \<le> n \<Longrightarrow> mod_invar k m"
  by (cases m) (auto simp: segment_invar_def)

section \<open>A tick of the whole table\<close>

lemma spec_tick_ok:
  assumes "libm_ok (me_libm E)" "lfo_rate_ok 100 r"
    and "list_all (\<lambda>(i, m). mod_invar (Suc n) m) ms" "view_ok (Some seen)"
  shows "\<exists>outs ms'. spec_tick E b r ms seen = Some (outs, ms') \<and> list_all (\<lambda>(i, m). mod_invar n m) ms' \<and>
    list_all (\<lambda>(i, out). in_range (- 1) 1 (o_cv out)) outs"
  using assms(3,4)
proof (induction ms arbitrary: seen)
  case (Cons im ms)
  obtain i m where im: "im = (i, m)" by fastforce
  obtain out m' where t: "mod_tick E (Some seen) b r m = Some (out, m')" "mod_invar n m'" "in_range (- 1) 1 (o_cv out)"
    using mod_tick_ok [OF assms(1) _ assms(2) Cons.prems(2), of n m b] Cons.prems(1) im by auto
  have "view_ok (Some (seen(i \<mapsto> out)))" using Cons.prems(2) t(3) by (auto simp: view_ok_def)
  moreover have "list_all (\<lambda>(i, m). mod_invar (Suc n) m) ms" using Cons.prems(1) by simp
  ultimately obtain outs ms' where "spec_tick E b r ms (seen(i \<mapsto> out)) = Some (outs, ms')" "list_all (\<lambda>(i, m). mod_invar n m) ms'"
    "list_all (\<lambda>(i, out). in_range (- 1) 1 (o_cv out)) outs" using Cons.IH by blast
  then show ?case using im t by simp
qed simp

section \<open>Any sequence of commands\<close>

text \<open>The engine fit for n further commands: a well-formed table of modulators in their invariants, and
  recorded outputs in range.\<close>

definition engine_ok :: "nat \<Rightarrow> 'e modulator_engine \<Rightarrow> bool" where
  "engine_ok n e = (engine_wf e \<and> list_all (\<lambda>(i, m). mod_invar n m) (active e) \<and> view_ok (Some (en_last_outputs e)))"

datatype 'e engine_command =
    Tick_at fp fp
  | Set_param string string fp
  | Start_mod string "'e modulator"
  | Stop_mod string

fun engine_do :: "'e mod_env \<Rightarrow> 'e engine_command \<Rightarrow> 'e modulator_engine \<Rightarrow> ((string \<times> modulator_output) list \<times> 'e modulator_engine) option" where
  "engine_do E (Tick_at b r) e = engine_tick E b r e"
| "engine_do E (Set_param i k v) e = map_option (Pair []) (update_param E i k v e)"
| "engine_do E (Start_mod i m) e = Some ([], engine_start i m e)"
| "engine_do E (Stop_mod i) e = Some ([], engine_stop i e)"

fun engine_run :: "'e mod_env \<Rightarrow> 'e engine_command list \<Rightarrow> 'e modulator_engine \<Rightarrow> ((string \<times> modulator_output) list \<times> 'e modulator_engine) option" where
  "engine_run E [] e = Some ([], e)"
| "engine_run E (c # cs) e = (case engine_do E c e of
     None \<Rightarrow> None
   | Some (outs, e') \<Rightarrow> (case engine_run E cs e' of None \<Rightarrow> None | Some (outs', e'') \<Rightarrow> Some (outs @ outs', e'')))"

fun engine_command_ok :: "nat \<Rightarrow> 'e engine_command \<Rightarrow> bool" where
  "engine_command_ok n (Tick_at b r) = lfo_rate_ok 100 r"
| "engine_command_ok n (Set_param i k v) = param_value_ok k v"
| "engine_command_ok n (Start_mod i m) = mod_invar n m"
| "engine_command_ok n (Stop_mod i) = True"

lemma list_all_update_alist: "list_all P xs \<Longrightarrow> P (i, m) \<Longrightarrow> list_all P (AList.update i m xs)"
  by (induction xs) auto

lemma list_all_delete_alist: "list_all P xs \<Longrightarrow> list_all P (AList.delete i xs)"
  by (auto simp: list_all_iff AList.delete_eq)

lemma list_all_mods_mono: "list_all (\<lambda>(i, m). mod_invar n m) xs \<Longrightarrow> k \<le> n \<Longrightarrow> list_all (\<lambda>(i, m). mod_invar k m) xs"
  by (auto simp: list_all_iff intro: mod_invar_mono)

lemma engine_tick_ok:
  assumes "libm_ok (me_libm E)" "lfo_rate_ok 100 r" "engine_ok (Suc n) e"
  shows "\<exists>outs e'. engine_tick E b r e = Some (outs, e') \<and> engine_ok n e' \<and> list_all (\<lambda>(i, out). in_range (- 1) 1 (o_cv out)) outs"
proof -
  have e: "engine_wf e" "list_all (\<lambda>(i, m). mod_invar (Suc n) m) (active e)" "view_ok (Some (en_last_outputs e))"
    using assms(3) by (simp_all add: engine_ok_def)
  obtain outs ms where s: "spec_tick E b r (active e) (en_last_outputs e) = Some (outs, ms)"
    "list_all (\<lambda>(i, m). mod_invar n m) ms" "list_all (\<lambda>(i, out). in_range (- 1) 1 (o_cv out)) outs"
    using spec_tick_ok [OF assms(1,2) e(2,3)] by blast
  define e' where "e' = e\<lparr>en_mods := en_mods e ++ map_of ms, en_last_outputs := en_last_outputs e ++ map_of (rev outs)\<rparr>"
  have t: "engine_tick E b r e = Some (outs, e')" unfolding engine_tick_spec [OF e(1)] s(1) e'_def by simp
  have "map fst ms = en_tick_order e" using engine_tick_cases [OF e(1) t] s(1) by auto
  then have act: "active e' = ms" unfolding e'_def by (rule active_tick [OF e(1) s(1)])
  have "view_ok (Some (en_last_outputs e'))"
    using e(3) s(3) by (auto simp: e'_def view_ok_def map_add_def list_all_iff split: option.splits dest!: map_of_SomeD)
  then show ?thesis using t act s(2,3) engine_tick_wf [OF e(1) t] by (simp add: engine_ok_def)
qed

lemma engine_new_ok: "engine_ok n engine_new"
  by (simp add: engine_ok_def active_def) (simp add: engine_new_def view_ok_def)

lemma engine_start_ok: "engine_ok (Suc n) e \<Longrightarrow> mod_invar n m \<Longrightarrow> engine_ok n (engine_start i m e)"
  unfolding engine_ok_def using list_all_mods_mono [of "Suc n" "active e" n]
  by (simp add: active_start engine_start_wf list_all_update_alist) (simp add: engine_start_def)

lemma engine_stop_ok: "engine_ok (Suc n) e \<Longrightarrow> engine_ok n (engine_stop i e)"
  unfolding engine_ok_def using list_all_mods_mono [of "Suc n" "active e" n]
  by (simp add: active_stop engine_stop_wf list_all_delete_alist) (simp add: engine_stop_def)

lemma update_param_ok:
  assumes "libm_ok (me_libm E)" "param_value_ok k v" "engine_ok (Suc n) e"
  shows "\<exists>e'. update_param E i k v e = Some e' \<and> engine_ok n e'"
proof (cases "en_mods e i")
  case None
  then show ?thesis using assms(3) by (auto simp: update_param_def engine_ok_def intro: list_all_mods_mono)
next
  case (Some m)
  have wf: "engine_wf e" using assms(3) by (simp add: engine_ok_def)
  have "(i, m) \<in> set (active e)" using map_of_active [OF wf] Some map_of_SomeD by metis
  then have "mod_invar (Suc n) m" using assms(3) by (auto simp: engine_ok_def list_all_iff)
  then obtain m' where m': "mod_update E k v m = Some m'" "mod_invar n m'" using mod_update_ok [OF assms(1) _ assms(2)] by blast
  have "update_param E i k v e = Some (engine_start i m' e)" using Some m' by (simp add: update_param_def engine_start_def)
  then show ?thesis using engine_start_ok [OF assms(3) m'(2)] by blast
qed

text \<open>One command, then any number of them.\<close>

lemma engine_do_ok:
  assumes "libm_ok (me_libm E)" "engine_ok (Suc n) e" "engine_command_ok N c" "n \<le> N"
  shows "\<exists>outs e'. engine_do E c e = Some (outs, e') \<and> engine_ok n e' \<and> list_all (\<lambda>(i, out). in_range (- 1) 1 (o_cv out)) outs"
proof (cases c)
  case (Tick_at b r)
  then show ?thesis using engine_tick_ok [OF assms(1) _ assms(2), of r b] assms(3) by simp
next
  case (Set_param i k v)
  then show ?thesis using update_param_ok [OF assms(1) _ assms(2), of k v i] assms(3) by auto
next
  case (Start_mod i m)
  then show ?thesis using engine_start_ok [OF assms(2), of m i] assms(3,4) mod_invar_mono by auto
next
  case (Stop_mod i)
  then show ?thesis using engine_stop_ok [OF assms(2), of i] by auto
qed

lemma engine_run_ok:
  assumes "libm_ok (me_libm E)" "engine_ok (length cs) e" "list_all (engine_command_ok N) cs" "length cs \<le> N"
  shows "\<exists>outs e'. engine_run E cs e = Some (outs, e') \<and> list_all (\<lambda>(i, out). in_range (- 1) 1 (o_cv out)) outs"
  using assms(2-4)
proof (induction cs arbitrary: e)
  case (Cons c cs)
  obtain outs e' where c: "engine_do E c e = Some (outs, e')" "engine_ok (length cs) e'" "list_all (\<lambda>(i, out). in_range (- 1) 1 (o_cv out)) outs"
    using engine_do_ok [OF assms(1), of "length cs" e N c] Cons.prems by auto
  then show ?case using Cons.IH [OF c(2)] Cons.prems by auto
qed simp

section \<open>Properties\<close>

text \<open>Whatever ticks (at 100 Hz or faster), parameter updates, starts and stops reach the engine,
  in any order, nothing it does is undefined and every control voltage it reports lies in [-1, 1],
  single-precision rounding included, also where modulators listen to one another; the modulators
  started are of the thirteen kinds that have a range, as their constructors and updates leave them.\<close>

theorem engine_run_bounded:
  assumes "libm_ok (me_libm E)" "list_all (engine_command_ok (length cs)) cs"
  shows "\<exists>outs e'. engine_run E cs engine_new = Some (outs, e') \<and> list_all (\<lambda>(i, out). in_range (- 1) 1 (o_cv out)) outs"
  by (rule engine_run_ok [OF assms(1) engine_new_ok assms(2) order_refl])

definition statue_of_slew :: "unit engine_command list" where
  "statue_of_slew = [Start_mod ''a'' (M_slew slew_new), Start_mod ''b'' (M_statues (statues_new ''a'' [])),
     Set_param ''a'' ''trig'' (Fin 1), Tick_at (Fin 0) (Fin 128), Stop_mod ''a'', Tick_at (Fin 1) (Fin 128)]"

theorem engine_run_bounded_witness:
  "\<exists>outs e'. engine_run plain_env statue_of_slew engine_new = Some (outs, e') \<and> list_all (\<lambda>(i, out). in_range (- 1) 1 (o_cv out)) outs"
proof (rule engine_run_bounded)
  show "libm_ok (me_libm plain_env)" by (simp add: libm_ok_def plain_env_def libm_const_ok)
  show "list_all (engine_command_ok (length statue_of_slew)) statue_of_slew"
    by (simp add: statue_of_slew_def slew_new_invar listeners_new_invar param_value_ok_def value_ok_def segment_key_ok_def lfo_rate_ok_def)
qed

end
