(* ===== verification/Start_Range.thy ===== *)
theory Start_Range
  imports Engine_Range Modulator_Start
begin

text \<open>
  From the messages of a client to the control voltages: the modulators that \<open>msg_modulator_start\<close> builds
  from an EDN map are in the invariants of their kinds, so that any sequence of modulator messages and
  engine ticks stays in range.
\<close>

section \<open>Messages with moderate numbers\<close>

text \<open>Every number of the value, at any depth, is at most a million in magnitude.\<close>

fun edn_small :: "edn \<Rightarrow> bool" where
  "edn_small (Edn_double d) = value_ok d"
| "edn_small (Edn_int i) = (\<bar>i\<bar> \<le> 1000000)"
| "edn_small (Edn_vector vs) = list_all edn_small vs"
| "edn_small (Edn_map m) = list_all (\<lambda>kv. edn_small (snd kv)) m"
| "edn_small v = True"

text \<open>Keys whose ninth and following characters read as a segment number without overflow.\<close>

definition key_ok :: "string \<Rightarrow> bool" where
  "key_ok k = (parse_idx 0 (takeWhile (\<lambda>c. c \<noteq> CHR ''_'') (drop 8 k)) \<noteq> None)"

lemma param_value_okI: "value_ok v \<Longrightarrow> key_ok k \<Longrightarrow> param_value_ok k v"
  using value_ok_num [of v] by (simp add: param_value_ok_def segment_key_ok_def key_ok_def)

lemma parse_idx_digit: "length cs \<le> 1 \<Longrightarrow> parse_idx 0 cs \<noteq> None"
  by (cases cs) (auto simp: Let_def)

lemma key_ok_short: "length k \<le> 9 \<Longrightarrow> key_ok k"
  unfolding key_ok_def by (intro parse_idx_digit order_trans [OF length_takeWhile_le]) simp

lemma key_ok_long: "list_all key_ok [''smoothness'', ''clock_rate'', ''lacunarity'', ''persistence'', ''in3_patched'']"
  by (simp add: key_ok_def Let_def)

lemma value_ok_to_float: "value_ok d \<Longrightarrow> value_ok (to_float d)"
proof (cases d)
  case (Fin r)
  assume "value_ok d"
  then have "- 1000000 \<le> r" "r \<le> 1000000" using Fin by (simp_all add: value_ok_def in_range_iff)
  then show ?thesis using Fin by (simp add: value_ok_def in_range_rnd)
qed simp_all

lemma value_ok_of_int: "\<bar>i\<bar> \<le> 1000000 \<Longrightarrow> value_ok (of_int_fp F32 i)"
proof -
  assume i: "\<bar>i\<bar> \<le> 1000000"
  then have "fin_val (of_int_fp F32 i) = Some (of_int i)" by (intro fin_val_of_int_fp fin_rep_F32_int) simp_all
  moreover have "- 1000000 \<le> (of_int i :: rat)" "(of_int i :: rat) \<le> 1000000" using i by linarith+
  ultimately show ?thesis by (simp add: value_ok_def in_range_def)
qed

lemma edn_float_small: "edn_small v \<Longrightarrow> edn_float v = Some x \<Longrightarrow> value_ok x"
  by (cases v) (auto simp: edn_float_def value_ok_to_float value_ok_of_int)

lemma find_small: "find_kw_ok L \<Longrightarrow> edn_small (Edn_map m) \<Longrightarrow> ed_find_kw L m k = Some v \<Longrightarrow> edn_small v"
  by (force simp: find_kw_ok_def list_all_iff dest!: map_of_SomeD)

lemma get_float_small: "find_kw_ok L \<Longrightarrow> edn_small (Edn_map m) \<Longrightarrow> value_ok d \<Longrightarrow> value_ok (get_float L m kw d)"
proof (cases "ed_find_kw L m kw")
  case (Some v)
  assume "find_kw_ok L" "edn_small (Edn_map m)" "value_ok d"
  then show ?thesis using find_small [OF _ _ Some] edn_float_small [of v]
    by (cases "edn_float v") (simp_all add: get_float_def Some del: edn_small.simps)
qed (simp add: get_float_def)

section \<open>What the messages build\<close>

lemma updates_ok:
  "libm_ok (me_libm E) \<Longrightarrow> mod_invar (length kvs + n) m \<Longrightarrow> list_all (\<lambda>(k, v). value_ok v \<and> key_ok k) kvs \<Longrightarrow>
   \<exists>m'. updates E kvs m = Some m' \<and> mod_invar n m'"
proof (induction kvs arbitrary: m)
  case (Cons kv kvs)
  obtain k v where kv: "kv = (k, v)" by fastforce
  have "param_value_ok k v" using Cons.prems(3) kv by (simp add: param_value_okI)
  then obtain m' where "mod_update E k v m = Some m'" "mod_invar (length kvs + n) m'"
    using mod_update_ok [OF Cons.prems(1), of "length kvs + n" m] Cons.prems(2) by auto
  then show ?case using Cons.IH [of m'] Cons.prems kv by simp
qed simp

text \<open>The result of a branch: no undefined behaviour, and a modulator, if any, in its invariant.\<close>

definition built_ok :: "'e modulator option option \<Rightarrow> bool" where
  "built_ok r = (\<exists>x. r = Some x \<and> pred_option (\<lambda>m. \<forall>n < 2 ^ 31. mod_invar n m) x)"

lemma built_ok_updates:
  assumes "libm_ok (me_libm E)" "\<And>n. mod_invar n m" "list_all (\<lambda>(k, v). value_ok v \<and> key_ok k) kvs"
  shows "built_ok (started (updates E kvs m))"
proof -
  obtain m' where m': "updates E kvs m = Some m'" "mod_invar (2 ^ 31) m'" using updates_ok [OF assms(1,2,3), of "2 ^ 31"] by blast
  then show ?thesis using mod_invar_mono [OF m'(2)] by (simp add: built_ok_def started_def)
qed

lemma built_ok_plain: "(\<And>n. mod_invar n m) \<Longrightarrow> built_ok (Some (Some m))"
  by (simp add: built_ok_def)

lemma value_ok_consts [simp]: "value_ok (Fin 0)" "value_ok (Fin 1)" "value_ok (Fin 2)" "value_ok (Fin 3)" "value_ok (Fin 4)"
  "value_ok (Fin 8)" "value_ok (Fin 16)" "value_ok (Fin (1/2))" "value_ok (lit F32 (1/10))"
  by (simp_all add: value_ok_def lit_def in_range_rnd)

text \<open>A message the branches can be given, and the parameters they read from it.\<close>

definition msg_ok :: "edn_lib \<Rightarrow> 'e mod_env \<Rightarrow> edn_map \<Rightarrow> bool" where
  "msg_ok L E m = (find_kw_ok L \<and> libm_ok (me_libm E) \<and> edn_small (Edn_map m))"

lemma msg_okD:
  assumes "msg_ok L E m"
  shows "libm_ok (me_libm E)" "value_ok d \<Longrightarrow> value_ok (get_float L m kw d)" "ed_find_kw L m kw = Some v \<Longrightarrow> edn_small v"
  using assms get_float_small find_small unfolding msg_ok_def by blast+

lemma digit_key_ok: "length p \<le> 8 \<Longrightarrow> key_ok (digit_key p i)"
  by (rule key_ok_short) (simp add: digit_key_def)

lemma find_item: "msg_ok L E m \<Longrightarrow> ed_find_kw L m kw = Some (Edn_vector items) \<Longrightarrow> i < length items \<Longrightarrow> edn_small (items ! i)"
  using msg_okD(3) [of L E m kw "Edn_vector items"] by (simp add: list_all_length)

lemma gain_updates_ok:
  assumes "msg_ok L E m"
  shows "list_all (\<lambda>(k, v). value_ok v \<and> key_ok k) (gain_updates L m)"
proof -
  have "list_all (\<lambda>(k, v). value_ok v \<and> key_ok k)
      (map (\<lambda>i. (digit_key ''gain'' i, case edn_float (items ! i) of Some g \<Rightarrow> g | None \<Rightarrow> Fin 1)) [0..<min 4 (length items)])"
    if "ed_find_kw L m ''gains'' = Some (Edn_vector items)" for items
    using edn_float_small [OF find_item [OF assms that]] digit_key_ok [of "''gain''"] by (auto simp: list_all_iff split: option.splits)
  then show ?thesis by (auto simp: gain_updates_def split: option.splits edn.splits)
qed

lemma list_all_concat: "list_all P (concat xss) = list_all (list_all P) xss"
  by (induction xss) simp_all

lemma double_update_ok:
  "edn_small v \<Longrightarrow> key_ok k \<Longrightarrow> list_all (\<lambda>(k, v). value_ok v \<and> key_ok k) (case v of Edn_double d \<Rightarrow> [(k, to_float d)] | _ \<Rightarrow> [])"
  by (cases v) (simp_all add: value_ok_to_float)

lemma vec_updates_ok:
  assumes "msg_ok L E m" "length p \<le> 8"
  shows "list_all (\<lambda>(k, v). value_ok v \<and> key_ok k) (vec_updates L m kw p)"
proof -
  have "list_all (\<lambda>(k, v). value_ok v \<and> key_ok k)
      (concat (map (\<lambda>i. case items ! i of Edn_double d \<Rightarrow> [(digit_key p i, to_float d)] | _ \<Rightarrow> []) [0..<min kMaxN (length items)]))"
    if "ed_find_kw L m kw = Some (Edn_vector items)" for items
    using find_item [OF assms(1) that] digit_key_ok [OF assms(2)]
    unfolding list_all_concat list.pred_map comp_def
    by (subst Ball_set_list_all [symmetric]) (auto intro!: double_update_ok simp del: edn_small.simps)
  then show ?thesis by (auto simp: vec_updates_def split: option.splits edn.splits)
qed

lemma segment_items_ok:
  "find_kw_ok L \<Longrightarrow> list_all edn_small vs \<Longrightarrow> list_all seg_def_ok (segment_items L vs)"
  by (induction vs)
     (auto simp: segment_item_def seg_def_ok_def simp flip: value_ok_def simp del: edn_small.simps intro: get_float_small split: edn.splits)

text \<open>The branches of the kinds that have a range.\<close>

lemma start_segment_ok:
  assumes "msg_ok L E m"
  shows "built_ok (start_segment L m)"
proof (cases "\<exists>vs. ed_find_kw L m ''segments'' = Some (Edn_vector vs) \<and> segment_items L vs \<noteq> []")
  case True
  then obtain vs where vs: "ed_find_kw L m ''segments'' = Some (Edn_vector vs)" "segment_items L vs \<noteq> []" by blast
  have "list_all seg_def_ok (segment_items L vs)"
    using segment_items_ok assms msg_okD(3) [OF assms vs(1)] by (simp add: msg_ok_def)
  from segment_new_invar [OF vs(2) this] obtain s where s: "segment_new (segment_items L vs) = Some s" "segment_invar n s" if "n < 2 ^ 31" for n
    by (metis option.inject zero_less_numeral zero_less_power)
  then show ?thesis using vs s(1) [of 0] by (auto simp: start_segment_def built_ok_def started_def)
qed (auto simp: start_segment_def built_ok_def split: option.splits edn.splits)

lemma param_updates_ok:
  assumes "msg_ok L E m"
  shows "built_ok (start_slope L E m)" "built_ok (start_slew L E m)" "built_ok (start_fractal L E m)"
    "built_ok (start_stochastic L E m)" "built_ok (start_bools L E m)" "built_ok (start_squid L E m)" "built_ok (start_divine L E m)"
  unfolding start_slope_def start_slew_def start_fractal_def start_stochastic_def start_bools_def start_squid_def start_divine_def
  using key_ok_long gain_updates_ok [OF assms]
  by (intro built_ok_updates msg_okD(1) [OF assms];
      simp add: msg_okD(2) [OF assms] key_ok_short slope_new_invar slew_new_invar fractal_new_invar stochastic_new_invar listeners_new_invar)+

lemma value_ok_to_int: "value_ok x \<Longrightarrow> \<exists>i. to_int32 x = Some i"
  using to_int_range [of "- 1000000" 1000000 x "- (2 ^ 31)" "2 ^ 31 - 1"] by (auto simp: value_ok_def)

lemma int_param_ok: "msg_ok L E m \<Longrightarrow> value_ok d \<Longrightarrow> \<exists>i. to_int32 (get_float L m kw d) = Some i"
  by (rule value_ok_to_int [OF msg_okD(2)])

lemma start_shift_register_ok:
  assumes "msg_ok L E m"
  shows "built_ok (start_shift_register L E m)"
proof -
  obtain len dac where i: "to_int32 (get_float L m ''length'' (Fin 16)) = Some len" "to_int32 (get_float L m ''dac_bits'' (Fin 3)) = Some dac"
    using int_param_ok [OF assms] by (meson value_ok_consts)
  show ?thesis unfolding start_shift_register_def i prod.case option.case
    using key_ok_long by (intro built_ok_updates msg_okD(1) [OF assms]) (simp_all add: msg_okD(2) [OF assms] key_ok_short shift_register_new_invar)
qed

lemma start_genie_ok:
  assumes "msg_ok L E m"
  shows "built_ok (start_genie L E m)"
proof -
  obtain n where n: "to_int32 (get_float L m ''n'' (Fin 3)) = Some n" using int_param_ok [OF assms] by (meson value_ok_consts)
  show ?thesis unfolding start_genie_def n option.case
    by (intro built_ok_updates msg_okD(1) [OF assms]) (simp_all add: vec_updates_ok [OF assms] listeners_new_invar)
qed

lemma start_decoder_ok:
  assumes "msg_ok L E m"
  shows "built_ok (start_decoder L E m)"
proof -
  define ch where "ch = (case ed_find_kw L m ''channels'' of Some (Edn_int i) \<Rightarrow> Some (wrap32 i) | Some (Edn_double d) \<Rightarrow> to_int32 d | _ \<Rightarrow> Some 1)"
  define static where "static = (case ed_find_kw L m ''span'' of
      Some v \<Rightarrow> (case edn_float v of Some x \<Rightarrow> [(''span'', x)] | None \<Rightarrow> []) | None \<Rightarrow> [])"
  obtain n where n: "ch = Some n"
    using msg_okD(3) [OF assms, of "''channels''"] value_ok_to_int by (force simp: ch_def split: option.splits edn.splits)
  have st: "list_all (\<lambda>(k, v). value_ok v \<and> key_ok k) static"
    using edn_float_small msg_okD(3) [OF assms, of "''span''"] key_ok_short by (auto simp: static_def split: option.splits)
  show ?thesis unfolding start_decoder_def Let_def ch_def [symmetric] static_def [symmetric] n option.case
    by (intro built_ok_updates msg_okD(1) [OF assms]) (simp_all add: msg_okD(2) [OF assms] key_ok_short st)
qed

section \<open>The type of a modulator\<close>

text \<open>The names of the kinds that have a range. Other names must not be built in nor registered.\<close>

definition ranged_types :: "string list" where
  "ranged_types = [''slope'', ''segment'', ''slew'', ''shift-register'', ''fractal'', ''stochastic'', ''cv-channel-decoder'',
     ''divine-cmos'', ''statues'', ''cipher'', ''bools-ring'', ''squid-axon'', ''genie'']"

definition type_ok :: "'e modulator_registry option \<Rightarrow> string \<Rightarrow> bool" where
  "type_ok reg t = (t \<in> set ranged_types \<or>
     t \<notin> {''graph'', ''sloth-chaos'', ''lets-splosh''} \<and> (case reg of None \<Rightarrow> True | Some r \<Rightarrow> \<not> registry_contains r t))"

lemma build_ranged:
  assumes "msg_ok L E m" "t \<in> set ranged_types"
  shows "built_ok (build_modulator L E reg t m)"
proof -
  have "built_ok (start_statues L m)" "built_ok (start_cipher L m)"
    by (simp_all add: start_statues_def start_cipher_def built_ok_plain listeners_new_invar)
  note branches = this start_segment_ok [OF assms(1)] param_updates_ok [OF assms(1)] start_shift_register_ok [OF assms(1)]
    start_genie_ok [OF assms(1)] start_decoder_ok [OF assms(1)]
  show ?thesis using assms(2) unfolding ranged_types_def list.set
    by (elim insertE emptyE; simp only: build_modulator_def) (simp_all add: branches)
qed

lemma build_unknown:
  assumes "t \<notin> set ranged_types" "type_ok reg t"
  shows "build_modulator L E reg t m = Some None"
proof -
  have "build_modulator L E reg t m = start_ext E reg t m"
    using assms by (simp add: build_modulator_def type_ok_def ranged_types_def)
  then show ?thesis using assms by (auto simp: start_ext_def type_ok_def registry_contains_def registry_make_def split: option.splits)
qed

lemma build_ok: "msg_ok L E m \<Longrightarrow> type_ok reg t \<Longrightarrow> built_ok (build_modulator L E reg t m)"
  using build_ranged [of L E m t reg] build_unknown [of t reg L E m] by (cases "t \<in> set ranged_types") (auto simp: built_ok_def)

section \<open>Sequences of messages and ticks\<close>

datatype mod_event = Start_msg edn_map | Stop_msg edn_map | Update_msg edn_map | Tick_event fp fp

fun mod_event_do :: "edn_lib \<Rightarrow> 'e mod_env \<Rightarrow> 'e modulator_registry option \<Rightarrow> mod_event \<Rightarrow> 'e modulator_engine \<Rightarrow>
    ((string \<times> modulator_output) list \<times> 'e modulator_engine) option" where
  "mod_event_do L E reg (Start_msg m) e = map_option (Pair []) (handle_modulator_start L E reg m e)"
| "mod_event_do L E reg (Stop_msg m) e = Some ([], handle_modulator_stop L m e)"
| "mod_event_do L E reg (Update_msg m) e = map_option (Pair []) (handle_modulator_update L E m e)"
| "mod_event_do L E reg (Tick_event b r) e = engine_tick E b r e"

fun mod_events_run :: "edn_lib \<Rightarrow> 'e mod_env \<Rightarrow> 'e modulator_registry option \<Rightarrow> mod_event list \<Rightarrow> 'e modulator_engine \<Rightarrow>
    ((string \<times> modulator_output) list \<times> 'e modulator_engine) option" where
  "mod_events_run L E reg [] e = Some ([], e)"
| "mod_events_run L E reg (v # vs) e = (case mod_event_do L E reg v e of
     None \<Rightarrow> None
   | Some (outs, e') \<Rightarrow> (case mod_events_run L E reg vs e' of None \<Rightarrow> None | Some (outs', e'') \<Rightarrow> Some (outs @ outs', e'')))"

fun mod_event_ok :: "edn_lib \<Rightarrow> 'e modulator_registry option \<Rightarrow> mod_event \<Rightarrow> bool" where
  "mod_event_ok L reg (Start_msg m) = (edn_small (Edn_map m) \<and>
     (\<forall>v. ed_find_kw L m ''type'' = Some v \<longrightarrow> type_ok reg (case v of Edn_keyword k \<Rightarrow> k | _ \<Rightarrow> [])))"
| "mod_event_ok L reg (Stop_msg m) = True"
| "mod_event_ok L reg (Update_msg m) = (edn_small (Edn_map m) \<and> (\<forall>v. ed_find_kw L m ''key'' = Some v \<longrightarrow> key_ok (edn_name v)))"
| "mod_event_ok L reg (Tick_event b r) = lfo_rate_ok 100 r"

lemma engine_ok_mono: "engine_ok n e \<Longrightarrow> k \<le> n \<Longrightarrow> engine_ok k e"
  by (auto simp: engine_ok_def intro: list_all_mods_mono)

lemma handle_start_ok:
  assumes "msg_ok L E m" "mod_event_ok L reg (Start_msg m)" "engine_ok (Suc n) e" "n < 2 ^ 31"
  shows "\<exists>e'. handle_modulator_start L E reg m e = Some e' \<and> engine_ok n e'"
proof (cases "\<exists>i t. ed_find_kw L m ''id'' = Some i \<and> ed_find_kw L m ''type'' = Some t \<and> edn_name i \<noteq> []")
  case True
  then obtain i t where it: "ed_find_kw L m ''id'' = Some i" "ed_find_kw L m ''type'' = Some t" "edn_name i \<noteq> []" by blast
  have "built_ok (build_modulator L E reg (case t of Edn_keyword k \<Rightarrow> k | _ \<Rightarrow> []) m)"
    using assms(2) it(2) by (intro build_ok [OF assms(1)]) simp
  then obtain r where r: "build_modulator L E reg (case t of Edn_keyword k \<Rightarrow> k | _ \<Rightarrow> []) m = Some r"
    "\<And>md. r = Some md \<Longrightarrow> mod_invar n md" using assms(4) unfolding built_ok_def by (metis option.pred_inject(2))
  then show ?thesis using it engine_start_ok [OF assms(3)] engine_ok_mono [OF assms(3), of n]
    by (cases r) (auto simp: handle_modulator_start_def Let_def)
qed (use engine_ok_mono [OF assms(3), of n] in \<open>auto simp: handle_modulator_start_def Let_def split: option.splits\<close>)

lemma handle_update_ok:
  assumes "msg_ok L E m" "mod_event_ok L reg (Update_msg m)" "engine_ok (Suc n) e"
  shows "\<exists>e'. handle_modulator_update L E m e = Some e' \<and> engine_ok n e'"
proof (cases "\<exists>i k v. ed_find_kw L m ''id'' = Some i \<and> ed_find_kw L m ''key'' = Some k \<and> ed_find_kw L m ''value'' = Some v \<and>
    edn_name i \<noteq> [] \<and> edn_name k \<noteq> []")
  case True
  then obtain i k v where ikv: "ed_find_kw L m ''id'' = Some i" "ed_find_kw L m ''key'' = Some k" "ed_find_kw L m ''value'' = Some v"
    "edn_name i \<noteq> []" "edn_name k \<noteq> []" by blast
  have "value_ok (case edn_float v of Some x \<Rightarrow> x | None \<Rightarrow> Fin 0)"
    using edn_float_small [OF msg_okD(3) [OF assms(1) ikv(3)]] by (auto split: option.splits)
  then have "param_value_ok (edn_name k) (case edn_float v of Some x \<Rightarrow> x | None \<Rightarrow> Fin 0)"
    using assms(2) ikv(2) by (intro param_value_okI) simp_all
  from update_param_ok [OF msg_okD(1) [OF assms(1)] this assms(3), of "edn_name i"] ikv show ?thesis
    by (simp add: handle_modulator_update_def Let_def)
qed (use engine_ok_mono [OF assms(3), of n] in \<open>auto simp: handle_modulator_update_def Let_def split: option.splits\<close>)

lemma mod_event_do_ok:
  assumes "find_kw_ok L" "libm_ok (me_libm E)" "mod_event_ok L reg v" "engine_ok (Suc n) e" "n < 2 ^ 31"
  shows "\<exists>outs e'. mod_event_do L E reg v e = Some (outs, e') \<and> engine_ok n e' \<and> list_all (\<lambda>(i, out). in_range (- 1) 1 (o_cv out)) outs"
proof (cases v)
  case (Start_msg m)
  then show ?thesis using handle_start_ok [of L E m reg n e] assms by (auto simp: msg_ok_def)
next
  case (Stop_msg m)
  then show ?thesis using engine_stop_ok [OF assms(4)] engine_ok_mono [OF assms(4), of n]
    by (auto simp: handle_modulator_stop_def split: option.splits)
next
  case (Update_msg m)
  then show ?thesis using handle_update_ok [of L E m reg n e] assms by (auto simp: msg_ok_def)
next
  case (Tick_event b r)
  then show ?thesis using engine_tick_ok [OF assms(2) _ assms(4), of r b] assms(3) by simp
qed

lemma mod_events_run_ok:
  assumes "find_kw_ok L" "libm_ok (me_libm E)" "list_all (mod_event_ok L reg) vs" "engine_ok (length vs) e" "length vs < 2 ^ 31"
  shows "\<exists>outs e'. mod_events_run L E reg vs e = Some (outs, e') \<and> list_all (\<lambda>(i, out). in_range (- 1) 1 (o_cv out)) outs"
  using assms(3-5)
proof (induction vs arbitrary: e)
  case (Cons v vs)
  obtain outs e' where v: "mod_event_do L E reg v e = Some (outs, e')" "engine_ok (length vs) e'" "list_all (\<lambda>(i, out). in_range (- 1) 1 (o_cv out)) outs"
    using mod_event_do_ok [OF assms(1,2), of reg v "length vs" e] Cons.prems by auto
  then show ?case using Cons.IH [OF _ v(2)] Cons.prems by auto
qed simp

section \<open>Properties\<close>

text \<open>C23: under any sequence of fewer than 2^31 start, stop and update messages and engine ticks, nothing is
  undefined and every control voltage reported lies in [-1, 1], single-precision rounding included and also
  where modulators listen to one another. The condition: no message starts a control graph, a sloth circuit
  (\<open>sloth-chaos\<close>), a splosh matrix (\<open>lets-splosh\<close>) or a registered type, which have no range; ticks come at 100 Hz
  to a million Hz (or at a rate that is not positive); the numbers in the messages are at most a million in
  magnitude, and a segment number in a key fits an \<open>int\<close>.\<close>

theorem modulator_messages_bounded:
  assumes "find_kw_ok L" "libm_ok (me_libm E)" "list_all (mod_event_ok L reg) vs" "length vs < 2 ^ 31"
  shows "\<exists>outs e'. mod_events_run L E reg vs engine_new = Some (outs, e') \<and> list_all (\<lambda>(i, out). in_range (- 1) 1 (o_cv out)) outs"
  by (rule mod_events_run_ok [OF assms(1-3) engine_new_ok assms(4)])

definition slew_messages :: "mod_event list" where
  "slew_messages =
     [Start_msg [(Edn_keyword ''id'', Edn_keyword ''a''), (Edn_keyword ''type'', Edn_keyword ''slew''), (Edn_keyword ''rise'', Edn_int 2)],
      Start_msg [(Edn_keyword ''id'', Edn_keyword ''b''), (Edn_keyword ''type'', Edn_keyword ''statues''),
        (Edn_keyword ''in'', Edn_vector [Edn_keyword ''a''])],
      Update_msg [(Edn_keyword ''id'', Edn_keyword ''a''), (Edn_keyword ''key'', Edn_keyword ''trig''), (Edn_keyword ''value'', Edn_double (Fin 1))],
      Tick_event (Fin 0) (Fin 128),
      Stop_msg [(Edn_keyword ''id'', Edn_keyword ''a'')],
      Tick_event (Fin 1) (Fin 128)]"

theorem modulator_messages_bounded_witness:
  "\<exists>outs e'. mod_events_run (edn_table []) plain_env None slew_messages engine_new = Some (outs, e') \<and>
    list_all (\<lambda>(i, out). in_range (- 1) 1 (o_cv out)) outs"
proof (rule modulator_messages_bounded [OF edn_table_ok])
  show "libm_ok (me_libm plain_env)" by (simp add: libm_ok_def plain_env_def libm_const_ok)
  show "list_all (mod_event_ok (edn_table []) (None :: unit modulator_registry option)) slew_messages"
    by (simp add: slew_messages_def edn_table_def type_ok_def ranged_types_def edn_name_def key_ok_def lfo_rate_ok_def)
qed (simp add: slew_messages_def)

end
