(* ===== verification/Control_Requests.thy ===== *)
theory Control_Requests
  imports Control_Thread
begin

text \<open>
  What a client of the control thread asks for and what reaches the audio side for it: notes, played at once
  or at a beat, parameters and raw MIDI, each with the EDN map that asks for it and, written out, the event
  that must be queued.
\<close>

section \<open>Requests\<close>

record note_request =
  nr_on :: bool
  nr_key :: int
  nr_channel :: int
  nr_port :: int
  nr_note_id :: int
  nr_velocity :: fp

datatype request =
    Play note_request
  | Play_at fp note_request
  | Set_param edn edn
  | Midi_bytes int int int int

fun request_type :: "request \<Rightarrow> u8" where
  "request_type (Play n) = (if nr_on n then 0x41 else 0x42)"
| "request_type (Play_at b n) = (if nr_on n then 0x41 else 0x42)"
| "request_type (Set_param path v) = 0x40"
| "request_type (Midi_bytes port b0 b1 b2) = 0x43"

definition note_fields :: "note_request \<Rightarrow> edn_map" where
  "note_fields n = [(Edn_keyword ''key'', Edn_int (nr_key n)), (Edn_keyword ''channel'', Edn_int (nr_channel n)),
     (Edn_keyword ''port'', Edn_int (nr_port n)), (Edn_keyword ''note-id'', Edn_int (nr_note_id n)),
     (Edn_keyword ''velocity'', Edn_double (nr_velocity n))]"

fun request_map :: "request \<Rightarrow> edn_map" where
  "request_map (Play n) = note_fields n"
| "request_map (Play_at b n) = (Edn_keyword ''beat'', Edn_double b) # note_fields n"
| "request_map (Set_param path v) = [(Edn_keyword ''path'', path), (Edn_keyword ''value'', v)]"
| "request_map (Midi_bytes port b0 b1 b2) =
     [(Edn_keyword ''port'', Edn_int port), (Edn_keyword ''data'', Edn_vector [Edn_int b0, Edn_int b1, Edn_int b2])]"

text \<open>A message asks for a request: it has its type, and its payload reads as a map with the request's entries, in
  any order.\<close>

definition asks :: "edn_lib \<Rightarrow> request \<Rightarrow> u8 \<times> u8 list \<Rightarrow> bool" where
  "asks L r msg = (fst msg = request_type r \<and>
     (\<exists>m. payload_map L (snd msg) = Some m \<and> (\<forall>k. ed_find_kw L m k = map_of (request_map r) (Edn_keyword k))))"

section \<open>The events that must be queued\<close>

definition note_asked :: "note_request \<Rightarrow> clap_event" where
  "note_asked n = Clap_note \<lparr>ne_on = nr_on n, ne_live = False, ne_time = 0, ne_note_id = scast (of_int (nr_note_id n) :: u16),
     ne_port = of_int (nr_port n), ne_channel = of_int (nr_channel n), ne_key = of_int (nr_key n), ne_velocity = nr_velocity n\<rparr>"

text \<open>For the next block; \<open>sched\<close> says whether a scheduler is there to take notes with a beat.\<close>

fun input_asked :: "bool \<Rightarrow> request \<Rightarrow> clap_event list" where
  "input_asked sched (Play n) = [note_asked n]"
| "input_asked sched (Play_at b n) = (if sched then [] else [note_asked n])"
| "input_asked sched (Set_param path v) = []"
| "input_asked sched (Midi_bytes port b0 b1 b2) =
     [Clap_midi \<lparr>me_live = False, me_time = 0, me_port = of_int port, me_data = [of_int b0, of_int b1, of_int b2]\<rparr>]"

fun staged_asked :: "request \<Rightarrow> scheduled_event list" where
  "staged_asked (Play_at b n) = [\<lparr>se_beat = b, se_kind = K_clap, se_event = note_asked n, se_osc = osc_event_new\<rparr>]"
| "staged_asked r = []"

fun params_asked :: "request \<Rightarrow> param_event list" where
  "params_asked (Set_param path v) = [\<lparr>pe_path = path, pe_value = v, pe_time = time_identity_new\<rparr>]"
| "params_asked r = []"

text \<open>What a state holds for the audio side.\<close>

definition queued :: "'e control \<Rightarrow> clap_event list \<times> scheduled_event list option \<times> param_event list" where
  "queued st = (q_list in_queue_capacity (ct_in_queue st), map_option (q_list sched_queue_capacity) (ct_sched_staging st),
     q_list param_queue_capacity (ct_param_queue st))"

section \<open>One message\<close>

lemma push_queued: "q_invar cap q \<Longrightarrow> q_list cap (snd (q_push cap q x)) = take (cap - 1) (q_list cap q @ [x])"
  using spsc.push_items [of cap q x] q_list_length [of cap q] by fastforce

lemma queue_full: "q_invar cap q \<Longrightarrow> take (cap - 1) (q_list cap q) = q_list cap q"
  using q_list_length [of cap q] by fastforce

lemma rooms: "in_queue_capacity - 1 = 255" "sched_queue_capacity - 1 = 1023" "param_queue_capacity - 1 = 511"
  by (simp_all add: in_queue_capacity_def sched_queue_capacity_def param_queue_capacity_def)

lemmas pushes_queued = push_queued [of in_queue_capacity, unfolded rooms] push_queued [of sched_queue_capacity, unfolded rooms]
  push_queued [of param_queue_capacity, unfolded rooms]

lemmas queues_full = queue_full [of in_queue_capacity, unfolded rooms] queue_full [of sched_queue_capacity, unfolded rooms]
  queue_full [of param_queue_capacity, unfolded rooms]

lemma note_of_request:
  assumes "\<And>k. k \<noteq> ''beat'' \<Longrightarrow> ed_find_kw L m k = map_of (note_fields n) (Edn_keyword k)"
  shows "note_of_map L on m = make_note_event on (of_int (nr_key n)) (of_int (nr_channel n)) (of_int (nr_port n))
    (of_int (nr_note_id n)) (nr_velocity n)"
  using assms by (simp add: note_of_map_def get_int_def get_double_def edn_double_def note_fields_def)

lemma play_dispatch:
  assumes "\<And>k. k \<noteq> ''beat'' \<Longrightarrow> ed_find_kw L m k = map_of (note_fields n) (Edn_keyword k)"
  shows "handle_note L (nr_on n) m st = (case (ed_find_kw L m ''beat'', ct_sched_staging st) of
      (Some _, Some q) \<Rightarrow> st\<lparr>ct_sched_staging := Some (snd (q_push sched_queue_capacity q
         \<lparr>se_beat = get_double L m ''beat'' (Fin 0), se_kind = K_clap, se_event = note_asked n, se_osc = osc_event_new\<rparr>))\<rparr>
    | _ \<Rightarrow> push_in (note_asked n) st)"
proof -
  have "note_of_map L (nr_on n) m = note_asked n"
    using note_of_request [of L m n, OF assms] by (simp add: make_note_event_def note_asked_def)
  then show ?thesis by (simp add: handle_note_def Let_def clap_at_def split: option.splits)
qed

definition request_state :: "request \<Rightarrow> 'e control \<Rightarrow> 'e control" where
  "request_state r st = (case r of
     Play n \<Rightarrow> push_in (note_asked n) st
   | Play_at b n \<Rightarrow> (case ct_sched_staging st of
       Some q \<Rightarrow> st\<lparr>ct_sched_staging := Some (snd (q_push sched_queue_capacity q (hd (staged_asked r))))\<rparr>
     | None \<Rightarrow> push_in (note_asked n) st)
   | Set_param path v \<Rightarrow> st\<lparr>ct_param_queue := snd (q_push param_queue_capacity (ct_param_queue st) (hd (params_asked r)))\<rparr>
   | Midi_bytes port b0 b1 b2 \<Rightarrow> push_in (hd (input_asked False r)) st)"

lemma dispatch_request:
  assumes "asks (ce_edn V) r (t, p)"
  shows "dispatch_message V c \<lparr>m_hdr = frame_header t p, m_payload = p\<rparr> st sess = Some ([], request_state r st, sess)"
proof -
  obtain m where t: "t = request_type r" and m: "payload_map (ce_edn V) p = Some m"
    and kw: "\<And>k. ed_find_kw (ce_edn V) m k = map_of (request_map r) (Edn_keyword k)"
    using assms by (auto simp: asks_def)
  have "t \<in> {0x40, 0x41, 0x42, 0x43}" using t by (cases r) auto
  then have d: "dispatch_message V c \<lparr>m_hdr = frame_header t p, m_payload = p\<rparr> st sess = dispatch_map V c t m st sess"
    using m by (auto simp: dispatch_message_def frame_header_def handled_types_def msg_type_defs)
  show ?thesis
  proof (cases r)
    case (Play n)
    have "handle_note (ce_edn V) (nr_on n) m st = request_state r st"
      using kw Play by (subst play_dispatch [of _ _ n]) (auto simp: request_state_def note_fields_def)
    then show ?thesis using d t Play by (auto simp: dispatch_map_def msg_type_defs Let_def)
  next
    case (Play_at b n)
    have "get_double (ce_edn V) m ''beat'' (Fin 0) = b" using kw Play_at by (simp add: get_double_def edn_double_def)
    then have "handle_note (ce_edn V) (nr_on n) m st = request_state r st"
      using kw Play_at by (subst play_dispatch [of _ _ n]) (auto simp: request_state_def split: option.splits)
    then show ?thesis using d t Play_at by (auto simp: dispatch_map_def msg_type_defs Let_def)
  next
    case (Set_param path v)
    then show ?thesis using d t kw by (simp add: dispatch_map_def msg_type_defs Let_def handle_param_set_def request_state_def)
  next
    case (Midi_bytes port b0 b1 b2)
    then show ?thesis using d t kw
      by (simp add: dispatch_map_def msg_type_defs Let_def handle_midi_in_def request_state_def midi_byte_def get_int_def upt_rec)
  qed
qed

lemma request_state_keeps:
  "control_wf st \<Longrightarrow> control_wf (request_state r st)"
  "ct_mod_engine (request_state r st) = ct_mod_engine st"
  "ct_sched_staging (request_state r st) = None \<longleftrightarrow> ct_sched_staging st = None"
  by (auto simp: request_state_def control_wf_def push_in_def spsc.push_invar split: request.splits option.splits)

text \<open>The contents of the queues after requests: a full queue drops what does not fit.\<close>

definition queued_after :: "request list \<Rightarrow> 'e control \<Rightarrow> clap_event list \<times> scheduled_event list option \<times> param_event list" where
  "queued_after rs st =
     (take 255 (q_list in_queue_capacity (ct_in_queue st) @ concat (map (input_asked (ct_sched_staging st \<noteq> None)) rs)),
      map_option (\<lambda>q. take 1023 (q_list sched_queue_capacity q @ concat (map staged_asked rs))) (ct_sched_staging st),
      take 511 (q_list param_queue_capacity (ct_param_queue st) @ concat (map params_asked rs)))"

lemma queued_request: "control_wf st \<Longrightarrow> queued (request_state r st) = queued_after [r] st"
  by (cases r; cases "ct_sched_staging st")
     (simp_all add: queued_def queued_after_def request_state_def push_in_def control_wf_def pushes_queued queues_full del: take_append)

lemma take_take_append: "take n (take n xs @ ys) = take n (xs @ ys)"
  by (simp add: min_def)

lemma queued_after_Cons: "control_wf st \<Longrightarrow> queued_after rs (request_state r st) = queued_after (r # rs) st"
  using queued_request [of st r] request_state_keeps(3) [of r st]
  by (cases "ct_sched_staging st"; cases "ct_sched_staging (request_state r st)")
     (simp_all add: queued_def queued_after_def take_take_append del: take_append)

lemma queued_after_Nil: "control_wf st \<Longrightarrow> queued_after [] st = queued st"
  by (cases "ct_sched_staging st") (simp_all add: queued_def queued_after_def control_wf_def queues_full)

section \<open>A connection\<close>

lemma dispatch_requests:
  assumes "control_wf st" "list_all2 (asks (ce_edn V)) rs ms"
  shows "\<exists>st'. dispatch_all V c ms st sess = Some ([], st') \<and> queued st' = queued_after rs st \<and>
    ct_mod_engine st' = ct_mod_engine st \<and> control_wf st'"
  using assms(2,1)
proof (induction arbitrary: st sess rule: list_all2_induct)
  case Nil
  then show ?case by (simp add: queued_after_Nil)
next
  case (Cons r rs x ms)
  obtain t p where x: "x = (t, p)" by fastforce
  from Cons.IH [OF request_state_keeps(1) [OF Cons.prems], of r] show ?case
    using dispatch_request [of V r t p] Cons.hyps(1) x queued_after_Cons [OF Cons.prems] request_state_keeps(2) [of r st] by simp
qed

section \<open>Properties\<close>

text \<open>C25: over a connection on which a client asks for notes, at once or at a beat, parameters and raw MIDI, in
  frames that arrive split and interrupted in any way, the input queue, the scheduler's staging queue and the
  parameter queue receive exactly the events asked for, each with its own values and in the order of the
  requests, behind what they held before, up to their capacities of 255, 1023 and 511; nothing is sent back, the
  modulators are untouched and the connection returns. Without a scheduler a note with a beat is played at once.\<close>

theorem requests_queued_exactly:
  assumes "control_wf st" "list_all2 (asks (ce_edn V)) rs ms" "list_all (\<lambda>(t, p). fits p) ms"
    and "rd_benign fd" "rf_bytes fd = concat (map (\<lambda>(t, p). frame t p) ms)"
  shows "\<exists>st'. map_option (\<lambda>(effs, st', _). (effs, st')) (handle_connection V c [] fd st) = Some ([], st') \<and>
    q_list in_queue_capacity (ct_in_queue st') =
      take 255 (q_list in_queue_capacity (ct_in_queue st) @ concat (map (input_asked (ct_sched_staging st \<noteq> None)) rs)) \<and>
    map_option (q_list sched_queue_capacity) (ct_sched_staging st') =
      map_option (\<lambda>q. take 1023 (q_list sched_queue_capacity q @ concat (map staged_asked rs))) (ct_sched_staging st) \<and>
    q_list param_queue_capacity (ct_param_queue st') =
      take 511 (q_list param_queue_capacity (ct_param_queue st) @ concat (map params_asked rs)) \<and>
    ct_mod_engine st' = ct_mod_engine st"
proof -
  let ?st = "st\<lparr>ct_conn_write := Some c\<rparr>"
  obtain st' where st': "dispatch_all V c ms ?st None = Some ([], st')" "queued st' = queued_after rs ?st" "ct_mod_engine st' = ct_mod_engine ?st"
    using dispatch_requests [OF _ assms(2), of ?st c None] assms(1) by auto
  from conn_loop_frames [OF assms(4,5,3), of V c ?st None] st'(1)
  have "map_option (\<lambda>(effs, st', _). (effs, st')) (handle_connection V c [] fd st) = Some ([], st'\<lparr>ct_conn_write := None\<rparr>)"
    by (auto simp: handle_connection_def)
  then show ?thesis using st'(2,3)
    by (intro exI [of _ "st'\<lparr>ct_conn_write := None\<rparr>"]) (simp add: queued_def queued_after_def)
qed

text \<open>A client sets a parameter, plays a note now and asks for its end at beat 4.\<close>

definition demo_requests :: "request list" where
  "demo_requests =
     [Set_param (Edn_keyword ''cutoff'') (Edn_int 3),
      Play \<lparr>nr_on = True, nr_key = 60, nr_channel = 1, nr_port = 0, nr_note_id = 7, nr_velocity = Fin (1/2)\<rparr>,
      Play_at (Fin 4) \<lparr>nr_on = False, nr_key = 60, nr_channel = 1, nr_port = 0, nr_note_id = 7, nr_velocity = Fin 0\<rparr>]"

definition demo_messages :: "(u8 \<times> u8 list) list" where
  "demo_messages = [(0x40, [1]), (0x41, [2]), (0x42, [3])]"

definition demo_library :: edn_lib where
  "demo_library = edn_table (zip [[1], [2], [3]] (map (Edn_map \<circ> request_map) demo_requests))"

theorem requests_queued_exactly_witness:
  "\<exists>st' q. map_option (\<lambda>(effs, st', _). (effs, st')) (handle_connection (env_of demo_library) 7 []
      \<lparr>rf_bytes = concat (map (\<lambda>(t, p). frame t p) demo_messages), rf_plan = [Rd_err EINTR, Rd_chunk 3]\<rparr> (control_new ''s'')) = Some ([], st') \<and>
    q_list in_queue_capacity (ct_in_queue st') = [Clap_note \<lparr>ne_on = True, ne_live = False, ne_time = 0, ne_note_id = 7, ne_port = 0,
      ne_channel = 1, ne_key = 60, ne_velocity = Fin (1/2)\<rparr>] \<and>
    ct_sched_staging st' = Some q \<and>
    q_list sched_queue_capacity q = [\<lparr>se_beat = Fin 4, se_kind = K_clap, se_event = Clap_note \<lparr>ne_on = False, ne_live = False, ne_time = 0,
      ne_note_id = 7, ne_port = 0, ne_channel = 1, ne_key = 60, ne_velocity = Fin 0\<rparr>, se_osc = osc_event_new\<rparr>] \<and>
    q_list param_queue_capacity (ct_param_queue st') =
      [\<lparr>pe_path = Edn_keyword ''cutoff'', pe_value = Edn_int 3, pe_time = time_identity_new\<rparr>]"
proof -
  let ?fd = "\<lparr>rf_bytes = concat (map (\<lambda>(t, p). frame t p) demo_messages), rf_plan = [Rd_err EINTR, Rd_chunk 3]\<rparr>"
  have a: "list_all2 (asks (ce_edn (env_of demo_library))) demo_requests demo_messages"
    by (simp add: demo_requests_def demo_messages_def demo_library_def env_of_def asks_def payload_map_def edn_table_def edn_is_map_def)
  have f: "list_all (\<lambda>(t, p). fits p) demo_messages" "rd_benign ?fd" by (simp_all add: demo_messages_def fits_def rd_benign_def)
  have e: "q_list in_queue_capacity (ct_in_queue (control_new ''s'')) = []" "q_list param_queue_capacity (ct_param_queue (control_new ''s'')) = []"
    "\<exists>q. ct_sched_staging (control_new ''s'') = Some q \<and> q_list sched_queue_capacity q = []"
    by (simp_all add: control_new_def q_new_list)
  have i: "scast (of_int 7 :: u16) = (7 :: u32)" by code_simp
  have b: "rf_bytes ?fd = concat (map (\<lambda>(t, p). frame t p) demo_messages)" by simp
  from requests_queued_exactly [OF control_new_wf a f b, of 7 "''s''"] e show ?thesis
    by (auto simp: demo_requests_def note_asked_def i)
qed

end
