(* ===== verification/Spec2Isabelle.thy ===== *)
theory Spec2Isabelle
  imports Rcu Mcp Common_Args Luajit Luajit_Prelude Host Process Faust Graph_Types Graph_Semantics Start_Range
    Control_Requests
begin

text \<open>
  A verification library for nomos-rt, the real-time core of a music system in C++. A process of it
  has a control thread that serves one client at a time on a Unix socket, an audio thread that
  drains queues and ticks modulators, and threads for MIDI and OSC. The threads meet only in
  lock-free queues and in an RCU-published table; everything a client asks for arrives as a framed
  message with an EDN map as its payload.

  \<^bold>\<open>Theories and the code they model\<close> (paths under \<open>src/\<close>).
  \<^item> \<open>Prelude\<close>: machine types, big-endian bytes, generic lemmas. \<open>Floats\<close>, \<open>Float_Bits\<close>: IEEE binary32 and
    binary64 with rounding to nearest even, infinities, NaN and signed zero, as rationals; the bit
    patterns of binary32. \<open>Libm\<close>: the functions of the mathematical library whose last bit is not
    fixed, as a record of parameters with named predicates.
  \<^item> \<open>Queue_Interface\<close>, \<open>Spsc_Queue\<close> (\<open>include/nomos/rt/spsc_queue.hpp\<close>): the contract of a bounded queue as
    the locale \<open>bounded_fifo\<close>; the ring buffer on 64-bit indices, which interprets it, and a two-thread
    step relation with one rule per atomic access. \<open>Small_Vector\<close> (\<open>small_vector.hpp\<close>).
  \<^item> \<open>Events\<close>, \<open>Scheduler\<close> (\<open>event_scheduler.hpp\<close>, \<open>time_identity.hpp\<close>): staging, stable ordering by beat,
    firing; the pending tempo transition.
  \<^item> \<open>Osc\<close> (\<open>osc_encode.hpp\<close>, \<open>osc_event.hpp\<close>, \<open>osc_server.cpp\<close>): encoder, datagrams, packet decoding and routes.
  \<^item> \<open>Ipc\<close> (\<open>ipc.hpp\<close>, \<open>ipc_channel.cpp\<close>): frames over a descriptor whose reads and writes may be short,
    interrupted or fail; the outcomes of the coming system calls are a list in the descriptor.
  \<^item> \<open>Midi\<close> (\<open>event_collector.cpp\<close>, \<open>input_event_buffer.cpp\<close>, \<open>midi_io.cpp\<close>), \<open>Mts\<close> (the tuning dump of
    \<open>rt_control_thread.cpp\<close>).
  \<^item> \<open>Modulator\<close>, \<open>Mod_Basic\<close>, \<open>Mod_Register\<close>, \<open>Mod_Nlc\<close>, \<open>Mod_Chaos\<close> (\<open>*_modulator.cpp\<close>, \<open>cv_channel_decoder.cpp\<close>):
    the fifteen built-in modulators, each a record with a \<open>tick\<close> and an \<open>update\<close>. The locale
    \<open>bounded_modulator\<close> is the contract of one whose output stays in range over any run; slew,
    segment, slope, shift register, fractal and stochastic interpret it. \<open>Mod_Listen\<close>: the locale
    \<open>bounded_listener\<close>, the contract of one that also hears the others, interpreted by decoder, divine,
    statues, cipher, bools, squid and genie, and a sublocale of the contract of those on their own.
    \<open>Faust\<close> (\<open>dsp_block.hpp\<close>, \<open>faust_modulator.cpp\<close>, \<open>faust_dsp_adapter.hpp\<close>): the locale \<open>dsp_block\<close> and
    the adapter, which interprets it for any Faust class that keeps its word.
  \<^item> \<open>Edn\<close>, \<open>Graph_Modulator\<close> (\<open>graph_modulator.cpp\<close>): EDN values, the compiler from expressions to node
    lists and the evaluator. \<open>Graph_Semantics\<close>: what an expression means, as a tree whose stateful operators
    carry their state, and its equivalence with the compiled graph. \<open>Graph_Types\<close>: a static check of
    expressions, shown sound by progress and preservation. \<open>Edn_Text\<close>: the notation of EDN maps of keywords and
    strings, what the sources rely on of the library that reads them, and a reader that meets it.
  \<^item> \<open>Rcu\<close> (\<open>rcu.hpp\<close>): readers, writers and callbacks as a step relation. \<open>Engine\<close> (\<open>modulator_engine.cpp\<close>,
    \<open>modulator_registry.hpp\<close>): the table of modulators and its ticking; the
    locale \<open>modulator_table\<close> is its contract as an ordered table. \<open>Engine_Range\<close>: any sequence of ticks,
    updates, starts and stops of the modulators whose range is known; \<open>Start_Range\<close>: the same from the
    EDN messages that start, stop and update them.
  \<^item> \<open>Modulator_Start\<close>, \<open>Control_Messages\<close>, \<open>Control_Thread\<close> (\<open>rt_control_thread.cpp\<close>, \<open>session.cpp\<close>): a handler
    per message, the dispatch, connections, frames handed over in memory, the listening socket.
    \<open>Control_Requests\<close>: what clients ask for and the events that must be queued for it.
  \<^item> \<open>C_Strings\<close>: the C library's conversions between text and numbers. \<open>Mcp\<close> (\<open>tools/nomos-mcp.cpp\<close>): the bridge
    from the Model Context Protocol to the control socket. \<open>Common_Args\<close> (\<open>common_args.hpp\<close>): the command
    line, with a grammar of its items.
  \<^item> \<open>Luajit\<close> (\<open>luajit_participant.cpp\<close>): the scripting participant over the Lua C API, whose documented
    effect is the hypothesis \<open>lua_ok\<close>, met by a stack machine: pushes need one of the 20 guaranteed slots, calls and
    accesses that run metamethods may change the globals and need not return (then the operation is \<open>None\<close>).
    \<open>Luajit_Prelude\<close>: the Fennel prelude of the same file. \<open>Host\<close> (\<open>audio_device.cpp\<close>, \<open>link_peer.cpp\<close>, \<open>heartbeat.hpp\<close>). \<open>Process\<close>
    (\<open>signal_handlers.hpp\<close>, \<open>result.hpp\<close>, \<open>version.cpp\<close>).

  \<^bold>\<open>Conventions.\<close> A class is a record, an operation a function that returns the updated state. A result
  \<open>None\<close> is undefined behaviour of the source: a conversion out of range, an index out of bounds, a
  comparator that is not an ordering (in \<open>Luajit\<close>: an operation that does not return). What an operation does to the outside is a list of effects.
  The outcome of a system call is an argument. Loops are structural recursions or functions with a
  termination proof, except two loops over scripts and their tables, which are partial functions with
  \<open>None\<close> for a run that does not end and are shown to end; no fuel is used, except that \<open>read_messages\<close>
  of the framing theory reads a given number of messages. Libraries that are not part of the sources
  are parameters: the EDN parser, the transaction log, CLAP's event space, RtMidi, RtAudio, Ableton
  Link, sockets, Lua, generated DSP code, liburcu.

  \<^bold>\<open>What is shown.\<close> The queue is first-in first-out in every interleaving and refuses only when full. The
  scheduler fires exactly the due events, in beat order, each once. Encoders and decoders of OSC,
  IPC, MIDI, MCP frames, JSON strings and UUIDs invert one another, truncated and oversized input is
  refused, their buffers never overflow. Under any sequence of messages to the engine the outputs of its
  modulators, also of those that listen to one another, stay in their documented range with the
  rounding of single precision included (control graphs, registered types, the sloth circuits and the
  splosh matrix, which have no range, apart), and a feedback shift register never locks up. A compiled
  graph produces at every tick what its expression means, state and all outputs included, and never goes wrong
  when the bounds of its clamps are constants in order. The engine is an ordered table whose tick follows
  insertion order. A reader of the published table never sees a deleted one, and nothing leaks. A
  connection has the effect of its messages dispatched one after the other, whatever the sizes of the
  reads; notes, parameters and MIDI asked for over it are queued exactly as asked. Scripts cannot unbalance
  the Lua stack, OSC messages of at most 18 arguments reach their handlers with their arguments, a tick of the prelude ends and fires each due
  thunk once. Every command line is read as its grammar says. The properties below follow a message
  through several components.

  \<^bold>\<open>Not modelled.\<close> The listing of audio devices and MIDI ports and other printing to standard error, file
  reading (\<open>slurp\<close>, a parameter), the generated Faust classes and the vendored liburcu, of which the theories
  state what the sources rely on. Weak memory is not modelled: the steps of the concurrent theories
  interleave, which the release and acquire accesses of the sources justify.
\<close>

section \<open>Properties that span components\<close>

text \<open>C29: a bundle of events sent to the control thread reaches the audio thread: once dispatched, its
  events are in the staging queue behind those already there, and the scheduler's next tick at a beat
  delivers exactly those that are due by then, in beat order, and keeps the others.\<close>

theorem bundle_reaches_callback:
  assumes st: "control_wf st" "ct_sched_staging st = Some q"
    and m: "payload_map (ce_edn V) p = Some m"
      "ed_find_kw (ce_edn V) m ''at-beat'' = Some beat_v" "edn_double beat_v = Some anchor"
      "ed_find_kw (ce_edn V) m ''events'' = Some (Edn_vector items)"
    and room: "length (q_list sched_queue_capacity q) + length (bundle_events V anchor items) \<le> 1023"
    and s: "sched_invar s" "sch_staging s = q"
    and ord: "beats_ordered (sch_pending s @ staged s @ bundle_events V anchor items)"
  shows "let all = sort_key beat_key (sch_pending s @ staged s @ bundle_events V anchor items) in
    \<exists>st' q' s'. dispatch_message V c \<lparr>m_hdr = frame_header msg_schedule_bundle p, m_payload = p\<rparr> st sess = Some ([], st', sess) \<and>
      ct_sched_staging st' = Some q' \<and>
      tick now (s\<lparr>sch_staging := q'\<rparr>) = Some (clap_events (filter (due now) all), s') \<and>
      sch_pending s' = filter (\<lambda>e. \<not> due now e) all"
proof -
  let ?es = "bundle_events V anchor items"
  define q' where "q' = push_all (q_push sched_queue_capacity) q ?es"
  have "q_invar sched_queue_capacity q" using st by (simp add: control_wf_def)
  from push_all_staging [OF this, of ?es] room
  have q': "q_invar sched_queue_capacity q'" "q_list sched_queue_capacity q' = q_list sched_queue_capacity q @ ?es"
    by (simp_all add: q'_def)
  have d: "dispatch_message V c \<lparr>m_hdr = frame_header msg_schedule_bundle p, m_payload = p\<rparr> st sess =
      Some ([], st\<lparr>ct_sched_staging := Some q'\<rparr>, sess)"
    using st m by (simp add: dispatch_message_def dispatch_map_def frame_header_def handled_types_def msg_type_defs
        handle_schedule_bundle_def Let_def q'_def)
  let ?s = "s\<lparr>sch_staging := q'\<rparr>"
  have inv: "sched_invar ?s" and stg: "staged ?s = staged s @ ?es" "sch_pending ?s = sch_pending s"
    using s q' by (simp_all add: sched_invar_def staged_def)
  from tick_spec [OF inv _ refl, of now] ord stg obtain s' where
    "tick now ?s = Some (clap_events (filter (due now) (sort_key beat_key (sch_pending s @ staged s @ ?es))), s')"
    "sch_pending s' = filter (\<lambda>e. \<not> due now e) (sort_key beat_key (sch_pending s @ staged s @ ?es))" by auto
  with d show ?thesis unfolding Let_def by (intro exI [of _ "st\<lparr>ct_sched_staging := Some q'\<rparr>"] exI [of _ q'] exI [of _ s']) simp
qed

definition two_notes :: edn_map where
  "two_notes = [(Edn_keyword ''at-beat'', Edn_double (Fin 4)), (Edn_keyword ''events'', Edn_vector
     [Edn_map [(Edn_keyword ''at-tick'', Edn_int 24), (Edn_keyword ''key'', Edn_int 64)],
      Edn_int 7,
      Edn_map [(Edn_keyword ''key'', Edn_int 62), (Edn_keyword ''velocity'', Edn_int 1)]])]"

theorem bundle_reaches_callback_witness:
  "let V = env_of (edn_table [([1], Edn_map two_notes)]); st = control_new ''s'';
       s = \<lparr>sch_staging = q_new sched_queue_capacity (clap_at (Fin 0) (Clap_other 0)), sch_pending = [], sch_osc_out = None\<rparr> in
   \<exists>st' q' s'. dispatch_message V 3 \<lparr>m_hdr = frame_header msg_schedule_bundle [1], m_payload = [1]\<rparr> st None = Some ([], st', None) \<and>
     ct_sched_staging st' = Some q' \<and>
     tick (Fin (9/2)) (s\<lparr>sch_staging := q'\<rparr>) = Some ([make_note_event True 62 0 0 (- 1) (Fin 1)], s')"
proof -
  define V where "V = env_of (edn_table [([1], Edn_map two_notes)])"
  define q where "q = q_new sched_queue_capacity (clap_at (Fin 0) (Clap_other 0))"
  define s where "s = \<lparr>sch_staging = q, sch_pending = [], sch_osc_out = None\<rparr>"
  let ?items = "[Edn_map [(Edn_keyword ''at-tick'', Edn_int 24), (Edn_keyword ''key'', Edn_int 64)], Edn_int 7,
      Edn_map [(Edn_keyword ''key'', Edn_int 62), (Edn_keyword ''velocity'', Edn_int 1)]]"
  let ?a = "clap_at (Fin 5) (make_note_event True 64 0 0 (- 1) (Fin 0))"
  let ?b = "clap_at (Fin 4) (make_note_event True 62 0 0 (- 1) (Fin 1))"
  have f: "of_int_fp F64 24 = Fin 24" "of_int_fp F64 0 = Fin 0" "of_int_fp F64 1 = Fin 1" "fdiv F64 (Fin 24) (Fin 24) = Fin 1"
    "fdiv F64 (Fin 0) (Fin 24) = Fin 0" "fadd F64 (Fin 4) (Fin 1) = Fin 5" "fadd F64 (Fin 4) (Fin 0) = Fin 4"
    by (simp_all add: of_int_fp_def fdiv_def fadd_def rnd_rep mk_fin_def)
  have es: "bundle_events V (Fin 4) ?items = [?a, ?b]"
    by (simp add: bundle_event_def V_def env_of_def edn_table_def get_int_def Let_def f note_of_map_def get_double_def edn_double_def)
  have wf: "control_wf (control_new ''s'')" by (rule control_new_wf)
  have sq: "ct_sched_staging (control_new ''s'') = Some q" by (simp add: control_new_def q_def)
  have pm: "payload_map (ce_edn V) [1] = Some two_notes" by (simp add: V_def env_of_def edn_table_def payload_map_def edn_is_map_def)
  have kw: "ed_find_kw (ce_edn V) two_notes ''at-beat'' = Some (Edn_double (Fin 4))" "edn_double (Edn_double (Fin 4)) = Some (Fin 4)"
      "ed_find_kw (ce_edn V) two_notes ''events'' = Some (Edn_vector ?items)"
    by (simp_all add: V_def env_of_def edn_table_def two_notes_def edn_double_def)
  have room: "length (q_list sched_queue_capacity q) + length (bundle_events V (Fin 4) ?items) \<le> 1023"
    unfolding es by (simp add: q_def q_new_list)
  have i: "sched_invar s" "sch_staging s = q" and stg: "staged s = []" "sch_pending s = []"
    by (simp_all add: s_def sched_invar_def staged_def q_def q_new_invar q_new_list queue_capacities_ok)
  have o: "beats_ordered (sch_pending s @ staged s @ bundle_events V (Fin 4) ?items)"
    unfolding stg es by (simp add: beats_ordered_def clap_at_def)
  have all: "sort_key beat_key (sch_pending s @ staged s @ bundle_events V (Fin 4) ?items) = [?b, ?a]"
    unfolding stg es by (simp add: beat_key_def clap_at_def less_eq_prod_def)
  have due: "due (Fin (9/2)) ?b" "\<not> due (Fin (9/2)) ?a" by (simp_all add: due_def clap_at_def fle_def flt_def feq_def)
  have ev: "clap_events (filter (due (Fin (9/2))) [?b, ?a]) = [make_note_event True 62 0 0 (- 1) (Fin 1)]"
    using due by (simp add: clap_at_def)
  from bundle_reaches_callback [OF wf sq pm kw room i o, of 3 None "Fin (9/2)", unfolded all Let_def ev]
  show ?thesis unfolding Let_def V_def [symmetric] q_def [symmetric] s_def [symmetric] by blast
qed






end
